(* ===== verification/Prelude.thy ===== *)
theory Prelude
  imports Main "HOL-Library.Word"
begin

text \<open>
  Shared vocabulary of the development: the machine types of the firmware (a C object of width
  \<open>w\<close> is a \<open>w word\<close>), byte arrays as lists, the four memory idioms of the C sources (\<open>memcpy\<close>
  into the middle of an array, \<open>memset\<close>, a sub-array, a NUL-terminated string), the
  little- and big-endian conversions, and the generic list and word lemmas that the component
  theories use. \<open>byte_simps\<close> collects the unfolding equations of these idioms,
  \<open>size_simps\<close> the lengths of the buffers that the operations return.
\<close>

unbundle bit_operations_syntax

named_theorems byte_simps
named_theorems size_simps

section \<open>Machine types\<close>

type_synonym u8 = "8 word"
type_synonym u16 = "16 word"
type_synonym u32 = "32 word"
type_synonym u64 = "64 word"
type_synonym bytes = "u8 list"

text \<open>A C string literal, as the bytes of its characters (without the terminating NUL).\<close>

definition ascii :: "string \<Rightarrow> bytes" where
  "ascii s = map of_char s"

lemma length_ascii [simp]: "length (ascii s) = length s"
  by (simp add: ascii_def)

lemma ascii_Nil [simp]: "ascii [] = []"
  by (simp add: ascii_def)

lemma ascii_Cons [simp]: "ascii (c # s) = of_char c # ascii s"
  by (simp add: ascii_def)

lemma ascii_append [simp]: "ascii (s @ t) = ascii s @ ascii t"
  by (simp add: ascii_def)

text \<open>Conversions between widths and shifts, read on the natural numbers.\<close>

named_theorems unat_simps

lemma unat_ucast_mod [unat_simps]:
  "unat (ucast (w :: 'a::len word) :: 'b::len word) = unat w mod 2 ^ LENGTH('b)"
  by (simp add: unsigned_ucast_eq take_bit_eq_mod)

lemma unat_drop_bit_div [unat_simps]: "unat (drop_bit n (w :: 'a::len word)) = unat w div 2 ^ n"
  unfolding unat_drop_bit_eq by (rule drop_bit_eq_div)

lemma unat_push_bit_mod [unat_simps]:
  "unat (push_bit n (w :: 'a::len word)) = (unat w * 2 ^ n) mod 2 ^ LENGTH('a)"
  unfolding unsigned_push_bit_eq by (simp only: push_bit_eq_mult take_bit_eq_mod)

lemma unat_u8_less: "unat (x :: u8) < 256" and unat_u16_less: "unat (y :: u16) < 65536"
  and unat_u32_less: "unat (z :: u32) < 4294967296"
  using unsigned_less [of x] unsigned_less [of y] unsigned_less [of z] by simp_all

text \<open>A property of all bytes, checked by evaluation.\<close>

lemma all_u8: "list_all (\<lambda>n. P (of_nat n)) [0..<256] \<Longrightarrow> P (c :: u8)"
proof -
  assume all: "list_all (\<lambda>n. P (of_nat n)) [0..<256]"
  have "unat c \<in> set [0..<256]" using unat_u8_less [of c] by (simp del: upt_rec_numeral)
  with all have "P (of_nat (unat c))" unfolding list_all_iff by blast
  then show ?thesis by simp
qed

lemma bit_u8_ge [simp]: "8 \<le> n \<Longrightarrow> \<not> bit (a :: u8) n"
  using bit_imp_le_length [of a n] by auto

section \<open>Arrays\<close>

text \<open>
  \<open>memcpy_at dst off src\<close> is \<open>memcpy(dst + off, src, length src)\<close>;
  \<open>sub_array p off n\<close> is the \<open>n\<close> elements at \<open>p + off\<close>.
\<close>

definition memcpy_at :: "'a list \<Rightarrow> nat \<Rightarrow> 'a list \<Rightarrow> 'a list" where
  "memcpy_at dst off src = take off dst @ src @ drop (off + length src) dst"

definition sub_array :: "'a list \<Rightarrow> nat \<Rightarrow> nat \<Rightarrow> 'a list" where
  "sub_array p off n = take n (drop off p)"

lemma length_memcpy_at [simp, size_simps]:
  "off + length src \<le> length dst \<Longrightarrow> length (memcpy_at dst off src) = length dst"
  by (simp add: memcpy_at_def)

lemma length_sub_array [simp, size_simps]:
  "off + n \<le> length p \<Longrightarrow> length (sub_array p off n) = n"
  by (simp add: sub_array_def)

lemma nth_sub_array: "i < n \<Longrightarrow> off + n \<le> length p \<Longrightarrow> sub_array p off n ! i = p ! (off + i)"
  by (simp add: sub_array_def)

lemma nth_memcpy_at:
  "off + length src \<le> length dst \<Longrightarrow> i < length dst \<Longrightarrow>
   memcpy_at dst off src ! i = (if off \<le> i \<and> i < off + length src then src ! (i - off) else dst ! i)"
  by (auto simp: memcpy_at_def nth_append)

text \<open>Reading back what was just copied, and reading beside it.\<close>

lemma sub_memcpy_same:
  "off + length src \<le> length dst \<Longrightarrow> n = length src \<Longrightarrow> sub_array (memcpy_at dst off src) off n = src"
  by (simp add: sub_array_def memcpy_at_def)

lemma sub_memcpy_other:
  assumes "off + length src \<le> length dst" and "o2 + n \<le> length dst"
    and "o2 + n \<le> off \<or> off + length src \<le> o2"
  shows "sub_array (memcpy_at dst off src) o2 n = sub_array dst o2 n"
proof (rule nth_equalityI)
  fix i assume "i < length (sub_array (memcpy_at dst off src) o2 n)"
  then show "sub_array (memcpy_at dst off src) o2 n ! i = sub_array dst o2 n ! i"
    using assms by (auto simp: nth_sub_array nth_memcpy_at)
qed (use assms in simp)

lemma take_memcpy_before:
  "off + length src \<le> length dst \<Longrightarrow> n \<le> off \<Longrightarrow> take n (memcpy_at dst off src) = take n dst"
  by (simp add: memcpy_at_def)

lemma take_memcpy_end:
  "off + length src \<le> length dst \<Longrightarrow> n = off + length src \<Longrightarrow>
   take n (memcpy_at dst off src) = take off dst @ src"
  by (simp add: memcpy_at_def)

lemma memcpy_at_append:
  "length f = off \<Longrightarrow> length g = length src \<Longrightarrow> memcpy_at (f @ g) off src = f @ src"
  by (simp add: memcpy_at_def)

lemma sub_array_all: "length p = n \<Longrightarrow> sub_array p 0 n = p"
  by (simp add: sub_array_def)

text \<open>A loop that stores \<open>f i\<close> at \<open>off + i\<close> is one copy.\<close>

lemma fold_store_range:
  "off + n \<le> length xs \<Longrightarrow> fold (\<lambda>i h. h[off + i := f i]) [0..<n] xs = memcpy_at xs off (map f [0..<n])"
proof (induction n)
  case (Suc n)
  then have "drop (off + n) xs = xs ! (off + n) # drop (off + Suc n) xs"
    by (simp add: Cons_nth_drop_Suc)
  with Suc show ?case by (simp add: memcpy_at_def list_update_append)
qed (simp add: memcpy_at_def)

section \<open>NUL-terminated strings\<close>

text \<open>\<open>cstr p\<close> is the string that starts at \<open>p\<close>: the bytes before the first NUL.\<close>

definition cstr :: "bytes \<Rightarrow> bytes" where
  "cstr p = takeWhile (\<lambda>c. c \<noteq> 0) p"

lemma cstr_no_nul: "0 \<notin> set (cstr p)"
  by (auto simp: cstr_def dest: set_takeWhileD)

lemma cstr_append_nul: "0 \<notin> set s \<Longrightarrow> cstr (s @ 0 # rest) = s"
  by (induction s) (auto simp: cstr_def)

lemma length_cstr: "length (cstr p) \<le> length p"
  by (simp add: cstr_def length_takeWhile_le)

section \<open>Endianness\<close>

definition load_le32 :: "bytes \<Rightarrow> u32" where
  "load_le32 p = ucast (p ! 0) OR push_bit 8 (ucast (p ! 1)) OR push_bit 16 (ucast (p ! 2))
     OR push_bit 24 (ucast (p ! 3))"

definition store_le32 :: "u32 \<Rightarrow> bytes" where
  "store_le32 n = map (\<lambda>i. ucast (drop_bit (8 * i) n)) [0..<4]"

lemma upt_4: "[0..<4] = [0, 1, 2, 3 :: nat]"
  by (simp add: upt_rec)

lemma length_store_le32 [simp, size_simps]: "length (store_le32 n) = 4"
  by (simp add: store_le32_def)

lemma load_store_le32 [simp]: "load_le32 (store_le32 n) = n"
proof (rule bit_word_eqI)
  fix k assume k: "k < LENGTH(32)"
  then consider "k < 8" | "8 \<le> k" "k < 16" | "16 \<le> k" "k < 24" | "24 \<le> k" "k < 32"
    by fastforce
  then show "bit (load_le32 (store_le32 n)) k = bit n k"
    by cases (auto simp: load_le32_def store_le32_def upt_4 bit_simps)
qed

lemma store_load_le32: "4 \<le> length p \<Longrightarrow> store_le32 (load_le32 p) = take 4 p"
proof -
  assume "4 \<le> length p"
  then obtain a b c d r where p: "p = a # b # c # d # r"
    by (auto simp: numeral_eq_Suc Suc_le_length_iff)
  have "ucast (drop_bit 0 (load_le32 p)) = a" "ucast (drop_bit 8 (load_le32 p)) = b"
    "ucast (drop_bit 16 (load_le32 p)) = c" "ucast (drop_bit 24 (load_le32 p)) = d"
    by (rule bit_word_eqI, auto simp: p load_le32_def bit_simps)+
  then show ?thesis by (simp add: store_le32_def upt_4 p)
qed

end
