(* ===== verification/Sha256.thy ===== *)
theory Sha256
  imports Prelude
begin

text \<open>
  The software SHA-256 of \<^verbatim>\<open>software/common/sha256_sw.c\<close>: the streaming context
  (\<open>sha256_init\<close>, \<open>sha256_update\<close>, \<open>sha256_final\<close>), the compression function, and the two
  helpers that prepare a mining job (\<open>bitcoin_header_midstate\<close>, \<open>bitcoin_header_tail_words\<close>).
  The reference is \<open>sha256_spec\<close>: the padded message, cut into 64-byte blocks, folded through the
  compression function.
\<close>

unbundle bit_operations_syntax

section \<open>The compression function\<close>

definition k_sha256 :: "u32 list" where
  "k_sha256 = concat [
    [0x428a2f98, 0x71374491, 0xb5c0fbcf, 0xe9b5dba5],
    [0x3956c25b, 0x59f111f1, 0x923f82a4, 0xab1c5ed5],
    [0xd807aa98, 0x12835b01, 0x243185be, 0x550c7dc3],
    [0x72be5d74, 0x80deb1fe, 0x9bdc06a7, 0xc19bf174],
    [0xe49b69c1, 0xefbe4786, 0x0fc19dc6, 0x240ca1cc],
    [0x2de92c6f, 0x4a7484aa, 0x5cb0a9dc, 0x76f988da],
    [0x983e5152, 0xa831c66d, 0xb00327c8, 0xbf597fc7],
    [0xc6e00bf3, 0xd5a79147, 0x06ca6351, 0x14292967],
    [0x27b70a85, 0x2e1b2138, 0x4d2c6dfc, 0x53380d13],
    [0x650a7354, 0x766a0abb, 0x81c2c92e, 0x92722c85],
    [0xa2bfe8a1, 0xa81a664b, 0xc24b8b70, 0xc76c51a3],
    [0xd192e819, 0xd6990624, 0xf40e3585, 0x106aa070],
    [0x19a4c116, 0x1e376c08, 0x2748774c, 0x34b0bcb5],
    [0x391c0cb3, 0x4ed8aa4a, 0x5b9cca4f, 0x682e6ff3],
    [0x748f82ee, 0x78a5636f, 0x84c87814, 0x8cc70208],
    [0x90befffa, 0xa4506ceb, 0xbef9a3f7, 0xc67178f2]]"

definition rotr32 :: "u32 \<Rightarrow> nat \<Rightarrow> u32" where
  "rotr32 x n = drop_bit n x OR push_bit (32 - n) x"

definition load_be32 :: "bytes \<Rightarrow> u32" where
  "load_be32 p = push_bit 24 (ucast (p ! 0)) OR push_bit 16 (ucast (p ! 1))
     OR push_bit 8 (ucast (p ! 2)) OR ucast (p ! 3)"

definition store_be32 :: "u32 \<Rightarrow> bytes" where
  "store_be32 x = [ucast (drop_bit 24 x), ucast (drop_bit 16 x), ucast (drop_bit 8 x), ucast x]"

text \<open>
  The message schedule. The C array \<open>w[64]\<close> is filled in index order and every element is written
  once before it is read, so the model grows the list by one element per iteration.
\<close>

definition sha256_w_next :: "u32 list \<Rightarrow> nat \<Rightarrow> u32" where
  "sha256_w_next w i =
     (let s0 = rotr32 (w ! (i - 15)) 7 XOR rotr32 (w ! (i - 15)) 18 XOR drop_bit 3 (w ! (i - 15));
          s1 = rotr32 (w ! (i - 2)) 17 XOR rotr32 (w ! (i - 2)) 19 XOR drop_bit 10 (w ! (i - 2))
      in w ! (i - 16) + s0 + w ! (i - 7) + s1)"

definition sha256_schedule :: "bytes \<Rightarrow> u32 list" where
  "sha256_schedule block =
     fold (\<lambda>i w. w @ [sha256_w_next w i]) [16..<64]
       (map (\<lambda>i. load_be32 (drop (i * 4) block)) [0..<16])"

type_synonym sha256_vars = "u32 \<times> u32 \<times> u32 \<times> u32 \<times> u32 \<times> u32 \<times> u32 \<times> u32"

definition sha256_round :: "u32 \<Rightarrow> u32 \<Rightarrow> sha256_vars \<Rightarrow> sha256_vars" where
  "sha256_round k w = (\<lambda>(a, b, c, d, e, f, g, h).
     (let s1 = rotr32 e 6 XOR rotr32 e 11 XOR rotr32 e 25;
          ch = (e AND f) XOR (NOT e AND g);
          temp1 = h + s1 + ch + k + w;
          s0 = rotr32 a 2 XOR rotr32 a 13 XOR rotr32 a 22;
          maj = (a AND b) XOR (a AND c) XOR (b AND c);
          temp2 = s0 + maj
      in (temp1 + temp2, a, b, c, d + temp1, e, f, g)))"

definition sha256_compress :: "u32 list \<Rightarrow> bytes \<Rightarrow> u32 list" where
  "sha256_compress state block =
     (let w = sha256_schedule block;
          (a, b, c, d, e, f, g, h) =
            fold (\<lambda>i. sha256_round (k_sha256 ! i) (w ! i)) [0..<64]
              (state ! 0, state ! 1, state ! 2, state ! 3, state ! 4, state ! 5, state ! 6, state ! 7)
      in [state ! 0 + a, state ! 1 + b, state ! 2 + c, state ! 3 + d,
          state ! 4 + e, state ! 5 + f, state ! 6 + g, state ! 7 + h])"

section \<open>The streaming context\<close>

record sha256_ctx_t =
  ctx_h :: "u32 list"
  ctx_bit_count :: u64
  ctx_buffer :: bytes
  ctx_buffer_len :: nat

definition sha256_iv :: "u32 list" where
  "sha256_iv = [0x6a09e667, 0xbb67ae85, 0x3c6ef372, 0xa54ff53a,
                0x510e527f, 0x9b05688c, 0x1f83d9ab, 0x5be0cd19]"

definition sha256_init :: "sha256_ctx_t \<Rightarrow> sha256_ctx_t" where
  "sha256_init ctx = ctx\<lparr>ctx_h := sha256_iv, ctx_bit_count := 0, ctx_buffer_len := 0\<rparr>"

text \<open>
  The \<open>while (len > 0)\<close> loop. With \<open>buffer_len > 64\<close> (never reached, see \<open>sha256_wf\<close>) the C code
  would write behind the buffer; the model stops there.
\<close>

function sha256_update_loop :: "sha256_ctx_t \<Rightarrow> bytes \<Rightarrow> sha256_ctx_t" where
  "sha256_update_loop ctx data =
     (if data = [] \<or> 64 < ctx_buffer_len ctx then ctx
      else
        let room = 64 - ctx_buffer_len ctx;
            n = (if length data < room then length data else room);
            buffer = memcpy_at (ctx_buffer ctx) (ctx_buffer_len ctx) (take n data);
            len = ctx_buffer_len ctx + n
        in sha256_update_loop
             (if len = 64
              then ctx\<lparr>ctx_h := sha256_compress (ctx_h ctx) buffer, ctx_buffer := buffer,
                       ctx_buffer_len := 0\<rparr>
              else ctx\<lparr>ctx_buffer := buffer, ctx_buffer_len := len\<rparr>)
             (drop n data))"
  by pat_completeness auto
termination
  by (relation "measures [\<lambda>(ctx, data). length data, \<lambda>(ctx, data). ctx_buffer_len ctx]")
     (auto simp: Let_def)

declare sha256_update_loop.simps [simp del]

definition sha256_update :: "sha256_ctx_t \<Rightarrow> bytes \<Rightarrow> sha256_ctx_t" where
  "sha256_update ctx data =
     sha256_update_loop (ctx\<lparr>ctx_bit_count := ctx_bit_count ctx + of_nat (length data) * 8\<rparr>) data"

text \<open>\<open>while (buffer_len < lim) buffer[buffer_len++] = 0;\<close>\<close>

function sha256_zero_upto :: "nat \<Rightarrow> sha256_ctx_t \<Rightarrow> sha256_ctx_t" where
  "sha256_zero_upto lim ctx =
     (if ctx_buffer_len ctx < lim
      then sha256_zero_upto lim
             (ctx\<lparr>ctx_buffer := (ctx_buffer ctx)[ctx_buffer_len ctx := 0],
                  ctx_buffer_len := ctx_buffer_len ctx + 1\<rparr>)
      else ctx)"
  by pat_completeness auto
termination
  by (relation "measure (\<lambda>(lim, ctx). lim - ctx_buffer_len ctx)") auto

declare sha256_zero_upto.simps [simp del]

definition store_be64 :: "u64 \<Rightarrow> bytes" where
  "store_be64 n = map (\<lambda>i. ucast (drop_bit (56 - i * 8) n)) [0..<8]"

definition sha256_final :: "sha256_ctx_t \<Rightarrow> bytes \<times> sha256_ctx_t" where
  "sha256_final ctx =
     (let bit_count = ctx_bit_count ctx;
          ctx1 = ctx\<lparr>ctx_buffer := (ctx_buffer ctx)[ctx_buffer_len ctx := 0x80],
                     ctx_buffer_len := ctx_buffer_len ctx + 1\<rparr>;
          ctx2 = (if 56 < ctx_buffer_len ctx1
                  then let z = sha256_zero_upto 64 ctx1
                       in z\<lparr>ctx_h := sha256_compress (ctx_h z) (ctx_buffer z), ctx_buffer_len := 0\<rparr>
                  else ctx1);
          ctx3 = sha256_zero_upto 56 ctx2;
          ctx4 = ctx3\<lparr>ctx_buffer := memcpy_at (ctx_buffer ctx3) 56 (store_be64 bit_count)\<rparr>;
          ctx5 = ctx4\<lparr>ctx_h := sha256_compress (ctx_h ctx4) (ctx_buffer ctx4)\<rparr>
      in (concat (map store_be32 (ctx_h ctx5)), ctx5))"

text \<open>The contents of an automatic \<open>sha256_ctx_t\<close> before \<open>sha256_init\<close>; no result depends on it.\<close>

definition sha256_ctx_uninit :: sha256_ctx_t where
  "sha256_ctx_uninit =
     \<lparr>ctx_h = replicate 8 0, ctx_bit_count = 0, ctx_buffer = replicate 64 0, ctx_buffer_len = 0\<rparr>"

section \<open>Mining helpers\<close>

definition bitcoin_header_midstate :: "bytes \<Rightarrow> u32 list" where
  "bitcoin_header_midstate header80 =
     (let ctx = sha256_update (sha256_init sha256_ctx_uninit) (take 64 header80)
      in map (\<lambda>i. ctx_h ctx ! i) [0..<8])"

definition bitcoin_header_tail_words :: "bytes \<Rightarrow> u32 list" where
  "bitcoin_header_tail_words header80 = map (\<lambda>i. load_be32 (drop (64 + i * 4) header80)) [0..<4]"

section \<open>Reference definitions\<close>

text \<open>
  FIPS 180-4: the message schedule as a recursive sequence, the round functions under their
  standard names with the library's rotation, and the hash of a message as a fold of the
  compression function over the blocks of the padded message.
\<close>

definition fips_Ch :: "u32 \<Rightarrow> u32 \<Rightarrow> u32 \<Rightarrow> u32" where
  "fips_Ch x y z = (x AND y) XOR (NOT x AND z)"

definition fips_Maj :: "u32 \<Rightarrow> u32 \<Rightarrow> u32 \<Rightarrow> u32" where
  "fips_Maj x y z = (x AND y) XOR (x AND z) XOR (y AND z)"

definition fips_Sigma0 :: "u32 \<Rightarrow> u32" where
  "fips_Sigma0 x = word_rotr 2 x XOR word_rotr 13 x XOR word_rotr 22 x"

definition fips_Sigma1 :: "u32 \<Rightarrow> u32" where
  "fips_Sigma1 x = word_rotr 6 x XOR word_rotr 11 x XOR word_rotr 25 x"

definition fips_sigma0 :: "u32 \<Rightarrow> u32" where
  "fips_sigma0 x = word_rotr 7 x XOR word_rotr 18 x XOR drop_bit 3 x"

definition fips_sigma1 :: "u32 \<Rightarrow> u32" where
  "fips_sigma1 x = word_rotr 17 x XOR word_rotr 19 x XOR drop_bit 10 x"

fun fips_W :: "bytes \<Rightarrow> nat \<Rightarrow> u32" where
  "fips_W block t =
     (if t < 16 then load_be32 (drop (4 * t) block)
      else fips_sigma1 (fips_W block (t - 2)) + fips_W block (t - 7)
         + fips_sigma0 (fips_W block (t - 15)) + fips_W block (t - 16))"

declare fips_W.simps [simp del]

primrec fips_vars :: "u32 list \<Rightarrow> bytes \<Rightarrow> nat \<Rightarrow> sha256_vars" where
  "fips_vars H block 0 = (H ! 0, H ! 1, H ! 2, H ! 3, H ! 4, H ! 5, H ! 6, H ! 7)"
| "fips_vars H block (Suc t) =
     (case fips_vars H block t of (a, b, c, d, e, f, g, h) \<Rightarrow>
        let T1 = h + fips_Sigma1 e + fips_Ch e f g + k_sha256 ! t + fips_W block t;
            T2 = fips_Sigma0 a + fips_Maj a b c
        in (T1 + T2, a, b, c, d + T1, e, f, g))"

definition fips_compress :: "u32 list \<Rightarrow> bytes \<Rightarrow> u32 list" where
  "fips_compress H block =
     (case fips_vars H block 64 of (a, b, c, d, e, f, g, h) \<Rightarrow>
        map2 (+) [a, b, c, d, e, f, g, h] [H ! 0, H ! 1, H ! 2, H ! 3, H ! 4, H ! 5, H ! 6, H ! 7])"

fun sha256_blocks :: "u32 list \<Rightarrow> bytes \<Rightarrow> u32 list" where
  "sha256_blocks H bs =
     (if length bs < 64 then H else sha256_blocks (fips_compress H (take 64 bs)) (drop 64 bs))"

declare sha256_blocks.simps [simp del]

definition sha256_pad :: "bytes \<Rightarrow> bytes" where
  "sha256_pad m =
     m @ 0x80 # replicate ((119 - length m mod 64) mod 64) 0 @ store_be64 (of_nat (length m) * 8)"

definition sha256_spec :: "bytes \<Rightarrow> bytes" where
  "sha256_spec m = concat (map store_be32 (sha256_blocks sha256_iv (sha256_pad m)))"

section \<open>Words and bytes\<close>

lemma rotr32_word_rotr: "0 < n \<Longrightarrow> n < 32 \<Longrightarrow> rotr32 x n = word_rotr n x"
proof (rule bit_word_eqI)
  fix k assume "0 < n" "n < 32" and k: "k < LENGTH(32)"
  then show "bit (rotr32 x n) k = bit (word_rotr n x) k"
    by (cases "n + k < 32")
      (auto simp: rotr32_def bit_simps not_less le_mod_geq add.commute dest: bit_imp_le_length)
qed

lemma length_store_be32 [simp, size_simps]: "length (store_be32 x) = 4"
  by (simp add: store_be32_def)

lemma length_store_be64 [simp, size_simps]: "length (store_be64 x) = 8"
  by (simp add: store_be64_def)

lemma load_store_be32 [simp]: "load_be32 (store_be32 n) = n"
proof (rule bit_word_eqI)
  fix k assume k: "k < LENGTH(32)"
  then consider "k < 8" | "8 \<le> k" "k < 16" | "16 \<le> k" "k < 24" | "24 \<le> k" "k < 32"
    by fastforce
  then show "bit (load_be32 (store_be32 n)) k = bit n k"
    by cases (auto simp: load_be32_def store_be32_def bit_simps)
qed

lemma store_load_be32:
  assumes "length p = 4"
  shows "store_be32 (load_be32 p) = p"
proof -
  from assms obtain a b c d where p: "p = [a, b, c, d]"
    by (auto simp: numeral_eq_Suc length_Suc_conv)
  show ?thesis
    unfolding p load_be32_def store_be32_def
    by (auto intro!: bit_word_eqI simp: bit_simps)
qed

lemma load_be32_take: "load_be32 (take 4 p) = load_be32 p"
  by (simp add: load_be32_def)

section \<open>The compression function computes FIPS 180-4\<close>

lemma sha256_schedule_prefix:
  assumes "k \<le> 48"
  shows "fold (\<lambda>i w. w @ [sha256_w_next w i]) [16..<16 + k]
           (map (\<lambda>i. load_be32 (drop (i * 4) block)) [0..<16]) = map (fips_W block) [0..<16 + k]"
  using assms
proof (induction k)
  case 0
  show ?case by (simp add: fips_W.simps mult.commute)
next
  case (Suc k)
  let ?w = "map (fips_W block) [0..<16 + k]"
  have "sha256_w_next ?w (16 + k) = fips_W block (16 + k)"
    by (subst fips_W.simps)
      (simp add: sha256_w_next_def Let_def fips_sigma0_def fips_sigma1_def rotr32_word_rotr nth_append
        algebra_simps)
  moreover have "[16..<16 + Suc k] = [16..<16 + k] @ [16 + k]" and
    "[0..<16 + Suc k] = [0..<16 + k] @ [16 + k]"
    by (simp_all only: add_Suc_right upt_Suc le_add1 if_True zero_le)
  ultimately show ?case
    using Suc by (simp only: fold_append map_append comp_apply fold_simps list.map Suc_leD)
qed

lemma sha256_schedule_fips: "sha256_schedule block = map (fips_W block) [0..<64]"
proof -
  have "(16::nat) + 48 = 64" by simp
  then show ?thesis
    using sha256_schedule_prefix [of 48 block] by (simp only: sha256_schedule_def order_refl)
qed

lemma sha256_round_fips:
  "sha256_round k w (a, b, c, d, e, f, g, h) =
     (let T1 = h + fips_Sigma1 e + fips_Ch e f g + k + w; T2 = fips_Sigma0 a + fips_Maj a b c
      in (T1 + T2, a, b, c, d + T1, e, f, g))"
  by (simp add: sha256_round_def Let_def fips_Sigma1_def fips_Sigma0_def fips_Ch_def fips_Maj_def
      rotr32_word_rotr)

lemma sha256_rounds_fips:
  "t \<le> 64 \<Longrightarrow>
   fold (\<lambda>i. sha256_round (k_sha256 ! i) (sha256_schedule block ! i)) [0..<t]
     (H ! 0, H ! 1, H ! 2, H ! 3, H ! 4, H ! 5, H ! 6, H ! 7) = fips_vars H block t"
  by (induction t)
     (auto simp: sha256_schedule_fips sha256_round_fips Let_def split: prod.splits)

lemma sha256_compress_eq_fips: "sha256_compress H block = fips_compress H block"
  unfolding sha256_compress_def fips_compress_def Let_def sha256_rounds_fips [OF order_refl]
  by (simp add: add.commute split: prod.split del: fips_vars.simps)

lemma length_fips_compress [simp, size_simps]: "length (fips_compress H block) = 8"
  by (simp add: fips_compress_def split: prod.splits)

section \<open>Blocks and padding\<close>

lemma sha256_blocks_short: "length bs < 64 \<Longrightarrow> sha256_blocks H bs = H"
  by (simp add: sha256_blocks.simps)

lemma sha256_blocks_one: "length bs = 64 \<Longrightarrow> sha256_blocks H bs = fips_compress H bs"
  by (subst sha256_blocks.simps) (simp add: sha256_blocks_short)

lemma sha256_blocks_append:
  assumes "length a mod 64 = 0"
  shows "sha256_blocks H (a @ b) = sha256_blocks (sha256_blocks H a) b"
  using assms
proof (induction H a rule: sha256_blocks.induct)
  case (1 H a)
  show ?case
  proof (cases "length a < 64")
    case True
    with "1.prems" show ?thesis by (simp add: sha256_blocks_short)
  next
    case False
    with "1.prems" have "length (drop 64 a) mod 64 = 0"
      by (simp add: le_mod_geq)
    from "1.IH" [OF False this] False show ?thesis
      by (simp add: sha256_blocks.simps [of H "a @ b"] sha256_blocks.simps [of H a])
  qed
qed

lemma length_sha256_blocks [simp, size_simps]: "length H = 8 \<Longrightarrow> length (sha256_blocks H bs) = 8"
  by (induction H bs rule: sha256_blocks.induct) (subst sha256_blocks.simps, simp)

lemma length_sha256_iv [simp, size_simps]: "length sha256_iv = 8"
  by (simp add: sha256_iv_def)

lemma length_concat_store_be32: "length (concat (map store_be32 ws)) = 4 * length ws"
  by (induction ws) auto

lemma length_sha256_spec [simp, size_simps]: "length (sha256_spec m) = 32"
  by (simp add: sha256_spec_def length_concat_store_be32)

section \<open>The streaming interface\<close>

text \<open>
  What a client of a streaming hash relies on: feeding bytes extends the absorbed message, and
  finishing returns the digest of the absorbed message. How the message is cut into chunks then
  cannot matter.
\<close>

locale stream_hash =
  fixes update :: "'c \<Rightarrow> bytes \<Rightarrow> 'c"
    and finish :: "'c \<Rightarrow> bytes"
    and absorbed :: "'c \<Rightarrow> bytes \<Rightarrow> bool"
    and digest :: "bytes \<Rightarrow> bytes"
  assumes absorbed_update: "absorbed c m \<Longrightarrow> absorbed (update c d) (m @ d)"
    and finish_digest: "absorbed c m \<Longrightarrow> finish c = digest m"
begin

lemma absorbed_foldl: "absorbed c m \<Longrightarrow> absorbed (foldl update c ds) (m @ concat ds)"
proof (induction ds arbitrary: c m)
  case Nil
  then show ?case by simp
next
  case (Cons d ds)
  from Cons.IH [OF absorbed_update [OF Cons.prems, of d]] show ?case by simp
qed

lemma finish_foldl: "absorbed c m \<Longrightarrow> finish (foldl update c ds) = digest (m @ concat ds)"
  by (rule finish_digest [OF absorbed_foldl])

end

text \<open>
  The context's data invariant, tied to the message absorbed so far: the chaining value covers the
  whole blocks, the front of the buffer holds the rest.
\<close>

definition sha256_buffered :: "sha256_ctx_t \<Rightarrow> bytes \<Rightarrow> bool" where
  "sha256_buffered ctx m \<longleftrightarrow>
     (\<exists>full rest. m = full @ rest \<and> length full mod 64 = 0 \<and> length rest < 64 \<and>
        ctx_h ctx = sha256_blocks sha256_iv full \<and> length (ctx_buffer ctx) = 64 \<and>
        ctx_buffer_len ctx = length rest \<and> take (length rest) (ctx_buffer ctx) = rest)"

lemma sha256_bufferedE:
  assumes "sha256_buffered ctx m"
  obtains full rest where "m = full @ rest" "length full mod 64 = 0" "length rest < 64"
    "ctx_h ctx = sha256_blocks sha256_iv full" "length (ctx_buffer ctx) = 64"
    "ctx_buffer_len ctx = length rest" "take (length rest) (ctx_buffer ctx) = rest"
  using assms unfolding sha256_buffered_def by (elim exE conjE) (rule that)

definition sha256_absorbed :: "sha256_ctx_t \<Rightarrow> bytes \<Rightarrow> bool" where
  "sha256_absorbed ctx m \<longleftrightarrow> sha256_buffered ctx m \<and> ctx_bit_count ctx = of_nat (length m) * 8"

lemma sha256_buffered_bit_count [simp]:
  "sha256_buffered (ctx\<lparr>ctx_bit_count := n\<rparr>) m = sha256_buffered ctx m"
  by (simp add: sha256_buffered_def)

lemma sha256_init_absorbed: "length (ctx_buffer c) = 64 \<Longrightarrow> sha256_absorbed (sha256_init c) []"
  by (simp add: sha256_absorbed_def sha256_buffered_def sha256_init_def sha256_blocks_short)

text \<open>One iteration of the update loop, when the chunk completes the block and when it does not.\<close>

lemma sha256_buffered_fill:
  assumes "sha256_buffered ctx m" and "ctx_buffer_len ctx + length d = 64"
  defines "buf \<equiv> memcpy_at (ctx_buffer ctx) (ctx_buffer_len ctx) d"
  shows "sha256_buffered (ctx\<lparr>ctx_h := sha256_compress (ctx_h ctx) buf, ctx_buffer := buf,
           ctx_buffer_len := 0\<rparr>) (m @ d)"
proof -
  from assms(1) obtain full rest where m: "m = full @ rest" "length full mod 64 = 0"
    "length rest < 64" "ctx_h ctx = sha256_blocks sha256_iv full" "length (ctx_buffer ctx) = 64"
    "ctx_buffer_len ctx = length rest" "take (length rest) (ctx_buffer ctx) = rest"
    by (rule sha256_bufferedE)
  with assms(2) have buf: "buf = rest @ d"
    by (simp add: buf_def memcpy_at_def)
  have len: "length (rest @ d) = 64" using m assms(2) by simp
  have "sha256_blocks sha256_iv (full @ rest @ d) = sha256_compress (ctx_h ctx) buf"
    unfolding sha256_blocks_append [OF m(2)] sha256_blocks_one [OF len] m(4) buf
      sha256_compress_eq_fips ..
  then show ?thesis
    unfolding sha256_buffered_def using m len buf
    by (intro exI [of _ "full @ rest @ d"] exI [of _ "[]"]) (simp add: mod_add_eq)
qed

lemma sha256_buffered_part:
  assumes "sha256_buffered ctx m" and "ctx_buffer_len ctx + length d < 64"
  shows "sha256_buffered (ctx\<lparr>ctx_buffer := memcpy_at (ctx_buffer ctx) (ctx_buffer_len ctx) d,
           ctx_buffer_len := ctx_buffer_len ctx + length d\<rparr>) (m @ d)"
proof -
  from assms(1) obtain full rest where m: "m = full @ rest" "length full mod 64 = 0"
    "length rest < 64" "ctx_h ctx = sha256_blocks sha256_iv full" "length (ctx_buffer ctx) = 64"
    "ctx_buffer_len ctx = length rest" "take (length rest) (ctx_buffer ctx) = rest"
    by (rule sha256_bufferedE)
  with assms(2) show ?thesis
    unfolding sha256_buffered_def
    by (intro exI [of _ full] exI [of _ "rest @ d"]) (simp add: memcpy_at_def)
qed

lemma sha256_buffered_len: "sha256_buffered ctx m \<Longrightarrow> ctx_buffer_len ctx < 64"
  by (auto simp: sha256_buffered_def)

lemma sha256_update_loop_buffered:
  "sha256_buffered ctx m \<Longrightarrow> sha256_buffered (sha256_update_loop ctx data) (m @ data)"
proof (induction ctx data arbitrary: m rule: sha256_update_loop.induct)
  case (1 ctx data)
  note small = sha256_buffered_len [OF "1.prems"]
  show ?case
  proof (cases "data = []")
    case True
    with "1.prems" show ?thesis by (simp add: sha256_update_loop.simps)
  next
    case False
    define n where "n = min (length data) (64 - ctx_buffer_len ctx)"
    define buf where "buf = memcpy_at (ctx_buffer ctx) (ctx_buffer_len ctx) (take n data)"
    define ctx' where "ctx' = (if ctx_buffer_len ctx + n = 64
      then ctx\<lparr>ctx_h := sha256_compress (ctx_h ctx) buf, ctx_buffer := buf, ctx_buffer_len := 0\<rparr>
      else ctx\<lparr>ctx_buffer := buf, ctx_buffer_len := ctx_buffer_len ctx + n\<rparr>)"
    have n: "(if length data < 64 - ctx_buffer_len ctx then length data else 64 - ctx_buffer_len ctx) = n"
      by (simp add: n_def)
    have step: "sha256_buffered ctx' (m @ take n data)"
      using sha256_buffered_fill [OF "1.prems", of "take n data"]
        sha256_buffered_part [OF "1.prems", of "take n data"] small
      unfolding ctx'_def buf_def n_def by (auto simp: min_def split: if_splits)
    have unfold: "sha256_update_loop ctx data = sha256_update_loop ctx' (drop n data)"
      using False small n
      by (subst sha256_update_loop.simps) (simp add: Let_def ctx'_def buf_def)
    have "sha256_buffered (sha256_update_loop ctx' (drop n data)) ((m @ take n data) @ drop n data)"
      using "1.IH" [OF _ refl n [symmetric] buf_def refl, of "m @ take n data"] step False small
      by (simp add: ctx'_def)
    with unfold show ?thesis by simp
  qed
qed

lemma sha256_update_loop_bit_count:
  "ctx_bit_count (sha256_update_loop ctx data) = ctx_bit_count ctx"
  by (induction ctx data rule: sha256_update_loop.induct)
     (subst sha256_update_loop.simps, simp add: Let_def)

lemma sha256_update_absorbed:
  "sha256_absorbed ctx m \<Longrightarrow> sha256_absorbed (sha256_update ctx data) (m @ data)"
  by (simp add: sha256_absorbed_def sha256_update_def sha256_update_loop_buffered
      sha256_update_loop_bit_count algebra_simps)

text \<open>Padding: the zero-fill loops in closed form, and the one or two final blocks.\<close>

lemma sha256_zero_upto_eq:
  assumes "ctx_buffer_len ctx \<le> lim" and "lim \<le> length (ctx_buffer ctx)"
  shows "sha256_zero_upto lim ctx =
    ctx\<lparr>ctx_buffer := take (ctx_buffer_len ctx) (ctx_buffer ctx)
          @ replicate (lim - ctx_buffer_len ctx) 0 @ drop lim (ctx_buffer ctx),
        ctx_buffer_len := lim\<rparr>"
  using assms
proof (induction lim ctx rule: sha256_zero_upto.induct)
  case (1 lim ctx)
  show ?case
  proof (cases "ctx_buffer_len ctx < lim")
    case True
    let ?n = "ctx_buffer_len ctx" and ?b = "ctx_buffer ctx"
    have "take (Suc ?n) (?b[?n := 0]) = take ?n ?b @ [0]"
      using True "1.prems" by (simp add: take_Suc_conv_app_nth)
    moreover have "replicate (lim - ?n) 0 = 0 # replicate (lim - Suc ?n) (0 :: u8)"
      using True by (simp add: Suc_diff_Suc flip: replicate_Suc)
    ultimately show ?thesis
      using "1.IH" [OF True] "1.prems" True by (subst sha256_zero_upto.simps) simp
  next
    case False
    with "1.prems" have "ctx_buffer_len ctx = lim" by simp
    then show ?thesis by (subst sha256_zero_upto.simps) simp
  qed
qed

lemma sha256_final_short:
  assumes "length (ctx_buffer ctx) = 64" and "ctx_buffer_len ctx = length rest"
    and "take (length rest) (ctx_buffer ctx) = rest" and "length rest < 56"
  shows "fst (sha256_final ctx) = concat (map store_be32 (sha256_compress (ctx_h ctx)
           (rest @ 0x80 # replicate (55 - length rest) 0 @ store_be64 (ctx_bit_count ctx))))"
proof -
  let ?b = "(ctx_buffer ctx)[length rest := 0x80]"
  let ?f = "rest @ 0x80 # replicate (55 - length rest) 0"
  have front: "take (Suc (length rest)) ?b = rest @ [0x80]"
    using assms by (simp add: take_Suc_conv_app_nth)
  have zero: "sha256_zero_upto 56 (ctx\<lparr>ctx_buffer := ?b, ctx_buffer_len := Suc (length rest)\<rparr>) =
    ctx\<lparr>ctx_buffer := ?f @ drop 56 ?b, ctx_buffer_len := 56\<rparr>"
    using assms front by (subst sha256_zero_upto_eq) simp_all
  have copy: "memcpy_at (?f @ drop 56 ?b) 56 (store_be64 n) = ?f @ store_be64 n" for n
    using assms by (intro memcpy_at_append) simp_all
  show ?thesis
    using assms zero copy [of "ctx_bit_count ctx"] by (simp add: sha256_final_def Let_def)
qed

lemma sha256_final_long:
  assumes "length (ctx_buffer ctx) = 64" and "ctx_buffer_len ctx = length rest"
    and "take (length rest) (ctx_buffer ctx) = rest" and "56 \<le> length rest" "length rest < 64"
  shows "fst (sha256_final ctx) = concat (map store_be32 (sha256_compress
           (sha256_compress (ctx_h ctx) (rest @ 0x80 # replicate (63 - length rest) 0))
           (replicate 56 0 @ store_be64 (ctx_bit_count ctx))))"
proof -
  let ?b = "(ctx_buffer ctx)[length rest := 0x80]"
  let ?z = "rest @ 0x80 # replicate (63 - length rest) 0"
  have front: "take (Suc (length rest)) ?b = rest @ [0x80]"
    using assms by (simp add: take_Suc_conv_app_nth)
  have first: "sha256_zero_upto 64 (ctx\<lparr>ctx_buffer := ?b, ctx_buffer_len := Suc (length rest)\<rparr>) =
    ctx\<lparr>ctx_buffer := ?z, ctx_buffer_len := 64\<rparr>"
    using assms front by (subst sha256_zero_upto_eq) simp_all
  have second: "sha256_zero_upto 56 (ctx\<lparr>ctx_buffer := ?z, ctx_h := hh, ctx_buffer_len := 0\<rparr>) =
    ctx\<lparr>ctx_buffer := replicate 56 0 @ drop 56 ?z, ctx_h := hh, ctx_buffer_len := 56\<rparr>" for hh
    using assms by (subst sha256_zero_upto_eq) simp_all
  have copy: "memcpy_at (replicate 56 0 @ drop 56 ?z) 56 (store_be64 n) = replicate 56 0 @ store_be64 n" for n
    using assms by (intro memcpy_at_append) simp_all
  show ?thesis
    using assms first second copy [of "ctx_bit_count ctx"] by (simp add: sha256_final_def Let_def)
qed

lemma sha256_final_absorbed:
  assumes "sha256_absorbed ctx m"
  shows "fst (sha256_final ctx) = sha256_spec m"
proof -
  from assms have bits: "ctx_bit_count ctx = of_nat (length m) * 8" and "sha256_buffered ctx m"
    by (simp_all add: sha256_absorbed_def)
  from this(2) obtain full rest where m: "m = full @ rest" "length full mod 64 = 0"
    "length rest < 64" "ctx_h ctx = sha256_blocks sha256_iv full" "length (ctx_buffer ctx) = 64"
    "ctx_buffer_len ctx = length rest" "take (length rest) (ctx_buffer ctx) = rest"
    by (rule sha256_bufferedE)
  have modm: "length m mod 64 = length rest" using m by (simp add: mod_add_eq [symmetric])
  show ?thesis
  proof (cases "length rest < 56")
    case True
    let ?last = "rest @ 0x80 # replicate (55 - length rest) 0 @ store_be64 (of_nat (length m) * 8)"
    have "(119 - length rest) mod 64 = 55 - length rest"
      using True by (simp add: le_mod_geq)
    then have "sha256_pad m = full @ ?last"
      unfolding sha256_pad_def modm using m by simp
    moreover have "length ?last = 64" using True by simp
    ultimately show ?thesis
      unfolding sha256_spec_def using sha256_final_short [OF m(5-7) True] bits
      by (simp only: sha256_blocks_append [OF m(2)] sha256_blocks_one sha256_compress_eq_fips m(4))
  next
    case False
    let ?first = "rest @ 0x80 # replicate (63 - length rest) 0"
    let ?last = "replicate 56 0 @ store_be64 (of_nat (length m) * 8)"
    have "(119 - length rest) mod 64 = (63 - length rest) + 56"
      using False m(3) by simp
    then have "replicate ((119 - length rest) mod 64) 0 =
        replicate (63 - length rest) (0 :: u8) @ replicate 56 0"
      by (simp only: replicate_add)
    then have "sha256_pad m = full @ ?first @ ?last"
      unfolding sha256_pad_def modm using m by simp
    moreover have len: "length ?first = 64" "length ?last = 64" using False m(3) by simp_all
    moreover have "length ?first mod 64 = 0" by (simp only: len) simp
    ultimately show ?thesis
      unfolding sha256_spec_def using sha256_final_long [OF m(5-7) _ m(3)] False bits
      by (simp only: sha256_blocks_append [OF m(2)] sha256_blocks_append sha256_blocks_one
          sha256_compress_eq_fips m(4) not_less)
  qed
qed

lemma sha256_zero_upto_buffer [simp]: "length (ctx_buffer (sha256_zero_upto lim ctx)) = length (ctx_buffer ctx)"
  by (induction lim ctx rule: sha256_zero_upto.induct) (subst sha256_zero_upto.simps, simp)

lemma sha256_final_buffer:
  assumes "sha256_absorbed ctx m"
  shows "length (ctx_buffer (snd (sha256_final ctx))) = 64"
proof -
  from assms have "length (ctx_buffer ctx) = 64"
    by (auto simp: sha256_absorbed_def elim: sha256_bufferedE)
  then show ?thesis by (simp add: sha256_final_def Let_def)
qed

interpretation sha: stream_hash sha256_update "fst \<circ> sha256_final" sha256_absorbed sha256_spec
  by unfold_locales (simp_all add: sha256_update_absorbed sha256_final_absorbed)

lemma sha256_ctx_uninit_buffer [simp]: "length (ctx_buffer sha256_ctx_uninit) = 64"
  by (simp add: sha256_ctx_uninit_def)

text \<open>The registers of a mining job: chaining value after block 0, and the words of block 1.\<close>

lemma map_nth_upt: "length xs = n \<Longrightarrow> map (\<lambda>i. xs ! i) [0..<n] = xs"
  using map_nth [of xs] by simp

lemma bitcoin_header_midstate_eq:
  assumes "64 \<le> length hdr"
  shows "bitcoin_header_midstate hdr = fips_compress sha256_iv (take 64 hdr)"
proof -
  let ?ctx = "sha256_update (sha256_init sha256_ctx_uninit) (take 64 hdr)"
  have "sha256_absorbed ?ctx ([] @ take 64 hdr)"
    by (intro sha256_update_absorbed sha256_init_absorbed) simp
  then have "sha256_buffered ?ctx (take 64 hdr)"
    by (simp add: sha256_absorbed_def)
  then obtain full rest where m: "take 64 hdr = full @ rest" "length full mod 64 = 0"
    "length rest < 64" "ctx_h ?ctx = sha256_blocks sha256_iv full"
    by (rule sha256_bufferedE)
  from m(1) assms have "length full + length rest = 64"
    by (metis length_append length_take min.absorb2)
  with m(2,3) have full: "length full = 64" by presburger
  with m(1) assms have "full = take 64 hdr"
    by (metis append_eq_conv_conj append_take_drop_id take_append take_take min.idem)
  with full m(4) have "ctx_h ?ctx = fips_compress sha256_iv (take 64 hdr)"
    by (simp add: sha256_blocks_one)
  then show ?thesis
    by (simp add: bitcoin_header_midstate_def Let_def map_nth_upt del: upt_rec_numeral)
qed

lemma concat_tail_words:
  assumes "length hdr = 80"
  shows "concat (map store_be32 (bitcoin_header_tail_words hdr)) = drop 64 hdr"
proof -
  have word: "store_be32 (load_be32 (drop k hdr)) = take 4 (drop k hdr)" if "k + 4 \<le> 80" for k
    using store_load_be32 [of "take 4 (drop k hdr)"] that assms by (simp add: load_be32_take)
  have cut: "take 4 (drop k hdr) @ drop (k + 4) hdr = drop k hdr" for k
    by (metis add.commute append_take_drop_id drop_drop)
  show ?thesis
    using cut [of 64] cut [of 68] cut [of 72] cut [of 76] assms
    by (simp add: bitcoin_header_tail_words_def upt_4 word)
qed

section \<open>Properties\<close>

text \<open>
  C1. Whatever stale data a context's 64-byte buffer holds, and however the caller cuts the message
  into \<open>sha256_update\<close> calls, \<open>sha256_init\<close>, the updates and \<open>sha256_final\<close> produce the FIPS 180-4
  digest of the whole message (for every length: the 64-bit length field wraps as the code's does).
\<close>

theorem sha256_streaming_correct:
  assumes "length (ctx_buffer c) = 64"
  shows "fst (sha256_final (foldl sha256_update (sha256_init c) chunks)) = sha256_spec (concat chunks)"
  using sha.finish_foldl [OF sha256_init_absorbed [OF assms]] by simp

theorem sha256_streaming_correct_witness:
  "length (ctx_buffer sha256_ctx_uninit) = 64 \<and>
   sha256_spec (concat [ascii ''a'', ascii ''bc'']) =
     [0xba, 0x78, 0x16, 0xbf, 0x8f, 0x01, 0xcf, 0xea, 0x41, 0x41, 0x40, 0xde, 0x5d, 0xae, 0x22, 0x23,
      0xb0, 0x03, 0x61, 0xa3, 0x96, 0x17, 0x7a, 0x9c, 0xb4, 0x10, 0xff, 0x61, 0xf2, 0x00, 0x15, 0xad]"
proof
  have "fst (sha256_final (foldl sha256_update (sha256_init sha256_ctx_uninit) [ascii ''a'', ascii ''bc''])) =
     [0xba, 0x78, 0x16, 0xbf, 0x8f, 0x01, 0xcf, 0xea, 0x41, 0x41, 0x40, 0xde, 0x5d, 0xae, 0x22, 0x23,
      0xb0, 0x03, 0x61, 0xa3, 0x96, 0x17, 0x7a, 0x9c, 0xb4, 0x10, 0xff, 0x61, 0xf2, 0x00, 0x15, 0xad]"
    by code_simp
  then show "sha256_spec (concat [ascii ''a'', ascii ''bc'']) = \<dots>"
    by (simp only: sha256_streaming_correct [OF sha256_ctx_uninit_buffer])
qed simp

text \<open>
  C2. The 64 rounds over the array \<open>w[64]\<close>, with the shift-and-or rotations of \<open>rotr32\<close>, compute the
  FIPS 180-4 compression function, written with the recursive schedule and the library's rotation.
\<close>

theorem sha256_compress_correct: "sha256_compress state block = fips_compress state block"
  by (rule sha256_compress_eq_fips)

text \<open>
  C3. A mining job carries everything the hash needs: the SHA-256 of an 80-byte block header is one
  compression from the job's midstate over a block made of the four tail words and fixed padding
  (message length 640 bits). Only the last tail word, the nonce, varies during a scan.
\<close>

theorem header_hash_from_midstate:
  assumes "length header80 = 80"
  shows "sha256_spec header80 =
    concat (map store_be32 (sha256_compress (bitcoin_header_midstate header80)
      (concat (map store_be32 (bitcoin_header_tail_words header80))
        @ 0x80 # replicate 39 0 @ store_be64 640)))"
proof -
  let ?tail = "drop 64 header80 @ 0x80 # replicate 39 0 @ store_be64 640"
  have "sha256_pad header80 = take 64 header80 @ ?tail"
    using assms by (simp add: sha256_pad_def)
  moreover have "length (take 64 header80) mod 64 = 0" "length (take 64 header80) = 64" "length ?tail = 64"
    using assms by simp_all
  ultimately show ?thesis
    using assms by (simp only: sha256_spec_def sha256_blocks_append sha256_blocks_one
        sha256_compress_eq_fips bitcoin_header_midstate_eq concat_tail_words)
qed

theorem header_hash_from_midstate_witness:
  "length (replicate 80 (7 :: u8)) = 80 \<and>
   sha256_spec (replicate 80 7) =
     concat (map store_be32 (sha256_compress (bitcoin_header_midstate (replicate 80 7))
       (concat (map store_be32 [0x07070707, 0x07070707, 0x07070707, 0x07070707])
         @ 0x80 # replicate 39 0 @ store_be64 640)))"
proof
  have "bitcoin_header_tail_words (replicate 80 7) = [0x07070707, 0x07070707, 0x07070707, 0x07070707]"
    by (simp add: bitcoin_header_tail_words_def upt_4 load_be32_def)
  then show "sha256_spec (replicate 80 7) =
     concat (map store_be32 (sha256_compress (bitcoin_header_midstate (replicate 80 7))
       (concat (map store_be32 [0x07070707, 0x07070707, 0x07070707, 0x07070707])
         @ 0x80 # replicate 39 0 @ store_be64 640)))"
    using header_hash_from_midstate [of "replicate 80 7"] by (simp only: length_replicate)
qed simp

end
