(* ===== verification/Big_Arith.thy ===== *)
theory Big_Arith
  imports Prelude
begin

text \<open>
  The fixed-size big-number arithmetic of \<^verbatim>\<open>software/common/bitcoin.c\<close> (\<open>typedef uint32_t big[32]\<close>,
  least significant limb first): multiplication by ten with an added digit, comparison,
  subtraction, and the shift-and-subtract division of \<open>bitcoin_target\<close>. \<open>big_val\<close> is the number a
  limb list denotes; the lemmas read every operation on it.
\<close>

unbundle bit_operations_syntax

section \<open>Definitions\<close>

type_synonym big = "u32 list"

primrec multiply10_loop :: "u32 list \<Rightarrow> u64 \<Rightarrow> u32 list \<times> u64" where
  "multiply10_loop [] carry = ([], carry)"
| "multiply10_loop (x # xs) carry =
     (let c = carry + ucast x * 10; (ys, c') = multiply10_loop xs (drop_bit 32 c)
      in (ucast c # ys, c'))"

text \<open>
  \<open>multiply10\<close> returns -1 on a carry out of the array. Its callers then give up at once, so the
  overwritten array is not part of that result.
\<close>

definition multiply10 :: "big \<Rightarrow> u32 \<Rightarrow> big option" where
  "multiply10 a add =
     (let (a', carry) = multiply10_loop a (ucast add) in if carry \<noteq> 0 then None else Some a')"

primrec compare_from :: "nat \<Rightarrow> big \<Rightarrow> big \<Rightarrow> int" where
  "compare_from 0 a b = 0"
| "compare_from (Suc i) a b =
     (if a ! i \<noteq> b ! i then (if a ! i > b ! i then 1 else -1) else compare_from i a b)"

definition big_compare :: "big \<Rightarrow> big \<Rightarrow> int" where
  "big_compare a b = compare_from 32 a b"

fun subtract_loop :: "u32 list \<Rightarrow> u32 list \<Rightarrow> u64 \<Rightarrow> u32 list" where
  "subtract_loop (x # xs) (y # ys) borrow =
     (let sub = ucast y + borrow
      in (x - ucast sub) # subtract_loop xs ys (if ucast x < sub then 1 else 0))"
| "subtract_loop xs ys borrow = xs"

definition big_subtract :: "big \<Rightarrow> big \<Rightarrow> big" where
  "big_subtract a b = subtract_loop a b 0"

primrec shift_in :: "u32 list \<Rightarrow> u32 \<Rightarrow> u32 list" where
  "shift_in [] carry = []"
| "shift_in (x # xs) carry = (push_bit 1 x OR carry) # shift_in xs (drop_bit 31 x)"

text \<open>One iteration of the division loop of \<open>bitcoin_target\<close>, on (remainder, out, overflow).\<close>

definition divide_step :: "big \<Rightarrow> big \<Rightarrow> nat \<Rightarrow> big \<times> u32 list \<times> bool \<Rightarrow> big \<times> u32 list \<times> bool" where
  "divide_step numerator denominator b = (\<lambda>(remainder, out, overflow).
     (let carry = drop_bit (b mod 32) (numerator ! (b div 32)) AND 1;
          remainder = shift_in remainder carry
      in if big_compare remainder denominator \<ge> 0
         then (big_subtract remainder denominator,
               (if b \<ge> 256 then out
                else out[7 - b div 32 := out ! (7 - b div 32) OR push_bit (b mod 32) 1]),
               (if b \<ge> 256 then True else overflow))
         else (remainder, out, overflow)))"

definition divide_loop :: "big \<Rightarrow> big \<Rightarrow> big \<times> u32 list \<times> bool" where
  "divide_loop numerator denominator =
     fold (divide_step numerator denominator) (rev [0..<1024]) (replicate 32 0, replicate 8 0, False)"

section \<open>The number a limb list denotes\<close>

primrec big_val :: "u32 list \<Rightarrow> nat" where
  "big_val [] = 0"
| "big_val (x # xs) = unat x + 2 ^ 32 * big_val xs"

lemma big_val_less: "big_val xs < 2 ^ (32 * length xs)"
proof (induction xs)
  case (Cons x xs)
  have "unat x + 2 ^ 32 * big_val xs < 2 ^ 32 * Suc (big_val xs)"
    using unat_u32_less [of x] by simp
  also have "\<dots> \<le> 2 ^ 32 * 2 ^ (32 * length xs)"
    using Cons by (intro mult_left_mono) simp_all
  finally show ?case by (simp add: power_add)
qed simp

lemma big_val_inj: "length xs = length ys \<Longrightarrow> big_val xs = big_val ys \<Longrightarrow> xs = ys"
proof (induction xs ys rule: list_induct2)
  case (Cons x xs y ys)
  have "unat x = big_val (x # xs) mod 2 ^ 32" "unat y = big_val (y # ys) mod 2 ^ 32"
    "big_val xs = big_val (x # xs) div 2 ^ 32" "big_val ys = big_val (y # ys) div 2 ^ 32"
    using unat_u32_less [of x] unat_u32_less [of y] by simp_all
  with Cons show ?case by (metis word_unat_eq_iff)
qed simp

lemma big_val_replicate0 [simp]: "big_val (replicate n 0) = 0"
  by (induction n) auto

lemma big_val_append: "big_val (xs @ ys) = big_val xs + 2 ^ (32 * length xs) * big_val ys"
  by (induction xs) (simp_all add: algebra_simps power_add)

lemma length_multiply10_loop: "length (fst (multiply10_loop xs c)) = length xs"
proof (induction xs arbitrary: c)
  case (Cons x xs)
  from Cons.IH [of "drop_bit 32 (c + ucast x * 10)"] show ?case
    by (simp add: Let_def case_prod_beta)
qed simp

lemma multiply10_limb:
  fixes x :: u32 and c :: u64
  assumes "unat c < 2 ^ 36"
  defines "s \<equiv> c + ucast x * 10"
  shows "unat (ucast s :: u32) + 2 ^ 32 * unat (drop_bit 32 s) = unat c + 10 * unat x"
    and "unat (drop_bit 32 s) < 2 ^ 36"
proof -
  have bound: "unat c + 10 * unat x < 2 ^ 37" using assms(1) unat_u32_less [of x] by simp
  then have s: "unat s = unat c + 10 * unat x"
    using unat_u32_less [of x] by (simp add: s_def unat_word_ariths unat_ucast_mod)
  have "unat (ucast s :: u32) + 2 ^ 32 * unat (drop_bit 32 s) = unat s mod 2 ^ 32 + 2 ^ 32 * (unat s div 2 ^ 32)"
    unfolding unat_drop_bit_div by (simp add: unat_ucast_mod)
  then show "unat (ucast s :: u32) + 2 ^ 32 * unat (drop_bit 32 s) = unat c + 10 * unat x"
    using s by simp
  show "unat (drop_bit 32 s) < 2 ^ 36" using bound s by (simp add: unat_drop_bit_div)
qed

lemma multiply10_loop_val:
  assumes "unat c < 2 ^ 36"
  shows "10 * big_val xs + unat c =
    big_val (fst (multiply10_loop xs c)) + 2 ^ (32 * length xs) * unat (snd (multiply10_loop xs c))"
  using assms
proof (induction xs arbitrary: c)
  case (Cons x xs)
  define s where "s = c + ucast x * (10 :: u64)"
  obtain zs d where rec: "multiply10_loop xs (drop_bit 32 s) = (zs, d)" by fastforce
  have unfold: "multiply10_loop (x # xs) c = (ucast s # zs, d)"
    by (simp add: s_def [symmetric] Let_def rec)
  note limb = multiply10_limb [OF Cons.prems, of x, folded s_def]
  have "2 ^ 32 * (10 * big_val xs + unat (drop_bit 32 s)) = 2 ^ 32 * (big_val zs + 2 ^ (32 * length xs) * unat d)"
    using Cons.IH [OF limb(2)] rec by simp
  with limb(1) show ?case unfolding unfold by (simp add: algebra_simps power_add)
qed simp

lemma unat_digit: "unat (ucast (d :: u32) :: u64) = unat d" "unat (ucast d :: u64) < 2 ^ 36"
  using unat_u32_less [of d] by (simp_all add: unat_ucast_mod)

lemma multiply10_Some:
  assumes "multiply10 a d = Some a'"
  shows "big_val a' = 10 * big_val a + unat d" and "length a' = length a"
proof -
  from assms have loop: "multiply10_loop a (ucast d) = (a', 0)"
    by (auto simp: multiply10_def split: prod.splits if_splits)
  from multiply10_loop_val [OF unat_digit(2) [of d], of a] loop
  show "big_val a' = 10 * big_val a + unat d" by (simp add: unat_digit)
  from length_multiply10_loop [of a "ucast d"] loop show "length a' = length a" by simp
qed

lemma multiply10_None:
  assumes "multiply10 a d = None"
  shows "2 ^ (32 * length a) \<le> 10 * big_val a + unat d"
proof -
  obtain a' c where loop: "multiply10_loop a (ucast d) = (a', c)" by fastforce
  with assms have "c \<noteq> 0" by (auto simp: multiply10_def)
  then have c: "1 \<le> unat c" by (simp add: unat_gt_0 Suc_leI)
  have "10 * big_val a + unat d = big_val a' + 2 ^ (32 * length a) * unat c"
    using multiply10_loop_val [OF unat_digit(2) [of d], of a] loop by (simp add: unat_digit)
  moreover have "2 ^ (32 * length a) \<le> 2 ^ (32 * length a) * unat c"
    using c by simp
  ultimately show ?thesis by linarith
qed

lemma big_val_take_Suc:
  "i < length a \<Longrightarrow> big_val (take (Suc i) a) = big_val (take i a) + 2 ^ (32 * i) * unat (a ! i)"
  by (simp add: take_Suc_conv_app_nth big_val_append)

lemma compare_from_val:
  assumes "i \<le> length a" and "i \<le> length b"
  shows "compare_from i a b = sgn (int (big_val (take i a)) - int (big_val (take i b)))"
  using assms
proof (induction i)
  case (Suc i)
  have lt: "big_val (take i c) < 2 ^ (32 * i)" if "i < length c" for c :: "u32 list"
    using big_val_less [of "take i c"] that by simp
  have dominate: "big_val (take i c) + 2 ^ (32 * i) * p < big_val (take i d) + 2 ^ (32 * i) * q"
    if "p < q" "i < length c" for c d :: "u32 list" and p q :: nat
  proof -
    have "big_val (take i c) + 2 ^ (32 * i) * p < 2 ^ (32 * i) * Suc p"
      using lt [OF that(2)] by simp
    also have "\<dots> \<le> 2 ^ (32 * i) * q" using that(1) by (intro mult_left_mono) simp_all
    finally show ?thesis by simp
  qed
  show ?case
  proof (cases "a ! i" "b ! i" rule: linorder_cases)
    case less
    then have "unat (a ! i) < unat (b ! i)" by (simp add: word_less_nat_alt)
    from dominate [OF this, of a b] Suc.prems
    have "big_val (take (Suc i) a) < big_val (take (Suc i) b)" by (simp add: big_val_take_Suc)
    with less show ?thesis by (auto simp: sgn_if)
  next
    case equal
    with Suc show ?thesis by (simp add: big_val_take_Suc)
  next
    case greater
    then have "unat (b ! i) < unat (a ! i)" by (simp add: word_less_nat_alt)
    from dominate [OF this, of b a] Suc.prems
    have "big_val (take (Suc i) b) < big_val (take (Suc i) a)" by (simp add: big_val_take_Suc)
    with greater show ?thesis by (auto simp: sgn_if)
  qed
qed simp

lemma big_compare_ge:
  "length a = 32 \<Longrightarrow> length b = 32 \<Longrightarrow> big_compare a b \<ge> 0 \<longleftrightarrow> big_val b \<le> big_val a"
  by (simp add: big_compare_def compare_from_val sgn_if)

lemma length_subtract_loop [simp]: "length (subtract_loop xs ys c) = length xs"
  by (induction xs ys c rule: subtract_loop.induct) (auto simp: Let_def)

lemma subtract_limb:
  fixes x y :: u32 and c :: u64
  assumes "unat c \<le> 1"
  defines "sub \<equiv> ucast y + c"
  shows "unat x + 2 ^ 32 * of_bool (ucast x < sub) = unat (x - ucast sub) + unat y + unat c"
proof -
  have sub: "unat sub = unat y + unat c"
    using assms(1) unat_u32_less [of y] by (simp add: sub_def unat_word_ariths unat_ucast_mod)
  have "ucast x < sub \<longleftrightarrow> unat x < unat y + unat c"
    using unat_u32_less [of x] sub by (simp add: word_less_nat_alt unat_ucast_mod)
  moreover have "unat (ucast sub :: u32) = (unat y + unat c) mod 2 ^ 32"
    by (simp add: unat_ucast_mod sub)
  ultimately show ?thesis
    using assms(1) unat_u32_less [of x] unat_u32_less [of y]
    by (cases "unat y + unat c = 2 ^ 32") (auto simp: unat_sub_if')
qed

lemma subtract_loop_val:
  assumes "length xs = length ys" and "unat c \<le> 1"
  shows "\<exists>bo \<le> 1. big_val xs + 2 ^ (32 * length xs) * bo = big_val (subtract_loop xs ys c) + big_val ys + unat c"
  using assms
proof (induction xs ys arbitrary: c rule: list_induct2)
  case (Cons x xs y ys)
  define d :: u64 where "d = (if ucast x < ucast y + c then 1 else 0)"
  have d: "unat d = of_bool (ucast x < ucast y + c)" "unat d \<le> 1" by (simp_all add: d_def)
  from Cons.IH [OF d(2)] obtain bo where bo: "bo \<le> 1"
    "big_val xs + 2 ^ (32 * length xs) * bo = big_val (subtract_loop xs ys d) + big_val ys + unat d" by blast
  have "2 ^ 32 * (big_val xs + 2 ^ (32 * length xs) * bo) =
      2 ^ 32 * (big_val (subtract_loop xs ys d) + big_val ys + unat d)" by (simp only: bo(2))
  moreover have "unat x + 2 ^ 32 * unat d = unat (x - ucast (ucast y + c)) + unat y + unat c"
    unfolding d(1) by (rule subtract_limb [OF Cons.prems])
  moreover have "subtract_loop (x # xs) (y # ys) c = (x - ucast (ucast y + c)) # subtract_loop xs ys d"
    by (simp add: Let_def d_def)
  ultimately have "big_val (x # xs) + 2 ^ (32 * length (x # xs)) * bo =
      big_val (subtract_loop (x # xs) (y # ys) c) + big_val (y # ys) + unat c"
    by (simp add: algebra_simps power_add del: subtract_loop.simps)
  with bo(1) show ?case by blast
qed simp

lemma big_subtract_val:
  assumes "length a = length b" and "big_val b \<le> big_val a"
  shows "big_val (big_subtract a b) = big_val a - big_val b"
proof -
  obtain bo where bo: "bo \<le> 1"
    "big_val a + 2 ^ (32 * length a) * bo = big_val (big_subtract a b) + big_val b"
    using subtract_loop_val [OF assms(1), of 0] by (auto simp: big_subtract_def)
  have "bo = 0"
  proof (rule ccontr)
    assume "bo \<noteq> 0"
    with bo have "big_val a + 2 ^ (32 * length a) = big_val (big_subtract a b) + big_val b"
      by (cases "bo = 1") simp_all
    with assms(2) big_val_less [of "big_subtract a b"] show False
      by (simp add: big_subtract_def)
  qed
  with bo assms(2) show ?thesis by simp
qed

lemma length_shift_in [simp]: "length (shift_in xs c) = length xs"
  by (induction xs arbitrary: c) auto

lemma shift_limb:
  fixes x c :: u32
  assumes "unat c \<le> 1"
  shows "unat (push_bit 1 x OR c) + 2 ^ 32 * (unat x div 2 ^ 31) = 2 * unat x + unat c"
proof -
  have p: "unat (push_bit 1 x) = (2 * unat x) mod 2 ^ 32" by (simp add: unat_word_ariths mult.commute)
  have split: "2 * unat x = (2 * unat x) mod 2 ^ 32 + 2 ^ 32 * (unat x div 2 ^ 31)"
    using div_mult_mult1 [of 2 "unat x" "2 ^ 31"] mod_mult_div_eq [of "2 * unat x" "2 ^ 32"] by simp
  consider "c = 0" | "c = 1"
    using assms by (metis One_nat_def le_Suc_eq le_zero_eq unat_eq_zero unat_1 word_unat_eq_iff)
  then show ?thesis
  proof cases
    case 1
    with p split show ?thesis by simp
  next
    case 2
    have "even (unat (push_bit 1 x))" unfolding p by (rule dvd_mod) simp_all
    then obtain m where m: "unat (push_bit 1 x) = 2 * m" by (rule evenE)
    have "2 * m < 2 ^ 32" unfolding m [symmetric] p by simp
    then have "unat (push_bit 1 x) + 1 < 2 ^ 32" unfolding m by simp
    then have "unat (push_bit 1 x + 1) = unat (push_bit 1 x) + 1"
      by (simp add: unat_word_ariths)
    moreover have "push_bit 1 x OR 1 = push_bit 1 x + 1" by (simp add: or_one_eq)
    ultimately show ?thesis using 2 p split by simp
  qed
qed

lemma shift_in_val:
  assumes "unat c \<le> 1"
  shows "\<exists>t. 2 * big_val xs + unat c = big_val (shift_in xs c) + 2 ^ (32 * length xs) * t"
  using assms
proof (induction xs arbitrary: c)
  case (Cons x xs)
  have d: "unat (drop_bit 31 x) = unat x div 2 ^ 31" by (rule unat_drop_bit_div)
  have "unat (drop_bit 31 x) \<le> 1" using unat_u32_less [of x] unfolding d by simp
  from Cons.IH [OF this] obtain t where
    t: "2 * big_val xs + unat x div 2 ^ 31 = big_val (shift_in xs (drop_bit 31 x)) + 2 ^ (32 * length xs) * t"
    unfolding d by blast
  then have "2 ^ 32 * (2 * big_val xs + unat x div 2 ^ 31) =
      2 ^ 32 * (big_val (shift_in xs (drop_bit 31 x)) + 2 ^ (32 * length xs) * t)" by (simp only:)
  with shift_limb [OF Cons.prems, of x]
  have "2 * big_val (x # xs) + unat c = big_val (shift_in (x # xs) c) + 2 ^ (32 * length (x # xs)) * t"
    by (simp add: algebra_simps power_add)
  then show ?case by blast
qed auto

lemma shift_in_exact:
  assumes "unat c \<le> 1" and "2 * big_val xs + unat c < 2 ^ (32 * length xs)"
  shows "big_val (shift_in xs c) = 2 * big_val xs + unat c"
proof -
  obtain t where t: "2 * big_val xs + unat c = big_val (shift_in xs c) + 2 ^ (32 * length xs) * t"
    using shift_in_val [OF assms(1)] by blast
  with assms(2) have "t = 0" by (cases t) auto
  with t show ?thesis by simp
qed

lemma bit_big_val:
  "bit (big_val xs) j \<longleftrightarrow> j < 32 * length xs \<and> bit (xs ! (j div 32)) (j mod 32)"
proof (induction xs arbitrary: j)
  case (Cons x xs)
  have "take_bit 32 (unat x) + push_bit 32 (big_val xs) = take_bit 32 (unat x) OR push_bit 32 (big_val xs)"
    by (rule disjunctive_add) (auto simp: bit_take_bit_iff bit_push_bit_iff)
  moreover have "big_val (x # xs) = take_bit 32 (unat x) + push_bit 32 (big_val xs)"
    using unat_u32_less [of x] by (simp add: take_bit_eq_mod push_bit_eq_mult)
  ultimately have "big_val (x # xs) = take_bit 32 (unat x) OR push_bit 32 (big_val xs)" by simp
  then have "bit (big_val (x # xs)) j \<longleftrightarrow> (j < 32 \<and> bit x j) \<or> (32 \<le> j \<and> bit (big_val xs) (j - 32))"
    by (auto simp: bit_simps)
  then show ?case
    by (cases "j < 32") (auto simp: Cons.IH le_div_geq le_mod_geq)
qed simp

section \<open>Division\<close>

text \<open>
  The quotient the loop computes bit by bit. After the bits from \<open>k\<close> upwards are processed, the
  remainder register holds \<open>(N div 2^k) mod D\<close>, \<open>out\<close> the quotient's bits in \<open>[k, 256)\<close> (most
  significant word first) and \<open>overflow\<close> whether a quotient bit at or above 256 was set.
\<close>

definition divide_inv :: "nat \<Rightarrow> nat \<Rightarrow> nat \<Rightarrow> big \<times> u32 list \<times> bool \<Rightarrow> bool" where
  "divide_inv N D k = (\<lambda>(r, out, overflow).
     length r = 32 \<and> length out = 8 \<and> big_val r = (N div 2 ^ k) mod D \<and>
     (\<forall>j < 256. bit (out ! (7 - j div 32)) (j mod 32) \<longleftrightarrow> k \<le> j \<and> bit (N div D) j) \<and>
     (overflow \<longleftrightarrow> (\<exists>j \<ge> 256. k \<le> j \<and> bit (N div D) j)))"

lemma quotient_bit:
  fixes N D :: nat
  shows "bit (N div D) k \<longleftrightarrow> odd (N div 2 ^ k div D)"
  by (simp add: bit_iff_odd div_mult2_eq [symmetric] mult.commute)

lemma quotient_step:
  fixes N D k :: nat
  assumes "0 < D"
  defines "r \<equiv> 2 * ((N div 2 ^ Suc k) mod D) + of_bool (bit N k)"
  shows "(N div 2 ^ k) mod D = (if D \<le> r then r - D else r)"
    and "bit (N div D) k \<longleftrightarrow> D \<le> r" and "r < 2 * D"
proof -
  define X where "X = N div 2 ^ Suc k"
  define c :: nat where "c = of_bool (bit N k)"
  have c: "c \<le> 1" by (simp add: c_def)
  have "N div 2 ^ k = 2 * (N div 2 ^ k div 2) + N div 2 ^ k mod 2" by simp
  also have "N div 2 ^ k div 2 = X" unfolding X_def power_Suc2 by (rule div_mult2_eq [symmetric])
  also have "N div 2 ^ k mod 2 = c" by (simp add: c_def bit_iff_odd mod_2_eq_odd)
  finally have top: "N div 2 ^ k = 2 * X + c" .
  have r: "r = 2 * (X mod D) + c" by (simp add: r_def X_def c_def)
  have lt: "X mod D < D" using assms(1) by simp
  then show less: "r < 2 * D" using r c by linarith
  have "2 * X = D * (2 * (X div D)) + 2 * (X mod D)"
    using mult_div_mod_eq [of D X] by (metis distrib_left mult.left_commute)
  then have eq: "N div 2 ^ k = D * (2 * (X div D)) + r" by (simp only: top r add.assoc)
  show "(N div 2 ^ k) mod D = (if D \<le> r then r - D else r)"
    using less by (simp add: eq le_mod_geq)
  have "N div 2 ^ k div D = 2 * (X div D) + r div D" using assms(1) by (simp add: eq)
  moreover have "r div D = of_bool (D \<le> r)" using less assms(1) by (simp add: le_div_geq)
  ultimately show "bit (N div D) k \<longleftrightarrow> D \<le> r" by (simp add: quotient_bit)
qed

lemma carry_bit:
  assumes "length num = 32" and "k < 1024"
  shows "unat (drop_bit (k mod 32) (num ! (k div 32)) AND 1 :: u32) = of_bool (bit (big_val num) k)"
proof -
  have "unat (x AND 1 :: u32) = of_bool (odd x)" for x by (simp add: and_one_eq mod_2_eq_odd)
  then show ?thesis
    using assms by (simp add: bit_big_val flip: bit_iff_odd_drop_bit)
qed

lemma out_bit:
  fixes out :: "u32 list"
  assumes "length out = 8" and "k < 256" and "j < 256"
  shows "bit ((out[7 - k div 32 := out ! (7 - k div 32) OR push_bit (k mod 32) 1]) ! (7 - j div 32)) (j mod 32)
    \<longleftrightarrow> j = k \<or> bit (out ! (7 - j div 32)) (j mod 32)"
proof (cases "k div 32 = j div 32")
  case True
  then have "j mod 32 = k mod 32 \<longleftrightarrow> j = k" by (metis div_mod_decomp)
  moreover have "bit (push_bit (k mod 32) 1 :: u32) (j mod 32) \<longleftrightarrow> j mod 32 = k mod 32"
    by (auto simp: bit_simps)
  ultimately show ?thesis using True assms by (auto simp: bit_or_iff)
next
  case False
  then have "7 - k div 32 \<noteq> 7 - j div 32" using assms by (auto simp: eq_diff_iff less_mult_imp_div_less)
  with False show ?thesis by auto
qed

lemma divide_step_inv:
  assumes len: "length num = 32" "length den = 32" and D: "0 < big_val den" "2 * big_val den \<le> 2 ^ (32 * length den)"
    and k: "k < 1024" and inv: "divide_inv (big_val num) (big_val den) (Suc k) st"
  shows "divide_inv (big_val num) (big_val den) k (divide_step num den k st)"
proof -
  obtain r out ov where st: "st = (r, out, ov)" by (cases st)
  let ?N = "big_val num" and ?D = "big_val den"
  define c where "c = drop_bit (k mod 32) (num ! (k div 32)) AND (1 :: u32)"
  define r' where "r' = shift_in r c"
  from inv have I: "length r = 32" "length out = 8" "big_val r = (?N div 2 ^ Suc k) mod ?D"
    "\<And>j. j < 256 \<Longrightarrow> bit (out ! (7 - j div 32)) (j mod 32) \<longleftrightarrow> Suc k \<le> j \<and> bit (?N div ?D) j"
    "ov \<longleftrightarrow> (\<exists>j \<ge> 256. Suc k \<le> j \<and> bit (?N div ?D) j)"
    by (simp_all add: divide_inv_def st del: power_Suc)
  have c: "unat c = of_bool (bit ?N k)" unfolding c_def by (rule carry_bit [OF len(1) k])
  note q = quotient_step [OF D(1), of ?N k, folded I(3) c]
  have r': "big_val r' = 2 * big_val r + unat c" "length r' = 32"
  proof -
    have "length r = length den" using I(1) len(2) by simp
    with q(3) D(2) have "2 * big_val r + unat c < 2 ^ (32 * length r)" by simp
    moreover have "unat c \<le> 1" by (simp add: c)
    ultimately show "big_val r' = 2 * big_val r + unat c" unfolding r'_def by (intro shift_in_exact)
  qed (simp add: r'_def I(1))
  have ge: "big_compare r' den \<ge> 0 \<longleftrightarrow> ?D \<le> big_val r'" by (rule big_compare_ge [OF r'(2) len(2)])
  have split: "k \<le> j \<longleftrightarrow> Suc k \<le> j \<or> j = k" for j by auto
  have step: "divide_step num den k st =
      (if ?D \<le> big_val r'
       then (big_subtract r' den,
             (if k \<ge> 256 then out else out[7 - k div 32 := out ! (7 - k div 32) OR push_bit (k mod 32) 1]),
             (if k \<ge> 256 then True else ov))
       else (r', out, ov))"
    unfolding st divide_step_def by (simp add: Let_def c_def [symmetric] r'_def [symmetric] ge)
  show ?thesis
  proof (cases "?D \<le> big_val r'")
    case True
    then have bit: "bit (?N div ?D) k" using q(2) r'(1) by simp
    have rem: "big_val (big_subtract r' den) = (?N div 2 ^ k) mod ?D" "length (big_subtract r' den) = 32"
      using big_subtract_val [OF _ True] q(1) r' len(2) True by (simp_all add: big_subtract_def)
    have ov: "(if k \<ge> 256 then True else ov) \<longleftrightarrow> (\<exists>j \<ge> 256. k \<le> j \<and> bit (?N div ?D) j)"
      using bit by (auto simp: I(5) split)
    define out' where "out' = (if k \<ge> 256 then out
      else out[7 - k div 32 := out ! (7 - k div 32) OR push_bit (k mod 32) 1])"
    have "bit (out' ! (7 - j div 32)) (j mod 32) \<longleftrightarrow> k \<le> j \<and> bit (?N div ?D) j" if "j < 256" for j
    proof (cases "k < 256")
      case True
      then show ?thesis using out_bit [OF I(2) True that] I(4) [OF that] bit
        by (auto simp: out'_def split)
    qed (use that I(4) [OF that] in \<open>simp add: out'_def\<close>)
    moreover have "length out' = 8" using I(2) by (simp add: out'_def)
    ultimately show ?thesis
      unfolding step divide_inv_def if_P [OF True] prod.case ov [symmetric] out'_def [symmetric]
      using rem by simp
  next
    case False
    then have bit: "\<not> bit (?N div ?D) k" and rem: "big_val r' = (?N div 2 ^ k) mod ?D"
      using q(1,2) r'(1) by simp_all
    have ov: "ov \<longleftrightarrow> (\<exists>j \<ge> 256. k \<le> j \<and> bit (?N div ?D) j)"
      using bit by (auto simp: I(5) split)
    show ?thesis
      unfolding step divide_inv_def if_not_P [OF False] prod.case ov [symmetric]
      using rem r'(2) I(2,4) bit by (auto simp: split)
  qed
qed

lemma divide_loop_inv:
  assumes "length num = 32" "length den = 32" "0 < big_val den" "2 * big_val den \<le> 2 ^ (32 * length den)"
  shows "divide_inv (big_val num) (big_val den) 0 (divide_loop num den)"
proof -
  have "big_val num < 2 ^ (32 * length num)" by (rule big_val_less)
  also have "32 * length num = 1024" using assms(1) by simp
  finally have less: "big_val num < 2 ^ 1024" .
  then have zero: "big_val num div 2 ^ 1024 = 0" by (rule div_less)
  have high: "\<not> bit (big_val num div big_val den) j" if "1024 \<le> j" for j
  proof -
    have "(2 :: nat) ^ 1024 \<le> 2 ^ j" by (rule power_increasing [OF that]) simp
    with less have "big_val num < 2 ^ j" by (rule less_le_trans)
    then show ?thesis by (simp add: quotient_bit)
  qed
  have "divide_inv (big_val num) (big_val den) (1024 - n)
      (fold (divide_step num den) (rev [1024 - n..<1024]) (replicate 32 0, replicate 8 0, False))"
    if "n \<le> 1024" for n
    using that
  proof (induction n)
    case 0
    have "\<not> bit (replicate 8 (0 :: u32) ! (7 - j div 32)) (j mod 32)" for j by (simp add: nth_replicate)
    then show ?case
      unfolding divide_inv_def diff_zero zero using high by (auto simp: not_le)
  next
    case (Suc n)
    define k where "k = 1024 - Suc n"
    have k: "Suc k = 1024 - n" "k < 1024" using Suc.prems by (auto simp: k_def)
    have "[k..<1024] = k # [Suc k..<1024]" using k(2) by (simp only: upt_conv_Cons)
    then have "rev [k..<1024] = rev [1024 - n..<1024] @ [k]" by (simp only: rev.simps k(1))
    moreover from Suc have "divide_inv (big_val num) (big_val den) (Suc k)
        (fold (divide_step num den) (rev [1024 - n..<1024]) (replicate 32 0, replicate 8 0, False))"
      unfolding k(1) by simp
    ultimately show ?case
      unfolding k_def [symmetric]
      using divide_step_inv [OF assms k(2)] by (simp only: fold_append comp_apply fold_simps)
  qed
  from this [of 1024] show ?thesis by (simp only: divide_loop_def order_refl diff_self_eq_0)
qed

lemma divide_loop_val:
  assumes "length num = 32" "length den = 32" "0 < big_val den" "2 * big_val den \<le> 2 ^ (32 * length den)"
    and "divide_loop num den = (r, out, overflow)"
  shows "big_val (rev out) = (big_val num div big_val den) mod 2 ^ 256"
    and "overflow \<longleftrightarrow> 2 ^ 256 \<le> big_val num div big_val den"
    and "length out = 8"
proof -
  let ?Q = "big_val num div big_val den"
  from divide_loop_inv [OF assms(1-4)] assms(5) have I: "length out = 8"
    "\<And>j. j < 256 \<Longrightarrow> bit (out ! (7 - j div 32)) (j mod 32) \<longleftrightarrow> bit ?Q j"
    "overflow \<longleftrightarrow> (\<exists>j \<ge> 256. bit ?Q j)"
    by (simp_all add: divide_inv_def)
  show "length out = 8" by (rule I(1))
  have "bit (big_val (rev out)) j \<longleftrightarrow> bit (take_bit 256 ?Q) j" for j
  proof (cases "j < 256")
    case True
    then have "rev out ! (j div 32) = out ! (7 - j div 32)" using I(1) by (simp add: rev_nth)
    with True I show ?thesis by (simp add: bit_big_val bit_take_bit_iff)
  qed (simp add: bit_big_val bit_take_bit_iff I(1))
  then show "big_val (rev out) = ?Q mod 2 ^ 256"
    unfolding take_bit_eq_mod [symmetric] by (intro bit_eqI) simp
  show "overflow \<longleftrightarrow> 2 ^ 256 \<le> ?Q"
  proof -
    have "take_bit 256 ?Q = ?Q \<longleftrightarrow> \<not> (\<exists>j \<ge> 256. bit ?Q j)"
      unfolding bit_eq_iff [of "take_bit 256 ?Q"] bit_take_bit_iff by (auto simp: not_le)
    moreover have "take_bit 256 ?Q = ?Q \<longleftrightarrow> ?Q < 2 ^ 256" by (rule take_bit_nat_eq_self_iff)
    ultimately show ?thesis using I(3) linorder_not_le [of "2 ^ 256" ?Q] by blast
  qed
qed

end
