(* ===== verification/Target.thy ===== *)
theory Target
  imports Complex_Main Big_Arith
begin

text \<open>
  \<open>bitcoin_target\<close> of \<^verbatim>\<open>software/common/bitcoin.c\<close>: the conversion of a pool's decimal difficulty
  into the 256-bit share target, floor(difficulty-one target / D), with exact integer arithmetic.
  The reference side is the grammar of decimal texts (\<open>decimal\<close>) with the rational number they
  denote. A returned -1 is \<open>None\<close>: every failing exit of the code comes before its first write to
  \<open>out\<close>.
\<close>

unbundle bit_operations_syntax

section \<open>The parser and the conversion\<close>

record target_parse =
  tp_denominator :: big
  tp_digits :: nat
  tp_fractional :: nat
  tp_point :: bool
  tp_nonzero :: bool

definition target_parse_init :: target_parse where
  "target_parse_init = \<lparr>tp_denominator = replicate 32 0, tp_digits = 0, tp_fractional = 0,
     tp_point = False, tp_nonzero = False\<rparr>"

definition target_digit :: "u8 \<Rightarrow> target_parse \<Rightarrow> target_parse option" where
  "target_digit c st =
     (case multiply10 (tp_denominator st) (ucast (c - 0x30)) of
        None \<Rightarrow> None
      | Some d \<Rightarrow> Some (st\<lparr>tp_denominator := d, tp_digits := tp_digits st + 1,
          tp_fractional := (if tp_point st then tp_fractional st + 1 else tp_fractional st),
          tp_nonzero := (tp_nonzero st \<or> c \<noteq> 0x30)\<rparr>))"

text \<open>The mantissa loop; it stops before an \<open>e\<close> or \<open>E\<close> and returns the unread rest.\<close>

fun target_mantissa :: "bytes \<Rightarrow> target_parse \<Rightarrow> (target_parse \<times> bytes) option" where
  "target_mantissa [] st = Some (st, [])"
| "target_mantissa (c # cs) st =
     (if c = 0x65 \<or> c = 0x45 then Some (st, c # cs)
      else if c = 0x2E
      then (if tp_point st \<or> tp_digits st = 0 then None else target_mantissa cs (st\<lparr>tp_point := True\<rparr>))
      else if c < 0x30 \<or> c > 0x39 \<or> tp_digits st + 1 > 64 then None
      else (case target_digit c st of None \<Rightarrow> None | Some st' \<Rightarrow> target_mantissa cs st'))"

fun target_exponent :: "bytes \<Rightarrow> nat \<Rightarrow> nat option" where
  "target_exponent [] e = Some e"
| "target_exponent (c # cs) e =
     (if c < 0x30 \<or> c > 0x39 \<or> e > 128 then None
      else target_exponent cs (e * 10 + unat (c - 0x30)))"

definition target_sign :: "bytes \<Rightarrow> bool \<times> bytes" where
  "target_sign r = (case r of [] \<Rightarrow> (False, [])
     | c # cs \<Rightarrow> if c = 0x2B \<or> c = 0x2D then (c = 0x2D, cs) else (False, c # cs))"

definition target_exp_part :: "bytes \<Rightarrow> int option" where
  "target_exp_part rest =
     (case rest of
        [] \<Rightarrow> Some 0
      | _ # r \<Rightarrow>
          (let (negative, ds) = target_sign r
           in if ds = [] then None
              else (case target_exponent ds 0 of
                      None \<Rightarrow> None
                    | Some e \<Rightarrow> Some (if negative then - int e else int e))))"

primrec scale10 :: "nat \<Rightarrow> big \<Rightarrow> big option" where
  "scale10 0 a = Some a"
| "scale10 (Suc n) a = (case multiply10 a 0 of None \<Rightarrow> None | Some a' \<Rightarrow> scale10 n a')"

definition target_numerator :: big where
  "target_numerator = (replicate 32 0)[6 := 0xffff0000]"

definition bitcoin_target :: "bytes \<Rightarrow> u32 list option" where
  "bitcoin_target s =
     (if s = [] \<or> length s > 80 then None
      else case target_mantissa s target_parse_init of
        None \<Rightarrow> None
      | Some (st, rest) \<Rightarrow>
          if \<not> tp_nonzero st \<or> (tp_point st \<and> tp_fractional st = 0) then None
          else case target_exp_part rest of
            None \<Rightarrow> None
          | Some e \<Rightarrow>
              let exponent = e - int (tp_fractional st)
              in if exponent > 128 \<or> exponent < -128 then None
                 else case scale10 (nat exponent) (tp_denominator st) of
                   None \<Rightarrow> None
                 | Some denominator \<Rightarrow>
                     (case scale10 (nat (- exponent)) target_numerator of
                        None \<Rightarrow> None
                      | Some numerator \<Rightarrow>
                          let (_, out, overflow) = divide_loop numerator denominator
                          in Some (if overflow then replicate 8 0xffffffff else out)))"

section \<open>Decimal texts and their value\<close>

definition is_digit :: "u8 \<Rightarrow> bool" where
  "is_digit c \<longleftrightarrow> 0x30 \<le> c \<and> c \<le> 0x39"

definition digit_val :: "u8 \<Rightarrow> nat" where
  "digit_val c = unat (c - 0x30)"

definition digits_val :: "bytes \<Rightarrow> nat" where
  "digits_val ds = foldl (\<lambda>v c. 10 * v + digit_val c) 0 ds"

text \<open>
  \<open>decimal_exp r e\<close>: the optional exponent part \<open>r\<close> denotes \<open>e\<close>. \<open>decimal s n m e\<close>: the text \<open>s\<close> has
  \<open>n\<close> mantissa digits and denotes \<open>m * 10^e\<close>.
\<close>

inductive decimal_exp :: "bytes \<Rightarrow> int \<Rightarrow> bool" where
  absent: "decimal_exp [] 0"
| unsigned: "c = 0x65 \<or> c = 0x45 \<Longrightarrow> ds \<noteq> [] \<Longrightarrow> list_all is_digit ds \<Longrightarrow>
    decimal_exp (c # ds) (int (digits_val ds))"
| positive: "c = 0x65 \<or> c = 0x45 \<Longrightarrow> ds \<noteq> [] \<Longrightarrow> list_all is_digit ds \<Longrightarrow>
    decimal_exp (c # 0x2B # ds) (int (digits_val ds))"
| negative: "c = 0x65 \<or> c = 0x45 \<Longrightarrow> ds \<noteq> [] \<Longrightarrow> list_all is_digit ds \<Longrightarrow>
    decimal_exp (c # 0x2D # ds) (- int (digits_val ds))"

inductive decimal :: "bytes \<Rightarrow> nat \<Rightarrow> nat \<Rightarrow> int \<Rightarrow> bool" where
  whole: "ip \<noteq> [] \<Longrightarrow> list_all is_digit ip \<Longrightarrow> decimal_exp r e \<Longrightarrow>
    decimal (ip @ r) (length ip) (digits_val ip) e"
| point: "ip \<noteq> [] \<Longrightarrow> fp \<noteq> [] \<Longrightarrow> list_all is_digit ip \<Longrightarrow> list_all is_digit fp \<Longrightarrow> decimal_exp r e \<Longrightarrow>
    decimal (ip @ 0x2E # fp @ r) (length ip + length fp) (digits_val (ip @ fp)) (e - int (length fp))"

text \<open>The exact share target of the difficulty \<open>m * 10^e\<close>, saturated to 256 bits.\<close>

definition share_target :: "nat \<Rightarrow> int \<Rightarrow> nat" where
  "share_target m e =
     min (nat \<lfloor>(65535 * 2 ^ 208 :: rat) / (of_nat m * 10 powi e)\<rfloor>) (2 ^ 256 - 1)"

section \<open>Parsing\<close>

lemma is_digit_alt: "is_digit c \<longleftrightarrow> \<not> (c < 0x30 \<or> c > 0x39)"
  by (auto simp: is_digit_def)

lemma digit_not_special [simp]:
  "is_digit c \<Longrightarrow> c \<noteq> 0x65" "is_digit c \<Longrightarrow> c \<noteq> 0x45" "is_digit c \<Longrightarrow> c \<noteq> 0x2E"
  "is_digit c \<Longrightarrow> c \<noteq> 0x2B" "is_digit c \<Longrightarrow> c \<noteq> 0x2D"
  by (auto simp: is_digit_def)

lemma digit_val_le: "is_digit c \<Longrightarrow> digit_val c \<le> 9"
  unfolding is_digit_def digit_val_def by unat_arith

lemma digit_val_eq_0: "is_digit c \<Longrightarrow> digit_val c = 0 \<longleftrightarrow> c = 0x30"
  unfolding is_digit_def digit_val_def by unat_arith

lemma unat_digit_u32: "unat (ucast (c - 0x30) :: u32) = digit_val c"
  using unat_u8_less [of "c - 0x30"] by (simp add: digit_val_def unat_ucast_mod)

lemma digits_val_foldl: "foldl (\<lambda>v c. 10 * v + digit_val c) v ds = v * 10 ^ length ds + digits_val ds"
proof (induction ds arbitrary: v)
  case (Cons c ds)
  from Cons [of "10 * v + digit_val c"] Cons [of "digit_val c"] show ?case
    by (simp add: digits_val_def algebra_simps)
qed (simp add: digits_val_def)

lemma digits_val_Nil [simp]: "digits_val [] = 0"
  by (simp add: digits_val_def)

lemma digits_val_Cons [simp]: "digits_val (c # ds) = digit_val c * 10 ^ length ds + digits_val ds"
  using digits_val_foldl [of "digit_val c" ds] by (simp add: digits_val_def)

lemma digits_val_append: "digits_val (a @ b) = digits_val a * 10 ^ length b + digits_val b"
  using digits_val_foldl [of "digits_val a" b] by (simp add: digits_val_def)

text \<open>The parser state: the denominator denotes the digits read so far.\<close>

definition parse_inv :: "target_parse \<Rightarrow> bool" where
  "parse_inv st \<longleftrightarrow> length (tp_denominator st) = 32 \<and> tp_digits st \<le> 64 \<and>
     big_val (tp_denominator st) < 10 ^ tp_digits st \<and>
     (tp_nonzero st \<longleftrightarrow> 0 < big_val (tp_denominator st))"

lemma parse_inv_init: "parse_inv target_parse_init"
  by (simp add: parse_inv_def target_parse_init_def del: replicate.simps)

lemma parse_inv_point [simp]: "parse_inv (st\<lparr>tp_point := p\<rparr>) = parse_inv st"
  by (simp add: parse_inv_def)

lemma target_digit_ok:
  assumes inv: "parse_inv st" and c: "is_digit c" and n: "tp_digits st < 64"
  obtains st' where "target_digit c st = Some st'" and "parse_inv st'"
    and "tp_digits st' = tp_digits st + 1" and "tp_point st' = tp_point st"
    and "tp_fractional st' = tp_fractional st + of_bool (tp_point st)"
    and "big_val (tp_denominator st') = 10 * big_val (tp_denominator st) + digit_val c"
proof -
  let ?v = "big_val (tp_denominator st)"
  have v: "?v < 10 ^ tp_digits st" and len: "length (tp_denominator st) = 32"
    using inv by (simp_all add: parse_inv_def)
  have new: "10 * ?v + digit_val c < 10 ^ (tp_digits st + 1)"
    using v digit_val_le [OF c] by simp
  also have "(10 :: nat) ^ (tp_digits st + 1) \<le> 10 ^ 64" using n by (intro power_increasing) simp_all
  also have "(10 :: nat) ^ 64 < 2 ^ (32 * 32)" by simp
  finally have "10 * ?v + unat (ucast (c - 0x30) :: u32) < 2 ^ (32 * length (tp_denominator st))"
    by (simp only: unat_digit_u32 len)
  then obtain d where d: "multiply10 (tp_denominator st) (ucast (c - 0x30)) = Some d"
    using multiply10_None by (metis leD not_None_eq)
  note val = multiply10_Some [OF d, unfolded unat_digit_u32]
  have nz: "tp_nonzero st \<or> c \<noteq> 0x30 \<longleftrightarrow> 0 < big_val d"
    using inv digit_val_eq_0 [OF c] by (auto simp: val parse_inv_def)
  define st' where "st' = st\<lparr>tp_denominator := d, tp_digits := tp_digits st + 1,
    tp_fractional := (if tp_point st then tp_fractional st + 1 else tp_fractional st),
    tp_nonzero := (tp_nonzero st \<or> c \<noteq> 0x30)\<rparr>"
  show ?thesis
  proof (rule that [of st'])
    show "target_digit c st = Some st'" by (simp add: target_digit_def d st'_def)
    show "parse_inv st'" using val nz new n len by (simp add: parse_inv_def st'_def)
  qed (simp_all add: st'_def val)
qed

lemma target_mantissa_digit:
  assumes "parse_inv st" and "is_digit c" and "target_digit c st = Some st'" and "tp_digits st < 64"
  shows "target_mantissa (c # cs) st = target_mantissa cs st'"
  using assms by (auto simp: is_digit_alt [of c])

text \<open>Completeness: a run of digits is read to its end.\<close>

lemma target_mantissa_digits:
  assumes "parse_inv st" and "list_all is_digit ds" and "tp_digits st + length ds \<le> 64"
  shows "\<exists>st'. target_mantissa (ds @ r) st = target_mantissa r st' \<and> parse_inv st' \<and>
    tp_digits st' = tp_digits st + length ds \<and> tp_point st' = tp_point st \<and>
    tp_fractional st' = tp_fractional st + (if tp_point st then length ds else 0) \<and>
    big_val (tp_denominator st') = big_val (tp_denominator st) * 10 ^ length ds + digits_val ds"
  using assms
proof (induction ds arbitrary: st)
  case (Cons c ds)
  then have c: "is_digit c" and n: "tp_digits st < 64" by simp_all
  from target_digit_ok [OF Cons.prems(1) c n] obtain st1 where st1: "target_digit c st = Some st1"
    "parse_inv st1" "tp_digits st1 = tp_digits st + 1" "tp_point st1 = tp_point st"
    "tp_fractional st1 = tp_fractional st + of_bool (tp_point st)"
    "big_val (tp_denominator st1) = 10 * big_val (tp_denominator st) + digit_val c" .
  have "target_mantissa ((c # ds) @ r) st = target_mantissa (ds @ r) st1"
    using target_mantissa_digit [OF Cons.prems(1) c st1(1) n] by simp
  with Cons.IH [OF st1(2)] Cons.prems st1 show ?case
    by (force simp: algebra_simps)
qed auto

text \<open>Soundness: what was read is a run of digits, with at most one point after a digit.\<close>

definition mantissa_end :: "bytes \<Rightarrow> bool" where
  "mantissa_end r \<longleftrightarrow> r = [] \<or> hd r = 0x65 \<or> hd r = 0x45"

lemma target_mantissa_end: "mantissa_end r \<Longrightarrow> target_mantissa r st = Some (st, r)"
  by (cases r) (auto simp: mantissa_end_def)

lemma target_mantissa_sound:
  assumes "parse_inv st" and "target_mantissa s st = Some (st', r)"
  shows "\<exists>ip fp. s = ip @ fp @ r \<and> mantissa_end r \<and> list_all is_digit ip \<and> tp_digits st + length ip \<le> 64 \<and>
    (fp = [] \<or> (\<exists>ds. fp = 0x2E # ds \<and> \<not> tp_point st \<and> tp_digits st + length ip \<noteq> 0 \<and> list_all is_digit ds
       \<and> tp_digits st + length ip + length ds \<le> 64))"
  using assms
proof (induction s st rule: target_mantissa.induct)
  case (1 st)
  then show ?case by (auto simp: mantissa_end_def parse_inv_def)
next
  case (2 c cs st)
  consider "c = 0x65 \<or> c = 0x45" | "c = 0x2E" | "is_digit c" "c \<noteq> 0x65" "c \<noteq> 0x45" "c \<noteq> 0x2E"
    using "2.prems"(2) by (auto simp: is_digit_alt split: if_splits)
  then show ?case
  proof cases
    case 1
    with "2.prems" show ?thesis
      by (intro exI [of _ "[]"]) (auto simp: mantissa_end_def parse_inv_def)
  next
    case 2
    with "2.prems" have *: "\<not> tp_point st" "tp_digits st \<noteq> 0"
      "target_mantissa cs (st\<lparr>tp_point := True\<rparr>) = Some (st', r)"
      by (auto split: if_splits)
    from "2.IH"(1) [OF _ 2] * 2 "2.prems"(1) obtain ds where
      "cs = ds @ r" "mantissa_end r" "list_all is_digit ds" "tp_digits st + length ds \<le> 64"
      by auto
    with 2 * "2.prems"(1) show ?thesis
      by (intro exI [of _ "[]"] exI [of _ "0x2E # ds"]) (auto simp: parse_inv_def)
  next
    case 3
    with "2.prems"(2) have n: "tp_digits st < 64" by (auto split: if_splits)
    from target_digit_ok [OF "2.prems"(1) 3(1) n] obtain st1 where
      st1: "target_digit c st = Some st1" "parse_inv st1" "tp_digits st1 = tp_digits st + 1"
        "tp_point st1 = tp_point st" .
    have rest: "target_mantissa cs st1 = Some (st', r)"
      using target_mantissa_digit [OF "2.prems"(1) 3(1) st1(1) n] "2.prems"(2) by simp
    have "\<not> (c = 0x65 \<or> c = 0x45)" "\<not> (c < 0x30 \<or> c > 0x39 \<or> tp_digits st + 1 > 64)"
      using 3 n by (auto simp: is_digit_alt)
    from "2.IH"(2) [OF this(1) 3(4) this(2) st1(1,2) rest] obtain ip fp where
      "cs = ip @ fp @ r" "mantissa_end r" "list_all is_digit ip" "tp_digits st1 + length ip \<le> 64"
      "fp = [] \<or> (\<exists>ds. fp = 0x2E # ds \<and> \<not> tp_point st1 \<and> tp_digits st1 + length ip \<noteq> 0 \<and>
         list_all is_digit ds \<and> tp_digits st1 + length ip + length ds \<le> 64)"
      by (elim exE conjE)
    with st1 3 show ?thesis
      by (intro exI [of _ "c # ip"] exI [of _ fp]) auto
  qed
qed

lemma target_exponent_sound:
  "target_exponent ds e = Some v \<Longrightarrow> list_all is_digit ds \<and> v = e * 10 ^ length ds + digits_val ds"
proof (induction ds arbitrary: e)
  case (Cons c ds)
  then have "is_digit c" and rest: "target_exponent ds (e * 10 + digit_val c) = Some v"
    by (auto simp: is_digit_alt digit_val_def split: if_splits)
  with Cons.IH [OF rest] show ?case by (simp add: algebra_simps)
qed simp

lemma target_exponent_complete:
  assumes "list_all is_digit ds" and "e * 10 ^ length ds + digits_val ds \<le> 1289"
  shows "target_exponent ds e = Some (e * 10 ^ length ds + digits_val ds)"
  using assms
proof (induction ds arbitrary: e)
  case (Cons c ds)
  have "e * 10 \<le> e * 10 ^ length (c # ds)" by simp
  with Cons.prems(2) have "\<not> e > 128" by linarith
  with Cons show ?case by (simp add: is_digit_alt digit_val_def algebra_simps)
qed simp

lemma target_exp_part_sound:
  assumes "mantissa_end r" and "target_exp_part r = Some e"
  shows "decimal_exp r e"
proof (cases r)
  case Nil
  with assms(2) show ?thesis by (simp add: target_exp_part_def decimal_exp.absent)
next
  case (Cons c rest)
  obtain neg ds where sgn: "target_sign rest = (neg, ds)" by fastforce
  with assms(2) Cons obtain v where v: "ds \<noteq> []" "target_exponent ds 0 = Some v"
    "e = (if neg then - int v else int v)"
    by (auto simp: target_exp_part_def split: if_splits option.splits)
  from target_exponent_sound [OF v(2)] have ds: "list_all is_digit ds" "v = digits_val ds" by simp_all
  have c: "c = 0x65 \<or> c = 0x45" using assms(1) Cons by (simp add: mantissa_end_def)
  show ?thesis
    using sgn v(1,3) ds Cons decimal_exp.intros(2-4) [OF c v(1) ds(1)]
    by (auto simp: target_sign_def split: list.splits if_splits)
qed

lemma target_exp_part_complete:
  assumes "decimal_exp r e" and "\<bar>e\<bar> \<le> 1289"
  shows "target_exp_part r = Some e \<and> mantissa_end r"
  using assms
proof cases
  case absent
  then show ?thesis by (simp add: target_exp_part_def mantissa_end_def)
next
  case (unsigned c ds)
  then have "target_sign ds = (False, ds)" by (auto simp: target_sign_def is_digit_def split: list.split)
  with unsigned assms(2) target_exponent_complete [OF unsigned(5), of 0] show ?thesis
    by (auto simp: target_exp_part_def mantissa_end_def)
next
  case (positive c ds)
  with assms(2) target_exponent_complete [OF positive(5), of 0] show ?thesis
    by (auto simp: target_exp_part_def target_sign_def mantissa_end_def)
next
  case (negative c ds)
  with assms(2) target_exponent_complete [OF negative(5), of 0] show ?thesis
    by (auto simp: target_exp_part_def target_sign_def mantissa_end_def)
qed

section \<open>Conversion\<close>

lemma scale10_ok:
  "big_val a * 10 ^ n < 2 ^ (32 * length a) \<Longrightarrow>
   \<exists>a'. scale10 n a = Some a' \<and> length a' = length a \<and> big_val a' = big_val a * 10 ^ n"
proof (induction n arbitrary: a)
  case (Suc n)
  have "10 * big_val a \<le> big_val a * 10 ^ Suc n" by simp
  with Suc.prems have "10 * big_val a + unat (0 :: u32) < 2 ^ (32 * length a)"
    unfolding unsigned_0 by linarith
  then obtain d where d: "multiply10 a 0 = Some d"
    using multiply10_None by (metis leD not_None_eq)
  note val = multiply10_Some [OF d]
  from Suc.prems have "big_val d * 10 ^ n < 2 ^ (32 * length d)" by (simp add: val ac_simps)
  from Suc.IH [OF this] d val show ?case by (auto simp: ac_simps)
qed simp

lemma target_numerator_val: "big_val target_numerator = 65535 * 2 ^ 208" "length target_numerator = 32"
proof -
  have eq: "target_numerator = replicate 6 0 @ [0xffff0000] @ replicate 25 0"
    by (simp add: target_numerator_def upd_conv_take_nth_drop)
  show "big_val target_numerator = 65535 * 2 ^ 208" unfolding eq big_val_append by simp
qed (simp add: target_numerator_def)

definition target_quotient :: "nat \<Rightarrow> int \<Rightarrow> nat" where
  "target_quotient m x = (65535 * 2 ^ 208 * 10 ^ nat (- x)) div (m * 10 ^ nat x)"

lemma share_target_quotient: "share_target m x = min (target_quotient m x) (2 ^ 256 - 1)"
proof -
  have frac: "(of_nat k :: rat) / (of_nat m * 10 powi x) =
      of_nat (k * 10 ^ nat (- x)) / of_nat (m * 10 ^ nat x)" for k :: nat
  proof (cases "0 \<le> x")
    case True
    then show ?thesis by (simp add: power_int_def)
  next
    case False
    then have "10 powi x = (1 / 10 ^ nat (- x) :: rat)"
      by (simp add: power_int_def inverse_eq_divide power_one_over)
    then show ?thesis using False by simp
  qed
  have "\<lfloor>(of_nat (65535 * 2 ^ 208) :: rat) / (of_nat m * 10 powi x)\<rfloor> = int (target_quotient m x)"
    by (simp only: frac floor_divide_of_nat_eq target_quotient_def)
  moreover have "(65535 * 2 ^ 208 :: rat) = of_nat (65535 * 2 ^ 208)" by simp
  ultimately show ?thesis unfolding share_target_def by (simp only: nat_int)
qed

text \<open>The arithmetic part, from the parsed mantissa and exponent to the eight target words.\<close>

definition target_words :: "big \<Rightarrow> big \<Rightarrow> u32 list" where
  "target_words numerator denominator =
     (case divide_loop numerator denominator of
        (_, out, overflow) \<Rightarrow> if overflow then replicate 8 0xffffffff else out)"

lemma big_val_all_ones: "big_val (replicate n 0xffffffff) = 2 ^ (32 * n) - 1"
proof (induction n)
  case (Suc n)
  have "(1 :: nat) \<le> 2 ^ (32 * n)" by simp
  with Suc show ?case by (simp add: power_add diff_mult_distrib2)
qed simp

lemma target_words_val:
  assumes "length num = 32" "length den = 32" "0 < big_val den" "2 * big_val den \<le> 2 ^ (32 * length den)"
  shows "length (target_words num den) = 8"
    and "big_val (rev (target_words num den)) = min (big_val num div big_val den) (2 ^ 256 - 1)"
proof -
  obtain r out overflow where loop: "divide_loop num den = (r, out, overflow)"
    by (cases "divide_loop num den")
  note val = divide_loop_val [OF assms loop]
  show "length (target_words num den) = 8" by (simp add: target_words_def loop val(3))
  show "big_val (rev (target_words num den)) = min (big_val num div big_val den) (2 ^ 256 - 1)"
  proof (cases overflow)
    case True
    have "big_val (rev (replicate 8 0xffffffff)) = 2 ^ 256 - 1"
      using big_val_all_ones [of 8] by (simp only: rev_replicate) simp
    moreover have "min (big_val num div big_val den) (2 ^ 256 - 1) = 2 ^ 256 - 1"
      using True val(2) by (intro min.absorb2) linarith
    ultimately show ?thesis using True by (simp only: target_words_def loop prod.case if_True)
  next
    case False
    then have less: "big_val num div big_val den < 2 ^ 256" using val(2) by (simp only: not_le)
    then have "big_val num div big_val den \<le> 2 ^ 256 - 1" by linarith
    with less have "(big_val num div big_val den) mod 2 ^ 256 = min (big_val num div big_val den) (2 ^ 256 - 1)"
      by (simp only: mod_less min.absorb1)
    with False val(1) show ?thesis by (simp only: target_words_def loop prod.case if_False)
  qed
qed

lemma target_convert:
  assumes den: "length den = 32" "0 < big_val den" "big_val den < 10 ^ 64" and x: "-128 \<le> x" "x \<le> 128"
  obtains d n where "scale10 (nat x) den = Some d" and "scale10 (nat (- x)) target_numerator = Some n"
    and "length (target_words n d) = 8" and "big_val (rev (target_words n d)) = share_target (big_val den) x"
proof -
  have pow: "(10 :: nat) ^ nat y \<le> 10 ^ 128" if "y \<le> 128" for y :: int
    using that by (intro power_increasing) simp_all
  have "big_val den * 10 ^ nat x < 10 ^ 64 * 10 ^ 128"
    using den(3) pow [OF x(2)] by (intro mult_less_le_imp_less) simp_all
  also have "(10 :: nat) ^ 64 * 10 ^ 128 < 2 ^ 1023" by simp
  finally have small: "big_val den * 10 ^ nat x < 2 ^ 1023" .
  have half: "(2 :: nat) ^ (32 * length den) = 2 * 2 ^ 1023" using den(1) by simp
  from scale10_ok [of den "nat x"] small half obtain d where
    d: "scale10 (nat x) den = Some d" "length d = length den" "big_val d = big_val den * 10 ^ nat x" by auto
  have "big_val target_numerator * 10 ^ nat (- x) \<le> 65535 * 2 ^ 208 * 10 ^ 128"
    unfolding target_numerator_val using pow [of "- x"] x(1) by (intro mult_left_mono) simp_all
  also have "(65535 * 2 ^ 208 * 10 ^ 128 :: nat) < 2 ^ (32 * 32)" by simp
  finally obtain n where n: "scale10 (nat (- x)) target_numerator = Some n" "length n = 32"
    "big_val n = 65535 * 2 ^ 208 * 10 ^ nat (- x)"
    using scale10_ok [of target_numerator "nat (- x)"] by (auto simp only: target_numerator_val)
  have "0 < big_val d" using den(2) by (simp add: d)
  moreover have "2 * big_val d \<le> 2 ^ (32 * length d)" using small half by (simp only: d)
  ultimately have "length (target_words n d) = 8"
    "big_val (rev (target_words n d)) = min (big_val n div big_val d) (2 ^ 256 - 1)"
    using target_words_val [OF n(2), of d] d(2) den(1) by simp_all
  moreover have "big_val n div big_val d = target_quotient (big_val den) x"
    by (simp only: n(3) d(3) target_quotient_def)
  ultimately show ?thesis using that [OF d(1) n(1)] by (simp only: share_target_quotient)
qed

lemma bitcoin_target_words:
  assumes "s \<noteq> []" "length s \<le> 80" "target_mantissa s target_parse_init = Some (st, rest)"
    and "tp_nonzero st" "tp_point st \<longrightarrow> tp_fractional st \<noteq> 0" "target_exp_part rest = Some e"
    and "x = e - int (tp_fractional st)" "-128 \<le> x" "x \<le> 128"
    and "scale10 (nat x) (tp_denominator st) = Some d" "scale10 (nat (- x)) target_numerator = Some n"
  shows "bitcoin_target s = Some (target_words n d)"
  using assms by (auto simp: bitcoin_target_def target_words_def Let_def split: prod.split)

text \<open>The mantissa loop on a whole decimal text.\<close>

lemma target_mantissa_whole:
  assumes "list_all is_digit ip" "length ip \<le> 64" "mantissa_end r"
  shows "\<exists>st. target_mantissa (ip @ r) target_parse_init = Some (st, r) \<and> parse_inv st \<and> tp_digits st = length ip \<and>
    \<not> tp_point st \<and> tp_fractional st = 0 \<and> big_val (tp_denominator st) = digits_val ip"
  using target_mantissa_digits [OF parse_inv_init assms(1), of r] assms(2,3)
  by (auto simp: target_parse_init_def target_mantissa_end)

lemma target_mantissa_point:
  assumes "ip \<noteq> []" "list_all is_digit ip" "list_all is_digit fp" "length ip + length fp \<le> 64" "mantissa_end r"
  shows "\<exists>st. target_mantissa (ip @ 0x2E # fp @ r) target_parse_init = Some (st, r) \<and> parse_inv st \<and>
    tp_digits st = length ip + length fp \<and> tp_point st \<and> tp_fractional st = length fp \<and>
    big_val (tp_denominator st) = digits_val (ip @ fp)"
proof -
  from target_mantissa_digits [OF parse_inv_init assms(2), of "0x2E # fp @ r"] assms(4) obtain st1 where
    st1: "target_mantissa (ip @ 0x2E # fp @ r) target_parse_init = target_mantissa (0x2E # fp @ r) st1"
    "parse_inv st1" "tp_digits st1 = length ip" "\<not> tp_point st1" "tp_fractional st1 = 0"
    "big_val (tp_denominator st1) = digits_val ip"
    by (auto simp: target_parse_init_def)
  have "target_mantissa (0x2E # fp @ r) st1 = target_mantissa (fp @ r) (st1\<lparr>tp_point := True\<rparr>)"
    using st1 assms(1) by simp
  moreover from target_mantissa_digits [of "st1\<lparr>tp_point := True\<rparr>" fp r] st1 assms(3,4) obtain st2 where
    "target_mantissa (fp @ r) (st1\<lparr>tp_point := True\<rparr>) = target_mantissa r st2" "parse_inv st2"
    "tp_digits st2 = length ip + length fp" "tp_point st2" "tp_fractional st2 = length fp"
    "big_val (tp_denominator st2) = digits_val ip * 10 ^ length fp + digits_val fp"
    by auto
  ultimately show ?thesis
    using st1(1) target_mantissa_end [OF assms(5)] by (auto simp: digits_val_append)
qed

lemma bitcoin_target_value:
  assumes mant: "s \<noteq> []" "length s \<le> 80" "target_mantissa s target_parse_init = Some (st, r)" "parse_inv st"
    and ok: "tp_point st \<longrightarrow> tp_fractional st \<noteq> 0" "0 < big_val (tp_denominator st)"
    and ex: "target_exp_part r = Some e" "x = e - int (tp_fractional st)" "-128 \<le> x" "x \<le> 128"
  shows "\<exists>out. bitcoin_target s = Some out \<and> length out = 8 \<and>
    big_val (rev out) = share_target (big_val (tp_denominator st)) x"
proof -
  from mant(4) have "length (tp_denominator st) = 32" "tp_nonzero st \<longleftrightarrow> 0 < big_val (tp_denominator st)"
    and lt: "big_val (tp_denominator st) < 10 ^ tp_digits st" "tp_digits st \<le> 64"
    by (simp_all add: parse_inv_def)
  note lt(1)
  also have "(10 :: nat) ^ tp_digits st \<le> 10 ^ 64" using lt(2) by (intro power_increasing) simp_all
  finally have "big_val (tp_denominator st) < 10 ^ 64" .
  from target_convert [OF \<open>length (tp_denominator st) = 32\<close> ok(2) this ex(3,4)] obtain d n where dn:
    "scale10 (nat x) (tp_denominator st) = Some d" "scale10 (nat (- x)) target_numerator = Some n"
    "length (target_words n d) = 8" "big_val (rev (target_words n d)) = share_target (big_val (tp_denominator st)) x" .
  have "tp_nonzero st" using ok(2) \<open>tp_nonzero st \<longleftrightarrow> _\<close> by simp
  from bitcoin_target_words [OF mant(1-3) this ok(1) ex dn(1,2)] dn(3,4) show ?thesis by blast
qed

lemma bitcoin_target_complete:
  assumes "decimal s n m x" and "length s \<le> 80" "n \<le> 64" "0 < m" "-128 \<le> x" "x \<le> 128"
  shows "\<exists>out. bitcoin_target s = Some out \<and> length out = 8 \<and> big_val (rev out) = share_target m x"
  using assms(1)
proof cases
  case (whole ip r)
  from target_exp_part_complete [OF whole(6)] assms(5,6) have r: "target_exp_part r = Some x" "mantissa_end r"
    by simp_all
  from target_mantissa_whole [OF whole(5) _ r(2)] whole assms(3) obtain st where
    "target_mantissa s target_parse_init = Some (st, r)" "parse_inv st" "\<not> tp_point st"
    "tp_fractional st = 0" "big_val (tp_denominator st) = m" by auto
  with bitcoin_target_value [of s st r x x] whole assms r show ?thesis by auto
next
  case (point ip fp r e)
  have "length fp \<le> 64" using point assms(3) by simp
  with target_exp_part_complete [OF point(9)] point assms(5,6)
  have r: "target_exp_part r = Some e" "mantissa_end r" by simp_all
  from target_mantissa_point [OF point(5,7,8) _ r(2)] point assms(3) obtain st where
    "target_mantissa s target_parse_init = Some (st, r)" "parse_inv st" "tp_point st"
    "tp_fractional st = length fp" "big_val (tp_denominator st) = m" by auto
  with bitcoin_target_value [of s st r e x] point assms r show ?thesis by auto
qed

lemma bitcoin_target_sound:
  assumes "bitcoin_target s = Some out"
  shows "length s \<le> 80 \<and> (\<exists>n m x. decimal s n m x \<and> n \<le> 64 \<and> 0 < m \<and> -128 \<le> x \<and> x \<le> 128)"
proof -
  from assms obtain st r e where st: "s \<noteq> []" "length s \<le> 80"
    "target_mantissa s target_parse_init = Some (st, r)" "tp_nonzero st"
    "tp_point st \<longrightarrow> tp_fractional st \<noteq> 0" "target_exp_part r = Some e"
    "-128 \<le> e - int (tp_fractional st)" "e - int (tp_fractional st) \<le> 128"
    by (auto simp: bitcoin_target_def Let_def split: if_splits option.splits prod.splits)
  from target_mantissa_sound [OF parse_inv_init st(3)] obtain ip fp where s: "s = ip @ fp @ r"
    "mantissa_end r" "list_all is_digit ip" "length ip \<le> 64"
    "fp = [] \<or> (\<exists>ds. fp = 0x2E # ds \<and> ip \<noteq> [] \<and> list_all is_digit ds \<and> length ip + length ds \<le> 64)"
    by (auto simp: target_parse_init_def)
  have r: "decimal_exp r e" by (rule target_exp_part_sound [OF s(2) st(6)])
  from s(5) show ?thesis
  proof
    assume "fp = []"
    with target_mantissa_whole [OF s(3,4,2)] s(1) st(3) have v: "parse_inv st" "tp_fractional st = 0"
      "big_val (tp_denominator st) = digits_val ip" by auto
    with st(4) have "0 < digits_val ip" by (simp add: parse_inv_def)
    moreover from this have "ip \<noteq> []" by auto
    ultimately show ?thesis
      using decimal.whole [OF _ s(3) r] s(1,4) st(2,7,8) v \<open>fp = []\<close> by auto
  next
    assume "\<exists>ds. fp = 0x2E # ds \<and> ip \<noteq> [] \<and> list_all is_digit ds \<and> length ip + length ds \<le> 64"
    then obtain ds where ds: "fp = 0x2E # ds" "ip \<noteq> []" "list_all is_digit ds" "length ip + length ds \<le> 64"
      by blast
    with target_mantissa_point [OF ds(2) s(3) ds(3,4) s(2)] s(1) st(3) have v: "parse_inv st" "tp_point st"
      "tp_fractional st = length ds" "big_val (tp_denominator st) = digits_val (ip @ ds)" by auto
    with st(4,5) have "0 < digits_val (ip @ ds)" "ds \<noteq> []" by (auto simp: parse_inv_def)
    with decimal.point [OF ds(2) _ s(3) ds(3) r] s(1) st(2,7,8) v ds show ?thesis by auto
  qed
qed

section \<open>Properties\<close>

text \<open>
  C4. \<open>bitcoin_target\<close> accepts exactly the decimal texts of at most 80 characters and 64 mantissa
  digits that denote a positive number \<open>m * 10^x\<close> with \<open>-128 \<le> x \<le> 128\<close>, and for each it returns the eight
  words (most significant first) of the exact floor of the difficulty-one target divided by that
  number, saturated to 256 bits: no rounding, no overflow of the 1024-bit intermediates.
\<close>

theorem bitcoin_target_exact:
  "bitcoin_target s = Some out \<longleftrightarrow>
     length s \<le> 80 \<and> length out = 8 \<and>
     (\<exists>n m x. decimal s n m x \<and> n \<le> 64 \<and> 0 < m \<and> -128 \<le> x \<and> x \<le> 128 \<and>
        big_val (rev out) = share_target m x)"
proof
  assume *: "bitcoin_target s = Some out"
  from bitcoin_target_sound [OF *] obtain n m x where
    "length s \<le> 80" "decimal s n m x" "n \<le> 64" "0 < m" "-128 \<le> x" "x \<le> 128" by blast
  with bitcoin_target_complete [of s n m x] * show "length s \<le> 80 \<and> length out = 8 \<and>
     (\<exists>n m x. decimal s n m x \<and> n \<le> 64 \<and> 0 < m \<and> -128 \<le> x \<and> x \<le> 128 \<and>
        big_val (rev out) = share_target m x)" by auto
next
  assume *: "length s \<le> 80 \<and> length out = 8 \<and>
     (\<exists>n m x. decimal s n m x \<and> n \<le> 64 \<and> 0 < m \<and> -128 \<le> x \<and> x \<le> 128 \<and>
        big_val (rev out) = share_target m x)"
  then obtain n m x out' where "bitcoin_target s = Some out'" "length out' = 8"
    "big_val (rev out') = share_target m x" "big_val (rev out) = share_target m x"
    using bitcoin_target_complete by blast
  moreover from this * have "rev out' = rev out" by (intro big_val_inj) simp_all
  ultimately show "bitcoin_target s = Some out" by simp
qed

end
