(* ===== verification/Bitcoin.thy ===== *)
theory Bitcoin
  imports Sha256 Target
begin

text \<open>
  The rest of \<open>common/bitcoin.c\<close>: hexadecimal text, double SHA-256, the byte swap and the assembly
  of the 80-byte block header from a Stratum job. Output buffers are passed in and returned, so
  that partial writes before an error, and the bytes an operation leaves alone, are visible. The
  hash calls are discharged through the interpretation \<open>sha\<close> of the streaming-hash interface.
\<close>

section \<open>The code\<close>

definition hex_digit :: "u8 \<Rightarrow> u8 option" where
  "hex_digit c =
     (if 0x30 \<le> c \<and> c \<le> 0x39 then Some (c - 0x30)
      else if 0x61 \<le> c \<and> c \<le> 0x66 then Some (c - 0x61 + 10)
      else if 0x41 \<le> c \<and> c \<le> 0x46 then Some (c - 0x41 + 10)
      else None)"

text \<open>The loop from index \<open>i\<close> on, over the characters that are left; \<open>False\<close> is the \<open>-1\<close> return.\<close>

fun hex_loop :: "bytes \<Rightarrow> nat \<Rightarrow> bytes \<Rightarrow> bool \<times> bytes" where
  "hex_loop [] i out = (True, out)"
| "hex_loop (c # s) i out =
     (case hex_digit c of
        None \<Rightarrow> (False, out)
      | Some v \<Rightarrow> hex_loop s (i + 1)
          (if even i then out[i div 2 := push_bit 4 v] else out[i div 2 := out ! (i div 2) OR v]))"

definition hex_decode :: "bytes \<Rightarrow> bytes \<Rightarrow> nat \<Rightarrow> nat option \<times> bytes" where
  "hex_decode s out cap =
     (if length s mod 2 \<noteq> 0 \<or> cap < length s div 2 then (None, out)
      else case hex_loop s 0 out of
        (ok, out') \<Rightarrow> (if ok then Some (length s div 2) else None, out'))"

definition hex_chars :: bytes where
  "hex_chars = ascii ''0123456789abcdef''"

definition hex_encode :: "bytes \<Rightarrow> bytes \<Rightarrow> bytes" where
  "hex_encode bs out =
     (fold (\<lambda>i out. out[i * 2 := hex_chars ! unat (drop_bit 4 (bs ! i)),
                        i * 2 + 1 := hex_chars ! unat (bs ! i AND 15)]) [0..<length bs] out)
       [2 * length bs := 0]"

definition sha256d :: "bytes \<Rightarrow> bytes" where
  "sha256d bs =
     (let (out, c) = sha256_final (sha256_update (sha256_init sha256_ctx_uninit) bs)
      in fst (sha256_final (sha256_update (sha256_init c) out)))"

definition bitcoin_swap32 :: "u32 \<Rightarrow> u32" where
  "bitcoin_swap32 x = push_bit 24 x OR (push_bit 8 x AND 0xff0000) OR (drop_bit 8 x AND 0xff00) OR drop_bit 24 x"

definition merkle_step :: "bytes \<Rightarrow> bytes \<Rightarrow> bytes" where
  "merkle_step rt branch =
     (let pair = memcpy_at (replicate 64 0) 0 rt; pair = memcpy_at pair 32 branch in sha256d pair)"

definition bitcoin_build_header ::
  "bytes \<Rightarrow> bytes \<Rightarrow> bytes \<Rightarrow> bytes \<Rightarrow> bytes \<Rightarrow> bytes \<Rightarrow> bytes \<Rightarrow> bytes \<Rightarrow> bytes list \<Rightarrow> bytes \<Rightarrow> bytes" where
  "bitcoin_build_header version prev bits time coin1 extra1 extra2 coin2 branches header =
     (let ctx = sha256_update (sha256_update (sha256_update (sha256_update
                  (sha256_init sha256_ctx_uninit) coin1) extra1) extra2) coin2;
          (rt, ctx) = sha256_final ctx;
          rt = fst (sha256_final (sha256_update (sha256_init ctx) rt));
          rt = foldl merkle_step rt branches;
          header = fold (\<lambda>i h. h[i := version ! (3 - i), 68 + i := time ! (3 - i), 72 + i := bits ! (3 - i)])
                     [0..<4] header;
          header = fold (\<lambda>i h. h[4 + i := prev ! (i XOR 3)]) [0..<32] header;
          header = memcpy_at header 36 rt
      in memcpy_at header 76 (replicate 4 0))"

section \<open>Reference definitions\<close>

text \<open>
  Hexadecimal text of a byte string; the digits and their values as a table, and the bytes that a text of digits denotes.
\<close>

definition hex_text :: "bytes \<Rightarrow> bytes" where
  "hex_text bs = concat (map (\<lambda>b. [hex_chars ! (unat b div 16), hex_chars ! (unat b mod 16)]) bs)"

definition digit_table :: "(u8 \<times> nat) list" where
  "digit_table = zip (ascii ''0123456789'') [0..<10] @ zip (ascii ''abcdef'') [10..<16] @ zip (ascii ''ABCDEF'') [10..<16]"

definition digit_value :: "u8 \<Rightarrow> nat option" where
  "digit_value c = map_of digit_table c"

abbreviation hex_valid :: "bytes \<Rightarrow> bool" where
  "hex_valid \<equiv> list_all (\<lambda>c. digit_value c \<noteq> None)"

fun hex_value :: "bytes \<Rightarrow> bytes" where
  "hex_value (a # b # s) = of_nat (16 * the (digit_value a) + the (digit_value b)) # hex_value s"
| "hex_value _ = []"

text \<open>The consensus definitions: double SHA-256, the Merkle root along a branch, and the word-swapped
  previous hash of the Stratum protocol.\<close>

definition hash256 :: "bytes \<Rightarrow> bytes" where
  "hash256 m = sha256_spec (sha256_spec m)"

definition merkle_root :: "bytes \<Rightarrow> bytes list \<Rightarrow> bytes" where
  "merkle_root coinbase branches = foldl (\<lambda>r b. hash256 (r @ b)) (hash256 coinbase) branches"

fun swap_words :: "bytes \<Rightarrow> bytes" where
  "swap_words (a # b # c # d # s) = d # c # b # a # swap_words s"
| "swap_words s = s"

section \<open>Hexadecimal text\<close>

lemma hex_digit_less: "hex_digit c = Some v \<Longrightarrow> unat v < 16"
  by (auto simp: hex_digit_def word_le_nat_alt unat_sub_if' unat_word_ariths split: if_splits)

lemma digit_value_code [simp]: "digit_value c = map_option unat (hex_digit c)"
  by (rule all_u8 [where P = "\<lambda>c. digit_value c = map_option unat (hex_digit c)"]) code_simp

lemma hex_digit_chars: "n < 16 \<Longrightarrow> hex_digit (hex_chars ! n) = Some (of_nat n)"
proof -
  have "list_all (\<lambda>n. hex_digit (hex_chars ! n) = Some (of_nat n)) [0..<16]" by code_simp
  then show "n < 16 \<Longrightarrow> hex_digit (hex_chars ! n) = Some (of_nat n)" by (simp add: list_all_iff)
qed

lemma hex_pair:
  assumes "unat (v :: u8) < 16" "unat w < 16"
  shows "push_bit 4 v OR w = of_nat (16 * unat v + unat w)"
proof -
  have "push_bit 4 v AND w = 0"
  proof (rule bit_word_eqI)
    fix n assume "n < LENGTH(8)"
    have "w = take_bit 4 w" using assms(2) by (simp add: word_unat_eq_iff unsigned_take_bit_eq take_bit_nat_eq_self)
    then have "n \<ge> 4 \<Longrightarrow> \<not> bit w n" by (metis bit_take_bit_iff not_less)
    then show "bit (push_bit 4 v AND w) n = bit 0 n" by (auto simp: bit_simps)
  qed
  then have "push_bit 4 v OR w = push_bit 4 v + w" by (simp add: disjunctive_add_eq_or)
  also have "\<dots> = of_nat (16 * unat v + unat w)" by (simp add: push_bit_eq_mult)
  finally show ?thesis .
qed

lemma hex_loop_length: "length (snd (hex_loop s i out)) = length out"
  by (induction s i out rule: hex_loop.induct) (auto split: option.splits)


lemma length_hex_value [simp, size_simps]: "length (hex_value s) = length s div 2"
  by (induction s rule: hex_value.induct) simp_all

lemma hex_loop_valid:
  "hex_valid s \<Longrightarrow> even (length s) \<Longrightarrow> k + length s div 2 \<le> length out \<Longrightarrow>
   hex_loop s (2 * k) out = (True, memcpy_at out k (hex_value s))"
proof (induction s arbitrary: k out rule: hex_value.induct)
  case (1 a b s)
  then obtain v w where vw: "hex_digit a = Some v" "hex_digit b = Some w" by auto
  note less = vw [THEN hex_digit_less]
  from 1(3) have "even (length s)" by simp
  with 1(1) [of "k + 1" "out[k := of_nat (16 * unat v + unat w)]"] 1(2,4) vw less show ?case
    by (simp add: hex_pair memcpy_at_def take_Suc_conv_app_nth upd_conv_take_nth_drop nth_append add.commute)
qed (simp_all add: memcpy_at_def)

lemma hex_loop_invalid: "fst (hex_loop s i out) \<longleftrightarrow> hex_valid s"
  by (induction s i out rule: hex_loop.induct) (auto split: option.splits)

lemma hex_loop_beyond: "drop ((i + length s + 1) div 2) (snd (hex_loop s i out)) = drop ((i + length s + 1) div 2) out"
proof (induction s i out rule: hex_loop.induct)
  case (2 c s i out)
  have "i div 2 < (i + length s + 2) div 2" by linarith
  with 2 show ?case by (auto split: option.splits)
qed simp

lemma hex_text_valid: "hex_valid (hex_text bs)"
  using unat_u8_less by (auto simp: hex_text_def list_all_iff hex_digit_chars less_mult_imp_div_less)

lemma length_hex_text [simp, size_simps]: "length (hex_text bs) = 2 * length bs"
  by (induction bs) (simp_all add: hex_text_def)

lemma hex_text_snoc:
  "hex_text (bs @ [b]) = hex_text bs @ [hex_chars ! (unat b div 16), hex_chars ! (unat b mod 16)]"
  by (simp add: hex_text_def)

lemma hex_value_text: "hex_value (hex_text bs) = bs"
proof (induction bs)
  case (Cons b bs)
  have "unat b div 16 < 16" using unat_u8_less [of b] by linarith
  with Cons show ?case
    by (simp add: hex_text_def hex_digit_chars take_bit_nat_eq_self unat_of_nat word_of_nat_eq_iff)
qed (simp add: hex_text_def)

lemma unat_and_15: "unat ((b :: u8) AND 15) = unat b mod 16"
proof -
  have "unat (b AND 15) = take_bit 4 (unat b)"
    by (simp add: unsigned_and_eq take_bit_eq_mask mask_eq_exp_minus_1)
  then show ?thesis by (simp add: take_bit_eq_mod)
qed

lemma hex_encode_prefix:
  "n \<le> length bs \<Longrightarrow> 2 * length bs < length out \<Longrightarrow>
   fold (\<lambda>i out. out[i * 2 := hex_chars ! unat (drop_bit 4 (bs ! i)),
                     i * 2 + 1 := hex_chars ! unat (bs ! i AND 15)]) [0..<n] out
   = hex_text (take n bs) @ drop (2 * n) out"
proof (induction n)
  case (Suc n)
  have nib: "unat (drop_bit 4 b) = unat b div 16" "unat (b AND 15) = unat b mod 16" for b :: u8
    using unat_and_15 by (simp_all add: unat_drop_bit_div)
  from Suc have "drop (2 * n) out = out ! (2 * n) # out ! (2 * n + 1) # drop (2 * Suc n) out"
    by (simp add: Cons_nth_drop_Suc)
  with Suc show ?case
    by (simp add: take_Suc_conv_app_nth hex_text_snoc nib list_update_append mult.commute)
qed (simp add: hex_text_def)

lemma hex_encode_text:
  assumes "2 * length bs < length out"
  shows "hex_encode bs out = memcpy_at out 0 (hex_text bs @ [0])"
proof -
  have "drop (2 * length bs) out = out ! (2 * length bs) # drop (2 * length bs + 1) out"
    using assms by (simp add: Cons_nth_drop_Suc)
  then show ?thesis
    using hex_encode_prefix [OF order.refl assms]
    by (simp add: hex_encode_def memcpy_at_def list_update_append)
qed

lemma hex_text_no_nul: "0 \<notin> set (hex_text bs)"
  using hex_text_valid [of bs] by (auto simp: list_all_iff hex_digit_def)


section \<open>Header assembly\<close>

lemma sha256d_hash256: "sha256d bs = hash256 bs"
proof -
  let ?c = "sha256_update (sha256_init sha256_ctx_uninit) bs"
  obtain out c where c: "sha256_final ?c = (out, c)" by fastforce
  from sha.finish_foldl [OF sha256_init_absorbed, of sha256_ctx_uninit "[bs]"] c
  have "out = sha256_spec bs" by simp
  moreover have "length (ctx_buffer c) = 64"
    using sha256_final_buffer [OF sha256_update_absorbed [OF sha256_init_absorbed, of sha256_ctx_uninit bs]] c
    by simp
  ultimately show ?thesis
    using sha.finish_foldl [OF sha256_init_absorbed, of c "[out]"] c
    by (simp add: sha256d_def hash256_def)
qed


lemma build_header_root:
  "fst (sha256_final (sha256_update (sha256_init (snd (sha256_final c))) (fst (sha256_final c)))) =
     hash256 (coin1 @ extra1 @ extra2 @ coin2)"
  if "c = foldl sha256_update (sha256_init sha256_ctx_uninit) [coin1, extra1, extra2, coin2]"
proof -
  have c: "sha256_absorbed c (coin1 @ extra1 @ extra2 @ coin2)"
    using sha.absorbed_foldl [OF sha256_init_absorbed, of sha256_ctx_uninit "[coin1, extra1, extra2, coin2]"] that
    by simp
  with sha.finish_digest [OF c] sha256_final_buffer [OF c]
    sha.finish_foldl [OF sha256_init_absorbed, of "snd (sha256_final c)" "[fst (sha256_final c)]"]
  show ?thesis by (simp add: hash256_def)
qed

lemma length_hash256 [simp, size_simps]: "length (hash256 m) = 32"
  by (simp add: hash256_def)

lemma merkle_step_hash256:
  "length rt = 32 \<Longrightarrow> length b = 32 \<Longrightarrow> merkle_step rt b = hash256 (rt @ b)"
  by (simp add: merkle_step_def sha256d_hash256 memcpy_at_def)

lemma foldl_merkle_step:
  "length rt = 32 \<Longrightarrow> list_all (\<lambda>b. length b = 32) branches \<Longrightarrow>
   foldl merkle_step rt branches = foldl (\<lambda>r b. hash256 (r @ b)) rt branches"
  by (induction branches arbitrary: rt) (simp_all add: merkle_step_hash256)

lemma length_merkle_root [simp, size_simps]: "length (merkle_root cb branches) = 32"
proof -
  have "length rt = 32 \<Longrightarrow> length (foldl (\<lambda>r b. hash256 (r @ b)) rt branches) = 32" for rt
    by (induction branches arbitrary: rt) simp_all
  then show ?thesis by (simp add: merkle_root_def)
qed

text \<open>The previous hash, word by word: index \<open>i XOR 3\<close> reverses the bytes of each group of four.\<close>

lemma length_swap_words [simp, size_simps]: "length (swap_words s) = length s"
  by (induction s rule: swap_words.induct) simp_all

lemma nth_swap_words:
  "length s mod 4 = 0 \<Longrightarrow> i < length s \<Longrightarrow> swap_words s ! i = s ! (4 * (i div 4) + (3 - i mod 4))"
proof (induction s arbitrary: i rule: swap_words.induct)
  case (1 a b c d s)
  show ?case
  proof (cases "i < 4")
    case True
    then consider "i = 0" | "i = 1" | "i = 2" | "i = 3" by linarith
    then show ?thesis by cases simp_all
  next
    case False
    then obtain j where j: "i = j + 4" by (metis add.commute le_Suc_ex not_less)
    have "4 * ((j + 4) div 4) + (3 - (j + 4) mod 4) = 4 * (j div 4) + (3 - j mod 4) + 4" by simp
    moreover have "length s mod 4 = 0" "j < length s" using 1(2,3) j by simp_all
    moreover have "(w # x # y # z # u) ! (k + 4) = u ! k" for w x y z k and u :: bytes by (simp add: numeral_eq_Suc)
    ultimately show ?thesis using 1(1) unfolding j by (simp only: swap_words.simps)
  qed
qed auto

lemma prev_swap_words:
  assumes "length prev = 32"
  shows "map (\<lambda>i. prev ! (i XOR 3)) [0..<32] = swap_words prev"
proof (rule nth_equalityI)
  have *: "list_all (\<lambda>i. i XOR 3 = 4 * (i div 4) + (3 - i mod 4)) [0..<32 :: nat]" by code_simp
  fix i assume "i < length (map (\<lambda>i. prev ! (i XOR 3)) [0..<32])"
  with * show "map (\<lambda>i. prev ! (i XOR 3)) [0..<32] ! i = swap_words prev ! i"
    by (simp add: assms nth_swap_words list_all_iff)
qed (simp add: assms)

lemma list_length4E:
  assumes "length xs = 4"
  obtains a b c d where "xs = [a, b, c, d]"
  using assms by (auto simp: numeral_eq_Suc length_Suc_conv)

lemma header_fields:
  assumes "length (h :: bytes) = 80" "length v = 4" "length t = 4" "length b = 4"
  shows "fold (\<lambda>i h. h[i := v ! (3 - i), 68 + i := t ! (3 - i), 72 + i := b ! (3 - i)]) [0..<4] h =
    rev v @ sub_array h 4 64 @ rev t @ rev b @ drop 76 h"
proof -
  have cut: "take n (drop k h) @ drop (k + n) h = drop k h" for n k
    by (metis add.commute append_take_drop_id drop_drop)
  define f m g t' d where "f = take 4 h" and "m = sub_array h 4 64" and "g = sub_array h 68 4"
    and "t' = sub_array h 72 4" and "d = drop 76 h"
  have h: "h = f @ m @ g @ t' @ d"
    using cut [of 64 4] cut [of 4 68] cut [of 4 72] append_take_drop_id [of 4 h]
    by (simp add: f_def m_def g_def t'_def d_def sub_array_def)
  then have upd: "fold F ns h = fold F ns (f @ m @ g @ t' @ d)" for F :: "nat \<Rightarrow> bytes \<Rightarrow> bytes" and ns by simp
  have "length f = 4" "length m = 64" "length g = 4" "length t' = 4"
    using assms(1) by (simp_all add: f_def m_def g_def t'_def)
  with assms(2-4) show ?thesis
    unfolding m_def [symmetric] d_def [symmetric] upd
    by (elim list_length4E) (simp add: upt_4 list_update_append)
qed

text \<open>
  The header in the wire layout: version, previous hash, Merkle root, time and target bits, each
  little-endian, and a zero nonce.
\<close>

definition header_spec :: "bytes \<Rightarrow> bytes \<Rightarrow> bytes \<Rightarrow> bytes \<Rightarrow> bytes \<Rightarrow> bytes" where
  "header_spec version prev merkle time bits =
     rev version @ swap_words prev @ merkle @ rev time @ rev bits @ replicate 4 0"

lemma bitcoin_build_header_spec:
  assumes "length header = 80" "length version = 4" "length prev = 32" "length bits = 4" "length time = 4"
    and "list_all (\<lambda>b. length b = 32) branches"
  shows "bitcoin_build_header version prev bits time coin1 extra1 extra2 coin2 branches header =
    header_spec version prev (merkle_root (coin1 @ extra1 @ extra2 @ coin2) branches) time bits"
proof -
  define c where "c = foldl sha256_update (sha256_init sha256_ctx_uninit) [coin1, extra1, extra2, coin2]"
  define h where "h = rev version @ sub_array header 4 64 @ rev time @ rev bits @ drop 76 header"
  have "foldl merkle_step (fst (sha256_final (sha256_update (sha256_init (snd (sha256_final c))) (fst (sha256_final c)))))
      branches = merkle_root (coin1 @ extra1 @ extra2 @ coin2) branches" (is "?root = _")
    by (simp only: build_header_root [OF c_def] foldl_merkle_step [OF length_hash256 assms(6)] merkle_root_def)
  moreover have "bitcoin_build_header version prev bits time coin1 extra1 extra2 coin2 branches header =
    memcpy_at (memcpy_at (memcpy_at h 4 (swap_words prev)) 36 ?root) 76 (replicate 4 0)"
    using assms by (simp add: bitcoin_build_header_def Let_def split_def c_def h_def header_fields
        fold_store_range prev_swap_words)
  ultimately show ?thesis
    using assms by (simp add: h_def header_spec_def memcpy_at_def)
qed


section \<open>Byte swap\<close>

lemma octet_cases:
  assumes "n < (32 :: nat)"
  obtains "n div 8 = 0" "n < 8" "n mod 8 = n" | "n div 8 = 1" "8 \<le> n" "n < 16" "n mod 8 = n - 8"
    | "n div 8 = 2" "16 \<le> n" "n < 24" "n mod 8 = n - 16" | "n div 8 = 3" "24 \<le> n" "n < 32" "n mod 8 = n - 24"
proof -
  have n: "n mod 8 = n - 8 * (n div 8)" by (simp add: minus_mult_div_eq_mod)
  from assms have "n div 8 < 4" by linarith
  then consider "n div 8 = 0" | "n div 8 = 1" | "n div 8 = 2" | "n div 8 = 3" by linarith
  then show ?thesis
    by cases (rule that; use n assms in linarith)+
qed

lemma bit_byte_mask:
  "bit (0xff0000 :: u32) n \<longleftrightarrow> 16 \<le> n \<and> n < 24" "bit (0xff00 :: u32) n \<longleftrightarrow> 8 \<le> n \<and> n < 16"
proof -
  have "(0xff0000 :: u32) = push_bit 16 (mask 8)" "(0xff00 :: u32) = push_bit 8 (mask 8)"
    by (simp_all add: mask_eq_exp_minus_1 push_bit_eq_mult)
  then show "bit (0xff0000 :: u32) n \<longleftrightarrow> 16 \<le> n \<and> n < 24" "bit (0xff00 :: u32) n \<longleftrightarrow> 8 \<le> n \<and> n < 16"
    by (simp_all only: bit_push_bit_iff bit_mask_iff possible_bit_word) auto
qed

lemma bit_swap32:
  assumes "n < 32"
  shows "bit (bitcoin_swap32 x) n = bit x (8 * (3 - n div 8) + n mod 8)"
proof -
  have out: "\<not> bit x k" if "32 \<le> k" for k using bit_imp_le_length [of x k] that by fastforce
  from octet_cases [OF assms] show ?thesis
    by cases (simp_all add: bitcoin_swap32_def bit_or_iff bit_and_iff bit_push_bit_iff bit_drop_bit_eq
        bit_byte_mask out add.commute del: bit_numeral_word_iff)
qed

section \<open>Properties\<close>

text \<open>
  C5. Header assembly: for a job with 4-byte version, bits and time, a 32-byte previous hash and
  32-byte branches, \<open>bitcoin_build_header\<close> overwrites all 80 bytes with the consensus layout, its
  Merkle root being the double SHA-256 of the coinbase (part 1, extranonce 1, extranonce 2, part 2)
  folded along the branches, whatever the buffer held before.
\<close>

theorem bitcoin_build_header_correct:
  assumes "length header = 80" "length version = 4" "length prev = 32" "length bits = 4" "length time = 4"
    and "list_all (\<lambda>b. length b = 32) branches"
  shows "bitcoin_build_header version prev bits time coin1 extra1 extra2 coin2 branches header =
    rev version @ swap_words prev @ merkle_root (coin1 @ extra1 @ extra2 @ coin2) branches
      @ rev time @ rev bits @ replicate 4 0"
  using bitcoin_build_header_spec [OF assms] by (simp add: header_spec_def)

theorem bitcoin_build_header_correct_witness:
  "take 36 (bitcoin_build_header [1, 2, 3, 4] (map of_nat [0..<32]) [5, 6, 7, 8] [9, 10, 11, 12] [1] [2] [3] [4]
     [replicate 32 0] (replicate 80 0xff)) =
   [4, 3, 2, 1, 3, 2, 1, 0, 7, 6, 5, 4, 11, 10, 9, 8, 15, 14, 13, 12, 19, 18, 17, 16, 23, 22, 21, 20,
    27, 26, 25, 24, 31, 30, 29, 28]"
  by (subst bitcoin_build_header_correct) (simp_all add: upt_rec)

text \<open>
  C6. \<open>hex_decode\<close> succeeds exactly on texts of an even number of hexadecimal digits, in either case, whose bytes fit the
  stated capacity; then it returns their count and has stored the bytes that the digits denote (by the table of
  their values) at the front of the buffer, leaving the rest. On failure it has stored nothing at or beyond half the text's length, so never
  outside the capacity.
\<close>

theorem hex_decode_correct:
  assumes "cap \<le> length out"
  shows "case hex_decode s out cap of
     (Some n, out') \<Rightarrow> hex_valid s \<and> length s = 2 * n \<and> n \<le> cap \<and> out' = memcpy_at out 0 (hex_value s)
   | (None, out') \<Rightarrow> \<not> (hex_valid s \<and> even (length s) \<and> length s div 2 \<le> cap) \<and>
       length out' = length out \<and> drop cap out' = drop cap out"
proof (cases "length s mod 2 \<noteq> 0 \<or> cap < length s div 2")
  case True
  then show ?thesis by (auto simp: hex_decode_def)
next
  case False
  then have e: "even (length s)" "length s div 2 \<le> cap" by auto
  show ?thesis
  proof (cases "hex_valid s")
    case True
    with hex_loop_valid [of s 0 out] e assms show ?thesis by (simp add: hex_decode_def)
  next
    case invalid: False
    obtain ok out' where loop: "hex_loop s 0 out = (ok, out')" by fastforce
    have "drop (length s div 2) out' = drop (length s div 2) out"
      using hex_loop_beyond [of 0 s out] loop e by simp
    then have "drop (cap - length s div 2) (drop (length s div 2) out') = drop (cap - length s div 2) (drop (length s div 2) out)"
      by simp
    then have "drop cap out' = drop cap out" using e by simp
    then show ?thesis
      using False invalid loop hex_loop_invalid [of s 0 out] hex_loop_length [of s 0 out]
      by (simp add: hex_decode_def)
  qed
qed

theorem hex_decode_correct_witness:
  "(2 :: nat) \<le> length [9, 9, 9 :: u8] \<and>
   hex_decode (ascii ''0aFf'') [9, 9, 9] 2 = (Some 2, [0x0a, 0xff, 9])"
  using hex_decode_correct [of 2 "[9, 9, 9]" "ascii ''0aFf''"]
  by (simp add: hex_digit_def memcpy_at_def split: prod.splits option.splits)

text \<open>
  Decoding the NUL-terminated text that \<open>hex_encode\<close> writes gives back the bytes, for every
  buffer large enough to hold them.
\<close>

theorem hex_roundtrip:
  assumes "2 * length bs < length txt" "length bs \<le> cap" "cap \<le> length out"
  shows "hex_decode (cstr (hex_encode bs txt)) out cap = (Some (length bs), memcpy_at out 0 bs)"
proof -
  have "cstr (hex_encode bs txt) = hex_text bs"
    using assms(1) by (simp add: hex_encode_text memcpy_at_def cstr_append_nul hex_text_no_nul)
  then show ?thesis
    using assms hex_loop_valid [OF hex_text_valid, of bs 0 out] by (simp add: hex_decode_def hex_value_text)
qed

theorem hex_roundtrip_witness:
  "hex_decode (cstr (hex_encode [0xde, 0x0f] [1, 1, 1, 1, 1, 1])) [9, 9, 9] 2 = (Some 2, [0xde, 0x0f, 9])"
  using hex_roundtrip [of "[0xde, 0x0f]" "[1, 1, 1, 1, 1, 1]" 2 "[9, 9, 9]"] by (simp add: memcpy_at_def)

text \<open>
  \<open>bitcoin_swap32\<close> converts a word between the big- and the little-endian byte order (bits move
  between mirrored bytes, keeping their place within the byte), and applying it twice changes nothing.
\<close>

theorem bitcoin_swap32_correct:
  "bitcoin_swap32 (load_le32 p) = load_be32 p \<and> bitcoin_swap32 (bitcoin_swap32 x) = x"
proof
  show "bitcoin_swap32 (bitcoin_swap32 x) = x"
  proof (rule bit_word_eqI)
    fix n assume "n < LENGTH(32)"
    then have n: "n < 32" by simp
    then have "8 * (3 - n div 8) + n mod 8 < 32" by linarith
    moreover have "(8 * (3 - n div 8) + n mod 8) div 8 = 3 - n div 8" "(8 * (3 - n div 8) + n mod 8) mod 8 = n mod 8" by simp_all
    ultimately show "bit (bitcoin_swap32 (bitcoin_swap32 x)) n = bit x n"
      using n by (simp add: bit_swap32)
  qed
next
  show "bitcoin_swap32 (load_le32 p) = load_be32 p"
  proof (rule bit_word_eqI)
    fix k assume "k < LENGTH(32)"
    then have k: "k < 32" by simp
    from octet_cases [OF k] show "bit (bitcoin_swap32 (load_le32 p)) k = bit (load_be32 p) k"
      by cases (auto simp: bit_swap32 load_le32_def load_be32_def bit_or_iff bit_push_bit_iff bit_ucast_iff)
  qed
qed

end
