(* ===== verification/Settings.thy ===== *)
theory Settings
  imports Prelude
begin

text \<open>
  \<open>common/settings.c\<close>: the miner's persistent settings, kept in two CRC-protected 512-byte EEPROM
  slots. The storage driver is the pair of function pointers \<open>settings_read\<close>/\<open>settings_write\<close> of the
  code: a read returns the bytes or fails, a write says whether it succeeded, and both pass on the
  state of the device. The interface \<open>storage\<close> says what a driver promises, power failures included,
  and the save protocol is proved atomic from it. It is interpreted on the byte-budget memory
  with which \<open>tb/test_settings.c\<close> interrupts a save at every byte.
\<close>

section \<open>The code\<close>

definition SETTINGS_SLOT0 :: u16 where "SETTINGS_SLOT0 = 0x1000"
definition SETTINGS_SLOT1 :: u16 where "SETTINGS_SLOT1 = 0x1200"
definition COMMIT :: u8 where "COMMIT = 0xa5"

record miner_settings =
  ms_mac :: bytes
  ms_port :: u16
  ms_host :: bytes
  ms_worker :: bytes
  ms_password :: bytes

type_synonym 'm settings_read = "u16 \<Rightarrow> nat \<Rightarrow> 'm \<Rightarrow> bytes option \<times> 'm"
type_synonym 'm settings_write = "u16 \<Rightarrow> bytes \<Rightarrow> 'm \<Rightarrow> bool \<times> 'm"

definition crc_bit :: "u32 \<Rightarrow> u32" where
  "crc_bit c = drop_bit 1 c XOR ((0 - (c AND 1)) AND 0xedb88320)"

definition crc_byte :: "u32 \<Rightarrow> u8 \<Rightarrow> u32" where
  "crc_byte c b = (crc_bit ^^ 8) (c XOR ucast b)"

definition crc :: "bytes \<Rightarrow> u32" where
  "crc p = NOT (foldl crc_byte (NOT 0) p)"

definition settings_defaults :: miner_settings where
  "settings_defaults =
     \<lparr>ms_mac = [2, 0, 0, 0x11, 0x22, 0x33], ms_port = 3333, ms_host = replicate 96 0,
      ms_worker = replicate 128 0, ms_password = replicate 64 0\<rparr>"

fun string_ok :: "bytes \<Rightarrow> bool" where
  "string_ok [] = False"
| "string_ok (c # s) =
     (if c = 0 then True
      else if c < 32 \<or> 126 < c \<or> c = 0x22 \<or> c = 0x5C then False
      else string_ok s)"

definition host_char :: "u8 \<Rightarrow> bool" where
  "host_char c \<longleftrightarrow> 0x61 \<le> c \<and> c \<le> 0x7A \<or> 0x41 \<le> c \<and> c \<le> 0x5A \<or> 0x30 \<le> c \<and> c \<le> 0x39 \<or> c = 0x2E \<or> c = 0x2D"

definition settings_valid :: "miner_settings \<Rightarrow> bool" where
  "settings_valid s =
     (let any = fold (\<lambda>i any. any OR ms_mac s ! i) [0..<6] 0
      in if any = 0 \<or> ms_mac s ! 0 AND 1 \<noteq> 0 \<or> ms_port s = 0 then False
         else if \<not> string_ok (ms_host s) \<or> \<not> string_ok (ms_worker s) \<or> \<not> string_ok (ms_password s) then False
         else list_all host_char (cstr (ms_host s)))"

definition unpack :: "miner_settings \<Rightarrow> bytes \<Rightarrow> miner_settings" where
  "unpack s b =
     s\<lparr>ms_mac := sub_array b 16 6, ms_port := ucast (b ! 22) OR push_bit 8 (ucast (b ! 23)),
       ms_host := sub_array b 24 96, ms_worker := sub_array b 120 128, ms_password := sub_array b 248 64\<rparr>"

definition record_valid :: "bytes \<Rightarrow> bool" where
  "record_valid b =
     (if take 4 b \<noteq> ascii ''S35C'' \<or> b ! 4 \<noteq> 1 \<or> b ! 511 \<noteq> COMMIT \<or> load_le32 (drop 504 b) \<noteq> crc (take 504 b)
      then False else settings_valid (unpack settings_defaults b))"

text \<open>The choice between the two records that were read: the newer one, in serial-number order.\<close>

definition select_slot :: "bytes \<Rightarrow> bytes \<Rightarrow> int" where
  "select_slot b0 b1 =
     (let a = record_valid b0; c = record_valid b1
      in if \<not> a \<and> \<not> c then -1 else if \<not> a then 1 else if \<not> c then 0
         else if sint (load_le32 (drop 8 b1) - load_le32 (drop 8 b0)) > 0 then 1 else 0)"

definition read_slots :: "'m settings_read \<Rightarrow> 'm \<Rightarrow> (int \<times> bytes list) \<times> 'm" where
  "read_slots read m =
     (case read SETTINGS_SLOT0 512 m of
        (None, m) \<Rightarrow> ((-2, []), m)
      | (Some b0, m) \<Rightarrow>
          (case read SETTINGS_SLOT1 512 m of
             (None, m) \<Rightarrow> ((-2, [b0]), m)
           | (Some b1, m) \<Rightarrow> ((select_slot b0 b1, [b0, b1]), m)))"

definition settings_load :: "'m settings_read \<Rightarrow> 'm \<Rightarrow> (int \<times> miner_settings) \<times> 'm" where
  "settings_load read m =
     (let ((slot, b), m) = read_slots read m; s = settings_defaults
      in if slot = -2 then ((-1, s), m)
         else if slot < 0 then ((0, s), m)
         else ((1, unpack s (b ! nat slot)), m))"

definition settings_record :: "u32 \<Rightarrow> miner_settings \<Rightarrow> bytes" where
  "settings_record seq s =
     (let b = replicate 512 0;
          b = memcpy_at b 0 (ascii ''S35C''); b = b[4 := 1]; b = memcpy_at b 8 (store_le32 seq);
          b = memcpy_at b 16 (ms_mac s);
          b = b[22 := ucast (ms_port s)]; b = b[23 := ucast (drop_bit 8 (ms_port s))];
          b = memcpy_at b 24 (ms_host s); b = memcpy_at b 120 (ms_worker s); b = memcpy_at b 248 (ms_password s)
      in memcpy_at b 504 (store_le32 (crc (take 504 b))))"

definition settings_save ::
  "miner_settings \<Rightarrow> 'm settings_read \<Rightarrow> 'm settings_write \<Rightarrow> 'm \<Rightarrow> int \<times> 'm" where
  "settings_save s read write m =
     (if \<not> settings_valid s then (-1, m)
      else let ((active, slots), m) = read_slots read m
      in if active = -2 then (-1, m)
      else let seq = (if active < 0 then 0 else load_le32 (drop 8 (slots ! nat active)) + 1);
               addr = (if active = 0 then SETTINGS_SLOT1 else SETTINGS_SLOT0);
               b = settings_record seq s
      in case write (addr + 511) [0] m of
        (False, m) \<Rightarrow> (-1, m)
      | (True, m) \<Rightarrow>
     (case write addr (take 511 b) m of
        (False, m) \<Rightarrow> (-1, m)
      | (True, m) \<Rightarrow>
     (case read addr 512 m of
        (None, m) \<Rightarrow> (-1, m)
      | (Some verify, m) \<Rightarrow>
     (if b \<noteq> verify then (-1, m)
      else case write (addr + 511) [COMMIT] m of
        (False, m) \<Rightarrow> (-1, m)
      | (True, m) \<Rightarrow>
     (case read addr 512 m of
        (None, m) \<Rightarrow> (-1, m)
      | (Some verify, m) \<Rightarrow> (if \<not> record_valid verify then (-1, m) else (0, m)))))))"

section \<open>Abstract specification\<close>

text \<open>
  The array sizes of the C type; what a memory image (a byte per address) holds as settings: the
  record a load chooses, if any.
\<close>

definition settings_wf :: "miner_settings \<Rightarrow> bool" where
  "settings_wf s \<longleftrightarrow> length (ms_mac s) = 6 \<and> length (ms_host s) = 96 \<and> length (ms_worker s) = 128 \<and>
     length (ms_password s) = 64"

definition mem_image :: "(nat \<Rightarrow> u8) \<Rightarrow> nat \<Rightarrow> nat \<Rightarrow> bytes" where
  "mem_image f a n = map (\<lambda>i. f (a + i)) [0..<n]"

definition slot_of :: "(nat \<Rightarrow> u8) \<Rightarrow> int \<Rightarrow> bytes" where
  "slot_of f k = mem_image f (if k = 1 then 0x1200 else 0x1000) 512"

definition active_slot :: "(nat \<Rightarrow> u8) \<Rightarrow> int" where
  "active_slot f = select_slot (slot_of f 0) (slot_of f 1)"

definition stored :: "(nat \<Rightarrow> u8) \<Rightarrow> miner_settings option" where
  "stored f = (if active_slot f < 0 then None else Some (unpack settings_defaults (slot_of f (active_slot f))))"

section \<open>The layout of a record\<close>

text \<open>Filling a zeroed buffer front to back, with a gap of \<open>g\<close> zeros before the next field.\<close>

lemma memcpy_tail:
  "length f = n \<Longrightarrow> off = n + g \<Longrightarrow> k = g + length src + r \<Longrightarrow>
   memcpy_at (f @ replicate k 0) off src = (f @ replicate g 0 @ src) @ replicate r 0"
  by (simp add: memcpy_at_def)

lemma update_tail:
  "length f = n \<Longrightarrow> k = r + 1 \<Longrightarrow> (f @ replicate k 0)[n := v] = (f @ [v]) @ replicate r 0"
  by (simp add: list_update_append)

definition record_body :: "u32 \<Rightarrow> miner_settings \<Rightarrow> bytes" where
  "record_body seq s = ascii ''S35C'' @ [1, 0, 0, 0] @ store_le32 seq @ replicate 4 0 @ ms_mac s
     @ [ucast (ms_port s), ucast (drop_bit 8 (ms_port s))] @ ms_host s @ ms_worker s @ ms_password s @ replicate 192 0"

lemma length_record_body [simp, size_simps]: "settings_wf s \<Longrightarrow> length (record_body seq s) = 504"
  by (simp add: record_body_def settings_wf_def)

lemma settings_record_eq:
  assumes "settings_wf s"
  shows "settings_record seq s = record_body seq s @ store_le32 (crc (record_body seq s)) @ [0, 0, 0, 0]"
proof -
  from assms have len: "length (ms_mac s) = 6" "length (ms_host s) = 96" "length (ms_worker s) = 128"
    "length (ms_password s) = 64" by (simp_all add: settings_wf_def)
  define p1 p2 p3 p4 p5 p6 p7 p8 where "p1 = ascii ''S35C''" and "p2 = p1 @ [1]"
    and "p3 = p2 @ replicate 3 0 @ store_le32 seq" and "p4 = p3 @ replicate 4 0 @ ms_mac s"
    and "p5 = p4 @ [ucast (ms_port s)]" and "p6 = p5 @ [ucast (drop_bit 8 (ms_port s))]"
    and "p7 = p6 @ replicate 0 0 @ ms_host s" and "p8 = p7 @ replicate 0 0 @ ms_worker s"
  note ps = p1_def p2_def p3_def p4_def p5_def p6_def p7_def p8_def
  have plen: "length p1 = 4" "length p2 = 5" "length p3 = 12" "length p4 = 22" "length p5 = 23" "length p6 = 24"
    "length p7 = 120" "length p8 = 248" by (simp_all add: ps len)
  have "memcpy_at (replicate 512 0) 0 (ascii ''S35C'') = p1 @ replicate 508 0"
    by (simp add: p1_def memcpy_at_def)
  moreover have "(p1 @ replicate 508 0)[4 := 1] = p2 @ replicate 507 0"
    unfolding p2_def by (rule update_tail) (simp_all add: plen)
  moreover have "memcpy_at (p2 @ replicate 507 0) 8 (store_le32 seq) = p3 @ replicate 500 0"
    unfolding p3_def by (rule memcpy_tail) (simp_all add: plen)
  moreover have "memcpy_at (p3 @ replicate 500 0) 16 (ms_mac s) = p4 @ replicate 490 0"
    unfolding p4_def by (rule memcpy_tail) (simp_all add: plen len)
  moreover have "(p4 @ replicate 490 0)[22 := ucast (ms_port s)] = p5 @ replicate 489 0"
    unfolding p5_def by (rule update_tail) (simp_all add: plen)
  moreover have "(p5 @ replicate 489 0)[23 := ucast (drop_bit 8 (ms_port s))] = p6 @ replicate 488 0"
    unfolding p6_def by (rule update_tail) (simp_all add: plen)
  moreover have "memcpy_at (p6 @ replicate 488 0) 24 (ms_host s) = p7 @ replicate 392 0"
    unfolding p7_def by (rule memcpy_tail) (simp_all add: plen len)
  moreover have "memcpy_at (p7 @ replicate 392 0) 120 (ms_worker s) = p8 @ replicate 264 0"
    unfolding p8_def by (rule memcpy_tail) (simp_all add: plen len)
  moreover have "memcpy_at (p8 @ replicate 264 0) 248 (ms_password s) = (p8 @ replicate 0 0 @ ms_password s) @ replicate 200 0"
    by (rule memcpy_tail) (simp_all add: plen len)
  moreover have "\<dots> = record_body seq s @ replicate 8 0"
    by (simp add: ps record_body_def numeral_3_eq_3 flip: replicate_add)
  ultimately have "settings_record seq s = memcpy_at (record_body seq s @ replicate 8 0) 504
      (store_le32 (crc (take 504 (record_body seq s @ replicate 8 0))))"
    by (simp only: settings_record_def Let_def)
  also have "\<dots> = (record_body seq s @ replicate 0 0 @ store_le32 (crc (record_body seq s))) @ replicate 4 0"
    using assms memcpy_tail [of "record_body seq s" 504 504 0 8 "store_le32 (crc (record_body seq s))" 4] by simp
  finally show ?thesis by (simp add: numeral_eq_Suc)
qed


definition committed :: "u32 \<Rightarrow> miner_settings \<Rightarrow> bytes" where
  "committed seq s = (settings_record seq s)[511 := COMMIT]"

lemma length_settings_record [simp, size_simps]: "settings_wf s \<Longrightarrow> length (settings_record seq s) = 512"
  by (simp add: settings_record_eq)

lemma committed_eq:
  "settings_wf s \<Longrightarrow> committed seq s = record_body seq s @ store_le32 (crc (record_body seq s)) @ [0, 0, 0, COMMIT]"
  by (simp add: committed_def settings_record_eq list_update_append)

lemma port_bytes: "ucast (ucast p :: u8) OR push_bit 8 (ucast (ucast (drop_bit 8 p) :: u8)) = (p :: u16)"
proof (rule bit_word_eqI)
  fix n assume "n < LENGTH(16)"
  then show "bit (ucast (ucast p :: u8) OR push_bit 8 (ucast (ucast (drop_bit 8 p) :: u8)) :: u16) n = bit p n"
    by (cases "n < 8") (auto simp: bit_simps)
qed

text \<open>The fields of a record, at the offsets the code reads them from.\<close>

lemma record_body_fields:
  assumes "settings_wf s"
  shows "sub_array (record_body seq s @ r) 16 6 = ms_mac s"
    "(record_body seq s @ r) ! 22 = ucast (ms_port s)" "(record_body seq s @ r) ! 23 = ucast (drop_bit 8 (ms_port s))"
    "sub_array (record_body seq s @ r) 24 96 = ms_host s" "sub_array (record_body seq s @ r) 120 128 = ms_worker s"
    "sub_array (record_body seq s @ r) 248 64 = ms_password s"
    "take 4 (record_body seq s @ r) = ascii ''S35C''" "(record_body seq s @ r) ! 4 = 1"
    "take 4 (drop 8 (record_body seq s @ r)) = store_le32 seq"
  using assms by (simp_all add: record_body_def settings_wf_def sub_array_def nth_append nth_Cons')

lemma unpack_committed: "settings_wf s \<Longrightarrow> unpack d (committed seq s) = s"
  by (simp add: unpack_def committed_eq record_body_fields port_bytes)

lemma load_le32_take: "load_le32 (take 4 p) = load_le32 p"
  by (simp add: load_le32_def)

lemma committed_seq: "settings_wf s \<Longrightarrow> load_le32 (drop 8 (committed seq s)) = seq"
  using record_body_fields(9) load_le32_take [of "drop 8 (committed seq s)"] by (simp only: committed_eq load_store_le32)

lemma record_valid_committed: 
  assumes "settings_wf s"
  shows "record_valid (committed seq s) = settings_valid s"
proof -
  have "load_le32 (drop 504 (committed seq s)) = crc (take 504 (committed seq s))"
    using assms load_le32_take [of "drop 504 (committed seq s)"] by (simp add: committed_eq)
  moreover have "committed seq s ! 511 = COMMIT" using assms by (simp add: committed_def)
  ultimately show ?thesis
    using unpack_committed [OF assms] assms record_body_fields(7,8) [OF assms]
    unfolding record_valid_def by (simp only: committed_eq if_False simp_thms)
qed

lemma record_valid_commit: "record_valid b \<Longrightarrow> b ! 511 = COMMIT"
  by (auto simp: record_valid_def split: if_splits)


section \<open>What a memory image holds\<close>

lemma mem_image_cong: "(\<And>i. i < n \<Longrightarrow> f (a + i) = g (a + i)) \<Longrightarrow> mem_image f a n = mem_image g a n"
  by (simp add: mem_image_def)

lemma length_mem_image [simp, size_simps]: "length (mem_image f a n) = n"
  by (simp add: mem_image_def)

lemma nth_mem_image: "i < n \<Longrightarrow> mem_image f a n ! i = f (a + i)"
  by (simp add: mem_image_def)

text \<open>The slot that a save writes, by the slot that is active: the other one.\<close>

definition target_addr :: "int \<Rightarrow> u16" where
  "target_addr active = (if active = 0 then SETTINGS_SLOT1 else SETTINGS_SLOT0)"

definition next_seq :: "(nat \<Rightarrow> u8) \<Rightarrow> u32" where
  "next_seq f = (if active_slot f < 0 then 0 else load_le32 (drop 8 (slot_of f (active_slot f))) + 1)"

text \<open>\<open>g\<close> differs from \<open>f\<close> at most in the slot a save may write.\<close>

definition same_but_target :: "(nat \<Rightarrow> u8) \<Rightarrow> (nat \<Rightarrow> u8) \<Rightarrow> bool" where
  "same_but_target f g \<longleftrightarrow>
     (\<forall>x. x < unat (target_addr (active_slot f)) \<or> unat (target_addr (active_slot f)) + 512 \<le> x \<longrightarrow> g x = f x)"

lemma active_slot_cases: "active_slot f = -1 \<or> active_slot f = 0 \<or> active_slot f = 1"
  by (simp add: active_slot_def select_slot_def Let_def)

lemma same_but_target_other:
  assumes "same_but_target f g"
  shows "active_slot f = 0 \<Longrightarrow> slot_of g 0 = slot_of f 0" "active_slot f \<noteq> 0 \<Longrightarrow> slot_of g 1 = slot_of f 1"
  using assms
  by (auto simp: same_but_target_def slot_of_def target_addr_def SETTINGS_SLOT0_def SETTINGS_SLOT1_def intro!: mem_image_cong)

lemma target_image: "mem_image g (unat (target_addr (active_slot f))) 512 = slot_of g (if active_slot f = 0 then 1 else 0)"
  by (simp add: slot_of_def target_addr_def SETTINGS_SLOT0_def SETTINGS_SLOT1_def)

text \<open>Destroying the target slot leaves what is stored; completing it stores the new record.\<close>

lemma select_slot_simps:
  "\<not> record_valid b0 \<Longrightarrow> select_slot b0 b1 = (if record_valid b1 then 1 else -1)"
  "\<not> record_valid b1 \<Longrightarrow> select_slot b0 b1 = (if record_valid b0 then 0 else -1)"
  "record_valid b0 \<Longrightarrow> record_valid b1 \<Longrightarrow>
     select_slot b0 b1 = (if sint (load_le32 (drop 8 b1) - load_le32 (drop 8 b0)) > 0 then 1 else 0)"
  by (simp_all add: select_slot_def Let_def)

lemma active_slot_valid:
  "active_slot f = 0 \<Longrightarrow> record_valid (slot_of f 0)" "active_slot f = 1 \<Longrightarrow> record_valid (slot_of f 1)"
  "active_slot f = -1 \<Longrightarrow> \<not> record_valid (slot_of f 0) \<and> \<not> record_valid (slot_of f 1)"
  by (auto simp: active_slot_def select_slot_def Let_def split: if_splits)

lemma stored_target_invalid:
  assumes "same_but_target f g" "\<not> record_valid (mem_image g (unat (target_addr (active_slot f))) 512)"
  shows "stored g = stored f"
proof -
  note other = same_but_target_other [OF assms(1)] and target = assms(2) [unfolded target_image]
  from active_slot_cases [of f] have "active_slot g = active_slot f"
  proof (elim disjE)
    assume a: "active_slot f = -1"
    with other target active_slot_valid(3) [OF a] show ?thesis by (simp add: active_slot_def [of g] select_slot_simps)
  next
    assume a: "active_slot f = 0"
    with other target active_slot_valid(1) [OF a] show ?thesis by (simp add: active_slot_def [of g] select_slot_simps)
  next
    assume a: "active_slot f = 1"
    with other target active_slot_valid(2) [OF a] show ?thesis by (simp add: active_slot_def [of g] select_slot_simps)
  qed
  with active_slot_cases [of f] other show ?thesis by (elim disjE) (simp_all add: stored_def)
qed

lemma stored_target_committed:
  assumes "same_but_target f g" "mem_image g (unat (target_addr (active_slot f))) 512 = committed (next_seq f) s"
    and "settings_wf s" "settings_valid s"
  shows "stored g = Some s"
proof -
  note other = same_but_target_other [OF assms(1)] and target = assms(2) [unfolded target_image]
  have new: "record_valid (committed (next_seq f) s)" by (simp add: record_valid_committed assms)
  note seq = committed_seq [OF assms(3), of "next_seq f"]
  from active_slot_cases [of f] have "active_slot g = (if active_slot f = 0 then 1 else 0)"
  proof (elim disjE)
    assume a: "active_slot f = -1"
    with other target active_slot_valid(3) [OF a] new show ?thesis by (simp add: active_slot_def [of g] select_slot_simps)
  next
    assume a: "active_slot f = 0"
    with other target active_slot_valid(1) [OF a] new seq show ?thesis
      by (simp add: active_slot_def [of g] select_slot_simps next_seq_def)
  next
    assume a: "active_slot f = 1"
    with other target active_slot_valid(2) [OF a] new seq show ?thesis
      by (simp add: active_slot_def [of g] select_slot_simps next_seq_def)
  qed
  then show ?thesis using target unpack_committed [OF assms(3)] by (simp add: stored_def split: if_splits)
qed

section \<open>The storage interface and the save protocol\<close>

text \<open>
  What the settings rely on from a driver, inside the two slots. Reads do not change the memory, and
  a successful read returns it. A write touches only its range; when it reports success the range
  holds the new bytes, and when it fails (the power may have gone) the range may hold anything,
  except that a single byte is either still the old one or already the new one.
\<close>

definition in_slots :: "u16 \<Rightarrow> nat \<Rightarrow> bool" where
  "in_slots a n \<longleftrightarrow> unat SETTINGS_SLOT0 \<le> unat a \<and> unat a + n \<le> unat SETTINGS_SLOT1 + 512"

lemma settings_save_run:
  assumes "read_slots read m = ((active, slots), m0)" "settings_valid s" "active \<noteq> -2"
    and "(if active = 0 then SETTINGS_SLOT1 else SETTINGS_SLOT0) = t"
    and "settings_record (if active < 0 then 0 else load_le32 (drop 8 (slots ! nat active)) + 1) s = b"
    and "write (t + 511) [0] m0 = (ok1, m1)" "write t (take 511 b) m1 = (ok2, m2)" "read t 512 m2 = (r3, m3)"
    and "write (t + 511) [COMMIT] m3 = (ok4, m4)" "read t 512 m4 = (r5, m5)"
  shows "settings_save s read write m =
    (if \<not> ok1 then (-1, m1) else if \<not> ok2 then (-1, m2) else if r3 \<noteq> Some b then (-1, m3)
     else if \<not> ok4 then (-1, m4) else if \<exists>v. r5 = Some v \<and> record_valid v then (0, m5) else (-1, m5))"
  unfolding settings_save_def Let_def assms(1) prod.case assms(4) assms(5) assms(6) assms(7)
  using assms(2,3,8-) by (auto split: option.splits bool.splits)

locale storage =
  fixes rd :: "'m settings_read" and wr :: "'m settings_write" and mem :: "'m \<Rightarrow> nat \<Rightarrow> u8"
  assumes read_keeps: "in_slots a n \<Longrightarrow> mem (snd (rd a n m)) = mem m"
    and read_contents: "in_slots a n \<Longrightarrow> fst (rd a n m) = Some bs \<Longrightarrow> bs = mem_image (mem m) (unat a) n"
    and write_frame: "in_slots a (length bs) \<Longrightarrow> x < unat a \<or> unat a + length bs \<le> x \<Longrightarrow>
          mem (snd (wr a bs m)) x = mem m x"
    and write_done: "in_slots a (length bs) \<Longrightarrow> fst (wr a bs m) \<Longrightarrow> mem_image (mem (snd (wr a bs m))) (unat a) (length bs) = bs"
    and write_byte: "in_slots a 1 \<Longrightarrow> mem (snd (wr a [b] m)) (unat a) \<in> {mem m (unat a), b}"
begin

lemma read_slots_spec:
  assumes "read_slots rd m = ((active, slots), m')"
  shows "mem m' = mem m" "active \<noteq> -2 \<Longrightarrow> active = active_slot (mem m) \<and> slots = [slot_of (mem m) 0, slot_of (mem m) 1]"
proof -
  have "in_slots SETTINGS_SLOT0 512" "in_slots SETTINGS_SLOT1 512"
    by (simp_all add: in_slots_def SETTINGS_SLOT0_def SETTINGS_SLOT1_def)
  note facts = this [THEN read_keeps] this [THEN read_contents]
  obtain r0 m0 where r0: "rd SETTINGS_SLOT0 512 m = (r0, m0)" by fastforce
  obtain r1 m1 where r1: "rd SETTINGS_SLOT1 512 m0 = (r1, m1)" by fastforce
  from facts(1) [of m] facts(2) [of m0] facts(3) [of m] facts(4) [of m0] assms r0 r1
  show "mem m' = mem m" "active \<noteq> -2 \<Longrightarrow> active = active_slot (mem m) \<and> slots = [slot_of (mem m) 0, slot_of (mem m) 1]"
    by (auto simp: read_slots_def active_slot_def slot_of_def SETTINGS_SLOT0_def SETTINGS_SLOT1_def split: option.splits)
qed

text \<open>A load returns the stored settings, or the defaults, or reports the failed read.\<close>

lemma load_stored:
  "settings_load rd m = ((rc, s), m') \<Longrightarrow> mem m' = mem m \<and>
     (rc = -1 \<and> s = settings_defaults \<or> rc = 0 \<and> stored (mem m) = None \<and> s = settings_defaults \<or>
      rc = 1 \<and> stored (mem m) = Some s)"
  using read_slots_spec [of m] active_slot_cases [of "mem m"]
  by (auto simp: settings_load_def stored_def Let_def split: prod.splits if_splits)

text \<open>The writes of a save: the commit byte alone, and the 511 bytes before it.\<close>

lemma write_commit_byte:
  assumes "t = target_addr k" "wr (t + 511) [v] m = (ok, m')"
  shows "mem m' = mem m \<and> \<not> ok \<or> mem m' = (mem m)(unat t + 511 := v)"
proof -
  have t: "unat (t + 511) = unat t + 511" "in_slots (t + 511) 1"
    unfolding assms(1) by (simp_all add: in_slots_def target_addr_def SETTINGS_SLOT0_def SETTINGS_SLOT1_def)
  have frame: "mem m' x = mem m x" if "x \<noteq> unat t + 511" for x
    using write_frame [of "t + 511" "[v]" x m] t that assms(2) by (simp add: linorder_neq_iff Suc_le_eq) linarith
  have written: "mem m' (unat t + 511) = v" if ok
    using write_done [of "t + 511" "[v]" m] t that assms(2) by (simp add: mem_image_def)
  have "mem m' (unat t + 511) \<in> {mem m (unat t + 511), v}"
    using write_byte [of "t + 511" v m] t assms(2) by simp
  then consider "mem m' (unat t + 511) = v" | "mem m' (unat t + 511) = mem m (unat t + 511)" "\<not> ok"
    using written by auto
  then show ?thesis
  proof cases
    case 1
    with frame have "mem m' = (mem m)(unat t + 511 := v)" by auto
    then show ?thesis ..
  next
    case 2
    with frame have "mem m' = mem m" by (intro ext) metis
    with 2(2) show ?thesis by simp
  qed
qed

lemma write_body:
  assumes "t = target_addr k" "length bs = 511" "wr t bs m = (ok, m')" "x < unat t \<or> unat t + 511 \<le> x"
  shows "mem m' x = mem m x"
  using write_frame [of t bs x m] assms
  by (simp add: in_slots_def target_addr_def SETTINGS_SLOT0_def SETTINGS_SLOT1_def)

lemma read_slot:
  assumes "t = target_addr k" "rd t 512 m = (r, m')"
  shows "mem m' = mem m" "r = Some bs \<Longrightarrow> bs = mem_image (mem m) (unat t) 512"
proof -
  have "in_slots t 512" unfolding assms(1)
    by (simp add: in_slots_def target_addr_def SETTINGS_SLOT0_def SETTINGS_SLOT1_def)
  from read_keeps [OF this, of m] read_contents [OF this, of m bs] assms(2)
  show "mem m' = mem m" "r = Some bs \<Longrightarrow> bs = mem_image (mem m) (unat t) 512" by auto
qed

text \<open>While the commit byte of the target slot is not set, the old settings stay stored.\<close>

lemma stored_uncommitted:
  assumes "same_but_target f g" "g (unat (target_addr (active_slot f)) + 511) \<noteq> COMMIT"
  shows "stored g = stored f"
proof (rule stored_target_invalid [OF assms(1)])
  show "\<not> record_valid (mem_image g (unat (target_addr (active_slot f))) 512)"
    using assms(2) by (auto dest!: record_valid_commit simp: nth_mem_image)
qed

lemma same_but_target_upd:
  "same_but_target f g \<Longrightarrow> same_but_target f (g(unat (target_addr (active_slot f)) + 511 := v))"
  by (simp add: same_but_target_def)

text \<open>The three writes in turn: clearing the commit byte, writing the body, setting the commit byte.\<close>

lemma clear_phase:
  assumes "t = target_addr (active_slot (mem m))" "wr (t + 511) [0] m = (ok, m')"
  shows "same_but_target (mem m) (mem m')" "stored (mem m') = stored (mem m)" "ok \<Longrightarrow> mem m' (unat t + 511) = 0"
proof -
  have refl: "same_but_target (mem m) (mem m)" by (simp add: same_but_target_def)
  from write_commit_byte [OF assms] consider "mem m' = mem m" "\<not> ok" | "mem m' = (mem m)(unat t + 511 := 0)" by blast
  then show "same_but_target (mem m) (mem m')" "stored (mem m') = stored (mem m)" "ok \<Longrightarrow> mem m' (unat t + 511) = 0"
    by (cases; use refl same_but_target_upd [OF refl] in \<open>simp add: assms(1) stored_uncommitted COMMIT_def\<close>)+
qed

lemma body_phase:
  assumes "t = target_addr (active_slot f)" "same_but_target f (mem m)" "mem m (unat t + 511) = 0"
    and "length bs = 511" "wr t bs m = (ok, m')"
  shows "same_but_target f (mem m')" "mem m' (unat t + 511) = 0" "stored (mem m') = stored f"
proof -
  show s: "same_but_target f (mem m')" and z: "mem m' (unat t + 511) = 0"
    using assms(2,3) write_body [OF assms(1,4,5)] by (simp_all add: same_but_target_def assms(1))
  from s z show "stored (mem m') = stored f" by (simp add: stored_uncommitted assms(1) COMMIT_def)
qed

lemma commit_phase:
  assumes "t = target_addr (active_slot f)" "same_but_target f (mem m)"
    and "mem_image (mem m) (unat t) 512 = settings_record (next_seq f) s" "stored (mem m) = stored f"
    and "settings_wf s" "settings_valid s" "wr (t + 511) [COMMIT] m = (ok, m')"
  shows "same_but_target f (mem m') \<and>
    (mem m' = mem m \<and> \<not> ok \<or> stored (mem m') = Some s \<and> record_valid (mem_image (mem m') (unat t) 512))"
proof -
  have set: "mem_image ((mem m)(unat t + 511 := COMMIT)) (unat t) 512 = committed (next_seq f) s"
    unfolding committed_def assms(3) [symmetric] by (auto simp: mem_image_def list_eq_iff_nth_eq nth_list_update)
  from write_commit_byte [OF assms(1,7)] consider "mem m' = mem m" "\<not> ok" | "mem m' = (mem m)(unat t + 511 := COMMIT)"
    by blast
  then show ?thesis
  proof cases
    case 1
    then show ?thesis using assms(2) by simp
  next
    case 2
    have "same_but_target f (mem m')" using same_but_target_upd [OF assms(2)] by (simp add: 2 assms(1))
    moreover from stored_target_committed [OF this _ assms(5,6)] set have "stored (mem m') = Some s"
      by (simp add: 2 assms(1))
    ultimately show ?thesis using set by (simp add: 2 record_valid_committed assms(5,6))
  qed
qed

text \<open>
  The outcome of a save. The new settings can be stored although \<open>-1\<close> is returned only when the last
  read failed, or when the last write failed after it had changed its byte.
\<close>

definition lossy :: bool where
  "lossy \<longleftrightarrow> (\<exists>m k. fst (rd (target_addr k) 512 m) = None \<or>
     \<not> fst (wr (target_addr k + 511) [COMMIT] m) \<and> mem (snd (wr (target_addr k + 511) [COMMIT] m)) \<noteq> mem m)"

lemma save_outcome:
  assumes "settings_wf s" "settings_save s rd wr m = (rc, m')"
  shows "same_but_target (mem m) (mem m') \<and>
    (rc = 0 \<and> stored (mem m') = Some s \<or> rc = -1 \<and> stored (mem m') = stored (mem m) \<or>
     rc = -1 \<and> stored (mem m') = Some s \<and> lossy)"
proof -
  have refl: "same_but_target (mem m) (mem m)" by (simp add: same_but_target_def)
  obtain active slots m0 where rs: "read_slots rd m = ((active, slots), m0)" by (metis surj_pair)
  show ?thesis
  proof (cases "settings_valid s \<and> active \<noteq> -2")
    case False
    with assms(2) rs read_slots_spec(1) [OF rs] refl show ?thesis
      by (auto simp: settings_save_def split: if_splits)
  next
    case True
    define f t b where "f = mem m" and "t = target_addr (active_slot f)" and "b = settings_record (next_seq f) s"
    from read_slots_spec [OF rs] True have act: "active = active_slot f" "slots = [slot_of f 0, slot_of f 1]" "mem m0 = f"
      by (simp_all add: f_def)
    have seq: "settings_record (if active < 0 then 0 else load_le32 (drop 8 (slots ! nat active)) + 1) s = b"
      using active_slot_cases [of f] by (auto simp: act next_seq_def b_def)
    have addr: "(if active = 0 then SETTINGS_SLOT1 else SETTINGS_SLOT0) = t" by (simp add: t_def target_addr_def act)
    have len: "length (take 511 b) = 511" using assms(1) by (simp add: b_def)
    obtain ok1 m1 where w1: "wr (t + 511) [0] m0 = (ok1, m1)" by fastforce
    obtain ok2 m2 where w2: "wr t (take 511 b) m1 = (ok2, m2)" by fastforce
    obtain r3 m3 where r3: "rd t 512 m2 = (r3, m3)" by fastforce
    obtain ok4 m4 where w4: "wr (t + 511) [COMMIT] m3 = (ok4, m4)" by fastforce
    obtain r5 m5 where r5: "rd t 512 m4 = (r5, m5)" by fastforce
    have p1: "same_but_target f (mem m1)" "stored (mem m1) = stored f" "ok1 \<Longrightarrow> mem m1 (unat t + 511) = 0"
      using clear_phase [OF _ w1] by (simp_all add: act t_def)
    have p2: "same_but_target f (mem m2)" "stored (mem m2) = stored f" if ok1
      using body_phase [OF t_def p1(1) p1(3) len w2] that by simp_all
    have p4: "same_but_target f (mem m4) \<and> (mem m4 = mem m3 \<and> \<not> ok4 \<or>
        stored (mem m4) = Some s \<and> record_valid (mem_image (mem m4) (unat t) 512))" if ok1 "r3 = Some b"
      using commit_phase [OF t_def _ _ _ assms(1) _ w4] p2 [OF that(1)] read_slot [OF t_def r3] that True
      by (simp add: b_def)
    have lossy4: lossy if "\<not> ok4" "mem m4 \<noteq> mem m3"
      using that w4 unfolding lossy_def t_def by (intro exI [of _ m3] exI [of _ "active_slot f"]) simp
    have lossy5: lossy if "r5 = None"
      using that r5 unfolding lossy_def t_def by (intro exI [of _ m4] exI [of _ "active_slot f"]) simp
    from settings_save_run [OF rs _ _ addr seq w1 w2 r3 w4 r5] True assms(2)
    have "(rc, m') = (if \<not> ok1 then (-1, m1) else if \<not> ok2 then (-1, m2) else if r3 \<noteq> Some b then (-1, m3)
     else if \<not> ok4 then (-1, m4) else if \<exists>v. r5 = Some v \<and> record_valid v then (0, m5) else (-1, m5))" by simp
    then consider "\<not> ok1" "rc = -1" "m' = m1" | "ok1" "rc = -1" "m' = m2 \<or> m' = m3"
      | "ok1" "r3 = Some b" "\<not> ok4" "rc = -1" "m' = m4"
      | v where "ok1" "r3 = Some b" "ok4" "r5 = Some v" "rc = (if record_valid v then 0 else -1)" "m' = m5"
      | "ok1" "r3 = Some b" "ok4" "r5 = None" "rc = -1" "m' = m5"
      by (cases r5) (auto split: if_splits)
    then show ?thesis
    proof cases
      case 1
      then show ?thesis using p1 by (simp add: f_def)
    next
      case 2
      then show ?thesis using p2 read_slot(1) [OF t_def r3] by (auto simp: f_def)
    next
      case 3
      then show ?thesis using p2 p4 lossy4 read_slot(1) [OF t_def r3] by (cases "mem m4 = mem m3") (auto simp: f_def)
    next
      case 4
      then show ?thesis using p4 read_slot [OF t_def r5] by (auto simp: f_def)
    next
      case 5
      then show ?thesis using p4 lossy5 read_slot(1) [OF t_def r5] by (auto simp: f_def)
    qed
  qed
qed

end

text \<open>
  Two stronger contracts: a driver that reads reliably and whose failing byte write leaves the byte
  (a write budget that runs out), and one that is up, so that every access succeeds.
\<close>

locale failstop_storage = storage +
  assumes read_total: "in_slots a n \<Longrightarrow> fst (rd a n m) \<noteq> None"
    and byte_fail: "in_slots a 1 \<Longrightarrow> \<not> fst (wr a [b] m) \<Longrightarrow> mem (snd (wr a [b] m)) (unat a) = mem m (unat a)"
begin

lemma not_lossy: "\<not> lossy"
proof
  assume lossy
  then obtain m k where "fst (rd (target_addr k) 512 m) = None \<or>
    \<not> fst (wr (target_addr k + 511) [COMMIT] m) \<and> mem (snd (wr (target_addr k + 511) [COMMIT] m)) \<noteq> mem m"
    unfolding lossy_def by blast
  moreover have slot: "in_slots (target_addr k) 512" "in_slots (target_addr k + 511) 1"
    by (simp_all add: in_slots_def target_addr_def SETTINGS_SLOT0_def SETTINGS_SLOT1_def)
  moreover have "mem (snd (wr (target_addr k + 511) [COMMIT] m)) = mem m"
    if "\<not> fst (wr (target_addr k + 511) [COMMIT] m)"
  proof
    fix x
    show "mem (snd (wr (target_addr k + 511) [COMMIT] m)) x = mem m x"
      using byte_fail [OF slot(2) that] write_frame [of "target_addr k + 511" "[COMMIT]" x m] slot(2)
      by (cases "x = unat (target_addr k + 511)") (auto simp: linorder_neq_iff Suc_le_eq)
  qed
  ultimately show False using read_total by blast
qed

lemma save_exact:
  "settings_wf s \<Longrightarrow> settings_save s rd wr m = (rc, m') \<Longrightarrow>
   rc = 0 \<and> stored (mem m') = Some s \<or> rc = -1 \<and> stored (mem m') = stored (mem m)"
  using save_outcome not_lossy by blast

end

locale reliable_storage = storage +
  fixes up :: "'a \<Rightarrow> bool"
  assumes read_up: "up m \<Longrightarrow> in_slots a n \<Longrightarrow> fst (rd a n m) \<noteq> None \<and> up (snd (rd a n m))"
    and write_up: "up m \<Longrightarrow> in_slots a (length bs) \<Longrightarrow> fst (wr a bs m) \<and> up (snd (wr a bs m))"

begin

lemma up_accesses:
  assumes "up m" "t = target_addr k"
  shows "\<exists>bs. rd t 512 m = (Some bs, snd (rd t 512 m))" "up (snd (rd t 512 m))"
    "wr (t + 511) [v] m = (True, snd (wr (t + 511) [v] m))" "up (snd (wr (t + 511) [v] m))"
    "length bs = 511 \<Longrightarrow> wr t bs m = (True, snd (wr t bs m))" "length bs = 511 \<Longrightarrow> up (snd (wr t bs m))"
proof -
  have slot: "in_slots t 512" "in_slots (t + 511) (length [v])" "length bs = 511 \<Longrightarrow> in_slots t (length bs)"
    unfolding assms(2) by (simp_all add: in_slots_def target_addr_def SETTINGS_SLOT0_def SETTINGS_SLOT1_def)
  note r = read_up [OF assms(1) slot(1)] and w = write_up [OF assms(1) slot(2)] and b = write_up [OF assms(1) slot(3)]
  show "\<exists>bs. rd t 512 m = (Some bs, snd (rd t 512 m))"
    using r by (auto simp: prod_eq_iff)
  show "wr (t + 511) [v] m = (True, snd (wr (t + 511) [v] m))" "length bs = 511 \<Longrightarrow> wr t bs m = (True, snd (wr t bs m))"
    using w b by (simp_all add: prod_eq_iff)
  show "up (snd (rd t 512 m))" "up (snd (wr (t + 511) [v] m))" "length bs = 511 \<Longrightarrow> up (snd (wr t bs m))"
    using r w b by simp_all
qed

lemma read_slots_up:
  assumes "up m"
  shows "\<exists>m'. read_slots rd m = ((active_slot (mem m), [slot_of (mem m) 0, slot_of (mem m) 1]), m') \<and> up m' \<and> mem m' = mem m"
proof -
  obtain active slots m' where rs: "read_slots rd m = ((active, slots), m')" by (metis surj_pair)
  have "SETTINGS_SLOT0 = target_addr 1" "SETTINGS_SLOT1 = target_addr 0" by (simp_all add: target_addr_def)
  note up0 = up_accesses(1,2) [OF assms this(1)] and up1 = up_accesses(1,2) [OF _ this(2)]
  from up0 up1 [of "snd (rd SETTINGS_SLOT0 512 m)"] obtain b0 b1 m0 m1 where
    "rd SETTINGS_SLOT0 512 m = (Some b0, m0)" "rd SETTINGS_SLOT1 512 m0 = (Some b1, m1)" "up m1" by auto
  with rs have "active = select_slot b0 b1" "up m'" by (auto simp: read_slots_def)
  moreover from this(1) have "active \<noteq> -2" by (simp add: select_slot_def Let_def)
  ultimately show ?thesis using read_slots_spec [OF rs] rs by simp
qed

lemma save_succeeds:
  assumes "up m" "settings_wf s" "settings_valid s"
  shows "\<exists>m'. settings_save s rd wr m = (0, m') \<and> up m'"
proof -
  define f t b where "f = mem m" and "t = target_addr (active_slot f)" and "b = settings_record (next_seq f) s"
  obtain m0 where rs: "read_slots rd m = ((active_slot f, [slot_of f 0, slot_of f 1]), m0)" "up m0" "mem m0 = f"
    using read_slots_up [OF assms(1)] unfolding f_def by blast
  have seq: "settings_record (if active_slot f < 0 then 0 else load_le32 (drop 8 ([slot_of f 0, slot_of f 1] ! nat (active_slot f))) + 1) s = b"
    using active_slot_cases [of f] by (auto simp: next_seq_def b_def)
  have len: "length (take 511 b) = 511" using assms(2) by (simp add: b_def)
  note up = up_accesses [OF _ t_def]
  obtain m1 where w1: "wr (t + 511) [0] m0 = (True, m1)" "up m1" using up(3,4) [OF rs(2)] by metis
  obtain m2 where w2: "wr t (take 511 b) m1 = (True, m2)" "up m2" using up(5,6) [OF w1(2) len] by metis
  obtain b3 m3 where r3: "rd t 512 m2 = (Some b3, m3)" "up m3" using up(1,2) [OF w2(2)] by metis
  obtain m4 where w4: "wr (t + 511) [COMMIT] m3 = (True, m4)" "up m4" using up(3,4) [OF r3(2)] by metis
  obtain b5 m5 where r5: "rd t 512 m4 = (Some b5, m5)" "up m5" using up(1,2) [OF w4(2)] by metis
  have p1: "same_but_target f (mem m1)" "mem m1 (unat t + 511) = 0"
    using clear_phase [OF _ w1(1)] rs(3) by (simp_all add: t_def)
  note p2 = body_phase [OF t_def p1 len w2(1)]
  have "mem_image (mem m2) (unat t) (length (take 511 b)) = take 511 b"
    using write_done [of t "take 511 b" m1] w2(1) len
    by (simp add: in_slots_def t_def target_addr_def SETTINGS_SLOT0_def SETTINGS_SLOT1_def)
  then have body: "mem_image (mem m2) (unat t) 511 = take 511 b" by (simp only: len)
  have "mem_image (mem m2) (unat t) 512 = mem_image (mem m2) (unat t) 511 @ [mem m2 (unat t + 511)]"
    using upt_Suc_append [of 0 511] by (simp add: mem_image_def)
  also have "\<dots> = take 511 b @ [0]" by (simp only: body p2(2))
  also have "\<dots> = b" using assms(2) by (simp add: b_def settings_record_eq)
  finally have "b3 = b" "mem_image (mem m3) (unat t) 512 = b" using read_slot [OF t_def r3(1)] by simp_all
  moreover from this(2) commit_phase [OF t_def _ _ _ assms(2,3) w4(1)] p2 read_slot(1) [OF t_def r3(1)]
  have "record_valid b5" using read_slot(2) [OF t_def r5(1)] by (simp add: b_def)
  ultimately show ?thesis
    using settings_save_run [OF rs(1) assms(3) _ _ seq w1(1) w2(1) r3(1) w4(1) r5(1)] active_slot_cases [of f] r5(2)
    by (auto simp: t_def target_addr_def)
qed

lemma load_up:
  assumes "up m" "stored (mem m) = Some s"
  shows "fst (settings_load rd m) = (1, s)"
proof -
  obtain rc v m' where load: "settings_load rd m = ((rc, v), m')" by (metis prod.exhaust)
  have "rc \<noteq> -1" using load read_slots_up [OF assms(1)] active_slot_cases [of "mem m"] by (auto simp: settings_load_def split: if_splits)
  then show ?thesis using load_stored [OF load] load assms(2) by auto
qed

lemma save_reload:
  assumes "up m" "settings_wf s" "settings_valid s"
  shows "\<exists>m'. settings_save s rd wr m = (0, m') \<and> up m' \<and> stored (mem m') = Some s \<and> fst (settings_load rd m') = (1, s)"
proof -
  from save_succeeds [OF assms] obtain m' where save: "settings_save s rd wr m = (0, m')" "up m'" by blast
  then have "stored (mem m') = Some s" using save_outcome [OF assms(2) save(1)] by simp
  with save load_up [OF save(2)] show ?thesis by blast
qed

end

section \<open>The checksum\<close>

lemma crc_bit_eq: "crc_bit c = drop_bit 1 c XOR (if odd c then 0xedb88320 else 0)"
  by (simp add: crc_bit_def and_one_eq odd_iff_mod_2_eq_one)

lemma xor_cancel: "(a XOR c = b XOR c) = (a = b)" "(c XOR a = c XOR b) = (a = (b :: 'a::ring_bit_operations))"
  by (metis xor.assoc xor_self_eq xor.right_neutral) (metis xor.assoc xor_self_eq xor.left_neutral)

lemma inj_crc_bit: "inj crc_bit"
proof (rule injI)
  fix c d assume eq: "crc_bit c = crc_bit d"
  have "\<not> bit x 32" for x :: u32 using bit_imp_le_length [of x 32] by auto
  moreover have "bit (0xedb88320 :: u32) 31" by simp
  ultimately have top: "bit (crc_bit x) 31 = odd x" for x
    by (simp add: crc_bit_eq bit_xor_iff bit_drop_bit_eq del: bit_numeral_word_iff)
  with eq have odd: "odd c = odd d" by metis
  with eq have "drop_bit 1 c = drop_bit 1 d" by (simp add: crc_bit_eq xor_cancel split: if_splits)
  then have "bit c (Suc n) = bit d (Suc n)" for n by (metis bit_drop_bit_eq comp_apply plus_1_eq_Suc)
  moreover have "bit c 0 = bit d 0" using odd by (simp add: bit_0)
  ultimately have "bit c n = bit d n" for n by (cases n) simp_all
  then show "c = d" by (intro bit_word_eqI) simp
qed

lemma crc_byte_inj: "crc_byte c b = crc_byte d b \<longleftrightarrow> c = d" "crc_byte c a = crc_byte c b \<longleftrightarrow> a = b"
proof -
  have inj: "inj (crc_bit ^^ 8)" using inj_fn [OF inj_crc_bit] .
  have "ucast a = (ucast b :: u32) \<longleftrightarrow> a = b"
    using unat_u8_less [of a] unat_u8_less [of b] by (simp add: word_unat_eq_iff unat_ucast_mod)
  then show "crc_byte c b = crc_byte d b \<longleftrightarrow> c = d" "crc_byte c a = crc_byte c b \<longleftrightarrow> a = b"
    by (simp_all add: crc_byte_def inj_eq [OF inj] xor_cancel)
qed

lemma foldl_crc_inj: "foldl crc_byte c p = foldl crc_byte d p \<longleftrightarrow> c = d"
  by (induction p arbitrary: c d) (simp_all add: crc_byte_inj)

text \<open>Two texts that differ in one byte have different checksums.\<close>

lemma crc_one_byte:
  assumes "i < length p" "p ! i \<noteq> v"
  shows "crc (p[i := v]) \<noteq> crc p"
proof -
  have "p = take i p @ p ! i # drop (Suc i) p" "p[i := v] = take i p @ v # drop (Suc i) p"
    using assms(1) by (simp_all add: id_take_nth_drop upd_conv_take_nth_drop)
  then have "foldl crc_byte c p = foldl crc_byte (crc_byte (foldl crc_byte c (take i p)) (p ! i)) (drop (Suc i) p)"
    "foldl crc_byte c (p[i := v]) = foldl crc_byte (crc_byte (foldl crc_byte c (take i p)) v) (drop (Suc i) p)" for c
    by (metis foldl_append foldl_Cons)+
  then show ?thesis using assms(2) by (simp add: crc_def foldl_crc_inj crc_byte_inj) 
qed

text \<open>The stored checksum and the commit byte: every byte but the three of padding is protected.\<close>

lemma record_valid_crc:
  assumes "record_valid b"
  shows "load_le32 (drop 504 b) = crc (take 504 b)" "b ! 511 = COMMIT"
  using assms by (simp_all add: record_valid_def split: if_splits)

lemma corrupt_body:
  assumes "record_valid b" "length b = 512" "i < 504" "b ! i \<noteq> v"
  shows "\<not> record_valid (b[i := v])"
proof
  assume *: "record_valid (b[i := v])"
  have "crc ((take 504 b)[i := v]) = crc (take 504 b)"
    using record_valid_crc(1) [OF *] record_valid_crc(1) [OF assms(1)] assms(3) by (simp add: take_update_swap)
  then show False using crc_one_byte [of i "take 504 b" v] assms(2-4) by simp
qed

lemma corrupt_crc:
  assumes "record_valid b" "length b = 512" "504 \<le> i" "i < 508" "b ! i \<noteq> v"
  shows "\<not> record_valid (b[i := v])"
proof
  assume *: "record_valid (b[i := v])"
  obtain k where k: "i = 504 + k" "k < 4" using assms(3,4) by (metis le_Suc_ex nat_add_left_cancel_less numeral_plus_numeral add_num_simps(1-8))
  have "load_le32 ((drop 504 b)[k := v]) = load_le32 (drop 504 b)"
    using record_valid_crc(1) [OF *] record_valid_crc(1) [OF assms(1)] by (simp add: k drop_update_swap)
  then have "take 4 ((drop 504 b)[k := v]) = take 4 (drop 504 b)"
    using store_load_le32 [of "drop 504 b"] store_load_le32 [of "(drop 504 b)[k := v]"] assms(2) by simp
  then have "take 4 ((drop 504 b)[k := v]) ! k = take 4 (drop 504 b) ! k" by simp
  then show False using assms(2,5) k by simp
qed

lemma corrupt_padding:
  assumes "508 \<le> i" "i < 511" "length b = 512"
  shows "unpack s (b[i := v]) = unpack s b"
  using assms by (simp add: unpack_def sub_array_def drop_update_swap take_update_swap list_update_beyond)

section \<open>The memory of the power-failure test\<close>

text \<open>
  \<open>read_mem\<close>/\<open>write_mem\<close> of \<open>tb/test_settings.c\<close>: an EEPROM image and a write budget, which counts down
  per byte and fails the write when it reaches zero; a negative budget is unlimited. A violated
  assertion ends the test, here: the access fails and changes nothing.
\<close>

record test_mem =
  tm_memory :: "nat \<Rightarrow> u8"
  tm_budget :: int

definition read_mem :: "test_mem settings_read" where
  "read_mem a n st = (if unat a + n \<le> 8192 then Some (mem_image (tm_memory st) (unat a) n) else None, st)"

fun write_mem_loop :: "nat \<Rightarrow> bytes \<Rightarrow> test_mem \<Rightarrow> bool \<times> test_mem" where
  "write_mem_loop a [] st = (True, st)"
| "write_mem_loop a (b # bs) st =
     (if tm_budget st = 0 then (False, st)
      else write_mem_loop (a + 1) bs
        (st\<lparr>tm_budget := (if 0 < tm_budget st then tm_budget st - 1 else tm_budget st),
            tm_memory := (tm_memory st)(a := b)\<rparr>))"

definition write_mem :: "test_mem settings_write" where
  "write_mem a bs st =
     (if unat a < 4096 \<or> 5120 < unat a + length bs then (False, st) else write_mem_loop (unat a) bs st)"

lemma write_mem_loop_frame:
  "x < a \<or> a + length bs \<le> x \<Longrightarrow> tm_memory (snd (write_mem_loop a bs st)) x = tm_memory st x"
  by (induction a bs st rule: write_mem_loop.induct) auto

lemma mem_image_Suc: "mem_image f a (Suc n) = f a # mem_image f (Suc a) n"
  by (auto simp: list_eq_iff_nth_eq nth_mem_image nth_Cons split: nat.splits)

lemma write_mem_loop_done:
  "fst (write_mem_loop a bs st) \<Longrightarrow> mem_image (tm_memory (snd (write_mem_loop a bs st))) a (length bs) = bs"
proof (induction a bs st rule: write_mem_loop.induct)
  case (2 a b bs st)
  then show ?case
    by (auto simp: mem_image_Suc write_mem_loop_frame split: if_splits)
qed (simp add: mem_image_def)

lemma write_mem_loop_up:
  "tm_budget st < 0 \<Longrightarrow> fst (write_mem_loop a bs st) \<and> tm_budget (snd (write_mem_loop a bs st)) < 0"
  by (induction a bs st rule: write_mem_loop.induct) simp_all

lemmas slot_range = in_slots_def SETTINGS_SLOT0_def SETTINGS_SLOT1_def

interpretation test: failstop_storage read_mem write_mem tm_memory
proof unfold_locales
  fix a and bs :: bytes and m x assume "in_slots a (length bs)" "x < unat a \<or> unat a + length bs \<le> x"
  then show "tm_memory (snd (write_mem a bs m)) x = tm_memory m x"
    by (simp add: write_mem_def write_mem_loop_frame)
next
  fix a and bs :: bytes and m assume "in_slots a (length bs)" "fst (write_mem a bs m)"
  then show "mem_image (tm_memory (snd (write_mem a bs m))) (unat a) (length bs) = bs"
    by (auto simp: write_mem_def write_mem_loop_done split: if_splits)
qed (auto simp: read_mem_def write_mem_def slot_range split: if_splits)

interpretation test_up: reliable_storage read_mem write_mem tm_memory "\<lambda>st. tm_budget st < 0"
  by unfold_locales (auto simp: read_mem_def write_mem_def slot_range write_mem_loop_up)

section \<open>Loads\<close>

lemma string_ok_iff:
  "string_ok s \<longleftrightarrow> 0 \<in> set s \<and> (\<forall>c \<in> set (cstr s). 32 \<le> c \<and> c \<le> 126 \<and> c \<noteq> 0x22 \<and> c \<noteq> 0x5C)"
  by (induction s) (auto simp: cstr_def)

lemma zero_string: "0 < n \<Longrightarrow> string_ok (replicate n 0)" "cstr (replicate n 0) = []"
  by (cases n; simp add: cstr_def)+

lemma settings_defaults_valid: "settings_valid settings_defaults" "settings_wf settings_defaults"
  by (simp_all add: settings_valid_def settings_wf_def settings_defaults_def zero_string upt_rec)

lemma select_slot_valid:
  "0 \<le> select_slot b0 b1 \<Longrightarrow> settings_valid (unpack settings_defaults ([b0, b1] ! nat (select_slot b0 b1)))"
  by (simp add: select_slot_def record_valid_def Let_def split: if_splits)

text \<open>An erased EEPROM, with a write budget.\<close>

definition blank_mem :: "int \<Rightarrow> test_mem" where
  "blank_mem n = \<lparr>tm_memory = \<lambda>_. 0xff, tm_budget = n\<rparr>"

lemma test_load: "fst (settings_load read_mem st) =
    (case stored (tm_memory st) of None \<Rightarrow> (0, settings_defaults) | Some s \<Rightarrow> (1, s))"
proof -
  obtain rc s st' where l: "settings_load read_mem st = ((rc, s), st')" by (metis surj_pair)
  have "rc \<noteq> -1"
    using l by (auto simp: settings_load_def read_slots_def read_mem_def SETTINGS_SLOT0_def SETTINGS_SLOT1_def
        select_slot_def Let_def split: if_splits)
  with test.load_stored [OF l] l show ?thesis by auto
qed

section \<open>Properties\<close>

lemma load_valid:
  "settings_valid (snd (fst (settings_load read m))) \<and> fst (fst (settings_load read m)) \<in> {-1, 0, 1}"
  using select_slot_valid settings_defaults_valid(1)
  by (auto simp: settings_load_def read_slots_def Let_def not_less split: prod.splits option.splits if_splits)

lemma load_lengths:
  "length (ms_host (snd (fst (settings_load read m)))) \<le> 96 \<and> length (ms_worker (snd (fst (settings_load read m)))) \<le> 128"
  by (auto simp: settings_load_def settings_defaults_def unpack_def sub_array_def split_def Let_def)

text \<open>
  C9. Saving is atomic under power failure. For every driver that keeps the storage contract, whatever
  accesses fail: when a save returns \<open>0\<close> the next successful load returns the new settings, and when it
  returns \<open>-1\<close> the next successful load returns either the new settings or exactly what a load returned
  before, never a mixture; memory outside the two slots is untouched.
\<close>

theorem settings_save_atomic:
  assumes "storage rd wr mem" and "settings_wf s"
    and "settings_load rd m = (old, m0)" "fst old \<noteq> -1"
    and "settings_save s rd wr m = (rc, m')" "mem m'' = mem m'"
    and "settings_load rd m'' = (new, m1)" "fst new \<noteq> -1"
  shows "(rc = 0 \<and> new = (1, s) \<or> rc = -1 \<and> new \<in> {old, (1, s)}) \<and>
    (\<forall>x. x < 0x1000 \<or> 0x1400 \<le> x \<longrightarrow> mem m' x = mem m x)"
proof -
  note save = storage.save_outcome [OF assms(1,2,5)] and load = storage.load_stored [OF assms(1)]
  have "mem m' x = mem m x" if "x < 0x1000 \<or> 0x1400 \<le> x" for x
    using save that by (auto simp: same_but_target_def target_addr_def slot_range)
  moreover have "rc = 0 \<and> new = (1, s) \<or> rc = -1 \<and> new \<in> {old, (1, s)}"
    using save load [of m "fst old" "snd old"] load [of m'' "fst new" "snd new"] assms(3,4,6-)
    by (cases old; cases new) auto
  ultimately show ?thesis by blast
qed

theorem settings_save_atomic_witness:
  "fst (settings_load read_mem (snd (settings_save settings_defaults read_mem write_mem (blank_mem (-1))))) =
     (1, settings_defaults)"
proof -
  let ?st = "blank_mem (-1)" and ?s = settings_defaults
  let ?st' = "snd (settings_save ?s read_mem write_mem ?st)"
  have "fst (settings_save ?s read_mem write_mem ?st) = 0"
    using test_up.save_succeeds [of ?st ?s] by (auto simp: blank_mem_def settings_defaults_valid)
  moreover have ok: "fst (fst (settings_load read_mem st)) \<noteq> -1" for st
    by (simp add: test_load split: option.splits)
  ultimately show ?thesis
    using settings_save_atomic [OF test.storage_axioms settings_defaults_valid(2) surjective_pairing ok
        surjective_pairing refl surjective_pairing ok, of ?st] by simp
qed

text \<open>
  C10. A save on a driver whose accesses all succeed returns \<open>0\<close>, for every valid value of the settings
  type, and the next load returns exactly the saved value: read-back verification and the final record
  check never reject what was written, and the new record is the one selected.
\<close>

theorem settings_save_reload:
  assumes "reliable_storage rd wr mem up" and "up m" "settings_wf s" "settings_valid s"
  shows "\<exists>m'. settings_save s rd wr m = (0, m') \<and> fst (settings_load rd m') = (1, s)"
  using reliable_storage.save_reload [OF assms] by blast

theorem settings_save_reload_witness:
  "\<exists>m'. settings_save settings_defaults read_mem write_mem (blank_mem (-1)) = (0, m') \<and> fst (settings_load read_mem m') = (1, settings_defaults)"
  using settings_save_reload [OF test_up.reliable_storage_axioms, of "blank_mem (-1)" settings_defaults]
  by (simp add: blank_mem_def settings_defaults_valid)

text \<open>
  C11. The power-failure test, for every settings value, memory image and write budget and not only the
  ones it tries: after an interrupted save a load returns the new settings if the save returned \<open>0\<close>
  and exactly what it returned before otherwise.
\<close>

theorem settings_save_interrupted:
  assumes "settings_wf s" "settings_save s read_mem write_mem st = (rc, st')"
  shows "fst (settings_load read_mem st') = (if rc = 0 then (1, s) else fst (settings_load read_mem st))"
  using test.save_exact [OF assms] by (auto simp: test_load)

theorem settings_save_interrupted_witness:
  "fst (settings_save settings_defaults read_mem write_mem (blank_mem 0)) = -1 \<and>
   fst (settings_load read_mem (snd (settings_save settings_defaults read_mem write_mem (blank_mem 0)))) =
     fst (settings_load read_mem (blank_mem 0))"
proof -
  have "write_mem a [0] (blank_mem 0) = (False, blank_mem 0)" for a
    by (simp add: write_mem_def blank_mem_def)
  then have "fst (settings_save settings_defaults read_mem write_mem (blank_mem 0)) = -1"
    by (simp add: settings_save_def read_slots_def read_mem_def Let_def)
  with settings_save_interrupted [OF settings_defaults_valid(2) surjective_pairing, of "blank_mem 0"]
  show ?thesis by simp
qed

text \<open>
  Whatever the driver returns, a load delivers settings that pass validation (the defaults when no
  record is valid or a read fails).
\<close>

theorem settings_load_valid:
  "settings_valid (snd (fst (settings_load read m))) \<and> fst (fst (settings_load read m)) \<in> {-1, 0, 1}"
  by (rule load_valid)

text \<open>
  C13. Integrity: changing any one byte of a valid record either makes it invalid or leaves the settings
  it holds unchanged (the three padding bytes after the checksum).
\<close>

theorem record_corruption_detected:
  assumes "record_valid b" "length b = 512" "record_valid (b[i := v])"
  shows "unpack s (b[i := v]) = unpack s b"
proof -
  consider "b ! i = v" | "512 \<le> i" | "b ! i \<noteq> v" "i < 504" | "b ! i \<noteq> v" "504 \<le> i" "i < 508"
    | "508 \<le> i" "i < 511" | "b ! i \<noteq> v" "i = 511" by linarith
  then show ?thesis
  proof cases
    case 6
    with assms(3) record_valid_crc(2) [OF assms(1)] record_valid_crc(2) [OF assms(3)] assms(2) show ?thesis by simp
  qed (use assms corrupt_body corrupt_crc corrupt_padding in \<open>auto simp: list_update_beyond\<close>)
qed

theorem record_corruption_detected_witness:
  "record_valid (committed 7 settings_defaults) \<and> record_valid ((committed 7 settings_defaults)[509 := 0xee]) \<and>
   unpack settings_defaults ((committed 7 settings_defaults)[509 := 0xee]) = settings_defaults"
proof -
  let ?b = "committed 7 settings_defaults"
  have b: "record_valid ?b" "length ?b = 512"
    by (simp_all add: record_valid_committed settings_defaults_valid) (simp add: committed_def settings_defaults_valid)
  then have "record_valid (?b[509 := 0xee])"
    by (simp add: record_valid_def corrupt_padding drop_update_swap load_le32_def split: if_splits)
  with b record_corruption_detected [OF b this] show ?thesis
    by (simp add: unpack_committed settings_defaults_valid)
qed

end
