(* ===== verification/Srec.thy ===== *)
theory Srec
  imports Bitcoin
begin

text \<open>
  \<open>common/srec.c\<close>: the parser of one Motorola S-record, with which the bootloader reads the
  application from flash. The record is passed in and returned, since the code fills it while it
  still checks the line. The reference reads the line as hexadecimal bytes (\<open>hex_value\<close>): byte count,
  big-endian address, data and checksum.
\<close>

section \<open>The code\<close>

record srec_record =
  sr_address :: u32
  sr_data :: bytes
  sr_size :: nat
  sr_type :: nat

definition srec_hex :: "u8 \<Rightarrow> int" where
  "srec_hex c =
     (if 0x30 \<le> c \<and> c \<le> 0x39 then uint c - 0x30
      else if 0x61 \<le> c \<and> c \<le> 0x66 then uint c - 0x61 + 10
      else if 0x41 \<le> c \<and> c \<le> 0x46 then uint c - 0x41 + 10
      else -1)"

definition srec_byte :: "u8 \<Rightarrow> u8 \<Rightarrow> int" where
  "srec_byte p0 p1 = (let a = srec_hex p0; b = srec_hex p1 in if a < 0 \<or> b < 0 then -1 else a * 16 + b)"

fun srec_naddr :: "nat \<Rightarrow> nat option" where
  "srec_naddr t =
     (if t \<in> {0, 1, 5, 9} then Some 2 else if t \<in> {2, 6, 8} then Some 3 else if t \<in> {3, 7} then Some 4 else None)"

declare srec_naddr.simps [simp del]

text \<open>
  The loop over the bytes after the count, from index \<open>i\<close>; \<open>None\<close> is the early \<open>-1\<close> return. A line of
  the checked size has whole pairs of characters.
\<close>

definition srec_store :: "nat \<Rightarrow> nat \<Rightarrow> nat \<Rightarrow> int \<Rightarrow> srec_record \<Rightarrow> srec_record" where
  "srec_store naddr count i v r =
     (if i < naddr then r\<lparr>sr_address := push_bit 8 (sr_address r) OR of_int v\<rparr>
      else if i < count - 1 then r\<lparr>sr_data := (sr_data r)[i - naddr := of_int v]\<rparr>
      else r)"

fun srec_loop :: "nat \<Rightarrow> nat \<Rightarrow> nat \<Rightarrow> bytes \<Rightarrow> u32 \<Rightarrow> srec_record \<Rightarrow> u32 option \<times> srec_record" where
  "srec_loop naddr count i (p0 # p1 # p) chksum r =
     (let v = srec_byte p0 p1
      in if v < 0 then (None, r)
         else srec_loop naddr count (i + 1) p (chksum + of_int v) (srec_store naddr count i v r))"
| "srec_loop naddr count i p chksum r = (Some chksum, r)"

definition srec_parse :: "bytes \<Rightarrow> srec_record \<Rightarrow> int \<times> srec_record" where
  "srec_parse line r =
     (if length line < 4 \<or> line ! 0 \<noteq> 0x53 \<or> line ! 1 < 0x30 \<or> 0x39 < line ! 1 then (-1, r)
      else let r = r\<lparr>sr_type := unat (line ! 1) - 0x30\<rparr>
      in case srec_naddr (sr_type r) of
        None \<Rightarrow> (-1, r)
      | Some naddr \<Rightarrow>
          (let count = srec_byte (line ! 2) (line ! 3)
           in if count < int naddr + 1 \<or> int (length line) \<noteq> 4 + 2 * count then (-1, r)
           else let r = r\<lparr>sr_address := 0, sr_size := nat count - naddr - 1\<rparr>
           in if 5 \<le> sr_type r \<and> sr_size r \<noteq> 0 then (-1, r)
           else (case srec_loop naddr (nat count) 0 (drop 4 line) (of_int count) r of
             (None, r) \<Rightarrow> (-1, r)
           | (Some chksum, r) \<Rightarrow> (if chksum AND 255 = 255 then 0 else -1, r))))"

section \<open>Reference definitions\<close>

definition be_val :: "bytes \<Rightarrow> nat" where
  "be_val bs = foldl (\<lambda>a b. 256 * a + unat b) 0 bs"

text \<open>
  The address field of each record type in the format: two bytes in S0, S1, S5 and S9, three in S2, S6 and S8, four in S3 and
  S7; S4 is reserved. A valid record of type \<open>t\<close> has the bytes count, address, data, checksum.
\<close>

definition address_size :: "nat \<Rightarrow> nat option" where
  "address_size t = map_of [(0, 2), (1, 2), (2, 3), (3, 4), (5, 2), (6, 3), (7, 4), (8, 3), (9, 2)] t"

definition srec_line :: "bytes \<Rightarrow> nat \<Rightarrow> bytes \<Rightarrow> bytes \<Rightarrow> bool" where
  "srec_line line t addr data \<longleftrightarrow>
     (\<exists>hx cnt chk. line = 0x53 # (0x30 + of_nat t) # hx \<and> t \<le> 9 \<and> hex_valid hx \<and> even (length hx) \<and>
        hex_value hx = cnt # addr @ data @ [chk] \<and>
        address_size t = Some (length addr) \<and> unat cnt = length addr + length data + 1 \<and> (5 \<le> t \<longrightarrow> data = []) \<and>
        sum_list (map unat (hex_value hx)) mod 256 = 255)"

section \<open>Bytes of the line\<close>

lemma address_size_code [simp]: "address_size t = srec_naddr t"
  by (simp add: address_size_def srec_naddr.simps)

lemma uint_minus_le: "k \<le> c \<Longrightarrow> uint (c - k) = uint c - uint (k :: u8)"
  by (simp add: uint_minus_simple_alt)

lemma srec_hex_digit: "srec_hex c = (case hex_digit c of None \<Rightarrow> -1 | Some v \<Rightarrow> uint v)"
proof -
  have "uint (c - 0x61 + 10) = uint c - 0x61 + 10" if "0x61 \<le> c"
    using uint_minus_le [of "0x57" c] that by (simp add: word_le_def)
  moreover have "uint (c - 0x41 + 10) = uint c - 0x41 + 10" if "0x41 \<le> c"
    using uint_minus_le [of "0x37" c] that by (simp add: word_le_def)
  ultimately show ?thesis using uint_minus_le [of "0x30" c] by (simp add: srec_hex_def hex_digit_def)
qed

lemma srec_byte_value:
  "srec_byte a b = (if hex_digit a = None \<or> hex_digit b = None then -1
     else 16 * uint (the (hex_digit a)) + uint (the (hex_digit b)))"
  by (auto simp: srec_byte_def srec_hex_digit Let_def not_less split: option.splits)

lemma hex_pair_unat:
  assumes "hex_digit a = Some v" "hex_digit b = Some w"
  shows "unat (of_nat (16 * unat v + unat w) :: u8) = 16 * unat v + unat w"
  using hex_digit_less [OF assms(1)] hex_digit_less [OF assms(2)] by (subst unat_of_nat) simp

definition srec_stores :: "nat \<Rightarrow> nat \<Rightarrow> nat \<Rightarrow> bytes \<Rightarrow> srec_record \<Rightarrow> srec_record" where
  "srec_stores naddr count i bs r = fold (\<lambda>(i, b). srec_store naddr count i (uint b)) (enumerate i bs) r"

lemma srec_stores_simps [simp]:
  "srec_stores naddr count i [] r = r"
  "srec_stores naddr count i (b # bs) r = srec_stores naddr count (Suc i) bs (srec_store naddr count i (uint b) r)"
  "srec_stores naddr count i (bs @ cs) r = srec_stores naddr count (i + length bs) cs (srec_stores naddr count i bs r)"
  by (simp_all add: srec_stores_def enumerate_append_eq)

lemma srec_loop_valid:
  "hex_valid p \<Longrightarrow> even (length p) \<Longrightarrow> srec_loop naddr count i p chksum r =
     (Some (chksum + of_nat (sum_list (map unat (hex_value p)))), srec_stores naddr count i (hex_value p) r)"
proof (induction naddr count i p chksum r rule: srec_loop.induct)
  case (1 naddr count i p0 p1 p chksum r)
  then obtain v w where vw: "hex_digit p0 = Some v" "hex_digit p1 = Some w" by auto
  let ?b = "of_nat (16 * unat v + unat w) :: u8"
  have "uint ?b = int (unat ?b)" by simp
  also have "\<dots> = int (16 * unat v + unat w)" by (simp only: hex_pair_unat [OF vw])
  also have "\<dots> = 16 * uint v + uint w" by simp
  finally have "uint ?b = 16 * uint v + uint w" .
  with vw have "srec_byte p0 p1 = uint ?b \<and> hex_value (p0 # p1 # p) = ?b # hex_value p"
    by (simp add: srec_byte_value)
  then obtain b where b: "srec_byte p0 p1 = uint b" "hex_value (p0 # p1 # p) = b # hex_value p" by blast
  have p: "hex_valid p" "even (length p)" using 1(2,3) by auto
  show ?case
    using 1(1) [OF refl _ p] unfolding b(2) srec_loop.simps by (simp add: b(1) Let_def ac_simps)
qed auto

lemma srec_loop_invalid:
  "\<not> hex_valid p \<Longrightarrow> even (length p) \<Longrightarrow> fst (srec_loop naddr count i p chksum r) = None"
  by (induction naddr count i p chksum r rule: srec_loop.induct) (auto simp: Let_def srec_byte_value)

lemma srec_stores_addr:
  "i + length bs \<le> naddr \<Longrightarrow> srec_stores naddr count i bs r =
     r\<lparr>sr_address := foldl (\<lambda>a b. push_bit 8 a OR ucast b) (sr_address r) bs\<rparr>"
  by (induction bs arbitrary: i r) (simp_all add: srec_store_def)

lemma srec_stores_data:
  "naddr \<le> i \<Longrightarrow> i + length bs < count \<Longrightarrow> i - naddr + length bs \<le> length (sr_data r) \<Longrightarrow>
   srec_stores naddr count i bs r = r\<lparr>sr_data := memcpy_at (sr_data r) (i - naddr) bs\<rparr>"
proof (induction bs arbitrary: i r)
  case (Cons b bs)
  then show ?case
    by (simp add: srec_store_def Suc_diff_le memcpy_at_def take_Suc_conv_app_nth upd_conv_take_nth_drop add.commute)
qed (simp add: memcpy_at_def)

lemma shift_or_u8: "push_bit 8 (a :: u32) OR ucast (b :: u8) = 256 * a + ucast b"
proof -
  have "push_bit 8 a AND ucast b = 0" by (rule bit_word_eqI) (auto simp: bit_simps)
  then have "push_bit 8 a OR ucast b = push_bit 8 a + ucast b" by (simp add: disjunctive_add_eq_or)
  then show ?thesis by (simp add: push_bit_eq_mult)
qed

lemma foldl_address:
  "foldl (\<lambda>a b. push_bit 8 a OR ucast b) (of_nat n :: u32) (bs :: bytes) = of_nat (foldl (\<lambda>a b. 256 * a + unat b) n bs)"
proof (induction bs arbitrary: n)
  case (Cons b bs)
  have "push_bit 8 (of_nat n :: u32) OR ucast b = of_nat (256 * n + unat b)" by (simp add: shift_or_u8)
  with Cons show ?case by (simp only: foldl_Cons)
qed simp

lemma srec_stores_record:
  assumes "count = length addr + length data + 1" "sr_address r = 0" "length data \<le> length (sr_data r)"
  shows "srec_stores (length addr) count 0 (addr @ data @ [chk]) r =
    r\<lparr>sr_address := of_nat (be_val addr), sr_data := memcpy_at (sr_data r) 0 data\<rparr>"
  using assms foldl_address [of 0 addr]
  by (simp add: srec_stores_addr srec_stores_data srec_store_def be_val_def)

lemma srec_loop_data: "length (sr_data (snd (srec_loop naddr count i p chksum r))) = length (sr_data r)"
  by (induction naddr count i p chksum r rule: srec_loop.induct) (simp_all add: Let_def srec_store_def)

lemma srec_parse_data: "length (sr_data (snd (srec_parse line r))) = length (sr_data r)"
proof -
  have "snd (case x of (None, r) \<Rightarrow> (-1 :: int, r) | (Some t, r) \<Rightarrow> (f t, r)) = snd x" for x :: "u32 option \<times> srec_record" and f
    by (auto split: prod.split option.split)
  then show ?thesis by (simp add: srec_parse_def Let_def srec_loop_data split: option.split)
qed

section \<open>The parser accepts exactly the S-records\<close>

lemma and_255_u32: "(of_nat n :: u32) AND 255 = 255 \<longleftrightarrow> n mod 256 = 255"
proof -
  have "unat ((of_nat n :: u32) AND 255) = take_bit 8 (unat (of_nat n :: u32))"
    by (simp add: unsigned_and_eq take_bit_eq_mask mask_eq_exp_minus_1)
  also have "\<dots> = n mod 256" by (simp add: take_bit_eq_mod unat_of_nat mod_mod_cancel)
  finally have "unat ((of_nat n :: u32) AND 255) = n mod 256" .
  moreover have "unat (255 :: u32) = 255" by simp
  ultimately show ?thesis by (metis word_unat_eq_iff)
qed

lemma srec_parse_run:
  assumes "0x30 \<le> d" "d \<le> 0x39" "t = unat d - 0x30" "srec_naddr t = Some na"
    and "srec_byte c1 c2 = int n" "na + 1 \<le> n" "length p = 2 * n" "hex_valid p"
    and "5 \<le> t \<longrightarrow> n = na + 1"
  shows "srec_parse (0x53 # d # c1 # c2 # p) r =
    (if (n + sum_list (map unat (hex_value p))) mod 256 = 255 then 0 else -1,
     srec_stores na n 0 (hex_value p) (r\<lparr>sr_type := t, sr_address := 0, sr_size := n - na - 1\<rparr>))"
proof -
  have "of_nat n + of_nat k = (of_nat (n + k) :: u32)" for k by simp
  with assms show ?thesis
    unfolding srec_parse_def by (auto simp add: Let_def srec_loop_valid and_255_u32 not_less simp del: of_nat_add)
qed

text \<open>The record that a valid line leaves.\<close>

definition srec_filled :: "srec_record \<Rightarrow> nat \<Rightarrow> bytes \<Rightarrow> bytes \<Rightarrow> srec_record" where
  "srec_filled r t addr data = r\<lparr>sr_type := t, sr_address := of_nat (be_val addr), sr_size := length data,
     sr_data := memcpy_at (sr_data r) 0 data\<rparr>"

lemma srec_naddr_bounds: "srec_naddr t = Some na \<Longrightarrow> 2 \<le> na \<and> na \<le> 4"
  by (auto simp: srec_naddr.simps split: if_splits)

lemma srec_data_bound:
  assumes "srec_line line t addr data"
  shows "length data \<le> 252"
proof -
  from assms obtain cnt :: u8 where "srec_naddr t = Some (length addr)" "unat cnt = length addr + length data + 1"
    unfolding srec_line_def address_size_code by blast
  with srec_naddr_bounds [of t "length addr"] unat_u8_less [of cnt] show ?thesis by simp
qed

lemma hex_value_ConsE:
  assumes "hex_value hx = b # bs" "hex_valid hx"
  obtains c1 c2 p where "hx = c1 # c2 # p" "srec_byte c1 c2 = int (unat b)" "hex_value p = bs" "hex_valid p"
proof -
  from assms(1) obtain c1 c2 p where t: "hx = c1 # c2 # p" by (cases hx rule: hex_value.cases) auto
  with assms(2) obtain v w where vw: "hex_digit c1 = Some v" "hex_digit c2 = Some w" by auto
  have "b = of_nat (16 * unat v + unat w)" using assms(1) vw t by simp
  then have "unat b = 16 * unat v + unat w" by (simp only: hex_pair_unat [OF vw])
  then have "srec_byte c1 c2 = int (unat b)" by (simp only: srec_byte_value vw) simp
  with that t assms show ?thesis by simp
qed

lemma type_char: "t \<le> 9 \<Longrightarrow> unat (0x30 + of_nat t :: u8) = 0x30 + t"
  by (simp add: unat_word_ariths unat_of_nat)

lemma srec_parse_complete:
  assumes "srec_line line t addr data" "length (sr_data r) = 252"
  shows "srec_parse line r = (0, srec_filled r t addr data)"
proof -
  from assms(1) obtain hx cnt chk where l: "line = 0x53 # (0x30 + of_nat t) # hx" "t \<le> 9" "hex_valid hx"
    "hex_value hx = cnt # addr @ data @ [chk]" "srec_naddr t = Some (length addr)"
    "unat cnt = length addr + length data + 1" "5 \<le> t \<longrightarrow> data = []"
    "sum_list (map unat (hex_value hx)) mod 256 = 255" "even (length hx)"
    unfolding srec_line_def address_size_code by (elim exE conjE)
  from hex_value_ConsE [OF l(4,3)] obtain c1 c2 p where p: "hx = c1 # c2 # p" "srec_byte c1 c2 = int (unat cnt)"
    "hex_value p = addr @ data @ [chk]" "hex_valid p" by blast
  have "even (length p)" using l(9) p(1) by simp
  then have len: "length p = 2 * unat cnt" using length_hex_value [of p] p(3) l(6) by auto
  have "srec_parse line r = (0, srec_stores (length addr) (unat cnt) 0 (hex_value p)
      (r\<lparr>sr_type := t, sr_address := 0, sr_size := unat cnt - length addr - 1\<rparr>))"
    using srec_parse_run [of "0x30 + of_nat t" t, OF _ _ _ l(5) p(2) _ len p(4)] l p(1,3) type_char [OF l(2)]
    by (simp add: word_le_nat_alt)
  moreover have "length data \<le> 252" by (rule srec_data_bound [OF assms(1)])
  ultimately show ?thesis
    using srec_stores_record [OF l(6), of "r\<lparr>sr_type := t, sr_address := 0, sr_size := length data\<rparr>" chk] assms(2) l(6)
    unfolding p(3) by (simp add: srec_filled_def del: srec_stores_simps)
qed

lemma srec_lineI:
  "line = 0x53 # (0x30 + of_nat t) # hx \<Longrightarrow> t \<le> 9 \<Longrightarrow> hex_valid hx \<Longrightarrow> even (length hx) \<Longrightarrow>
   hex_value hx = cnt # addr @ data @ [chk] \<Longrightarrow> srec_naddr t = Some (length addr) \<Longrightarrow>
   unat cnt = length addr + length data + 1 \<Longrightarrow> (5 \<le> t \<longrightarrow> data = []) \<Longrightarrow>
   sum_list (map unat (hex_value hx)) mod 256 = 255 \<Longrightarrow> srec_line line t addr data"
  unfolding srec_line_def address_size_code by blast

lemma srec_parse_inv:
  assumes "srec_parse line r = (0, r')"
  obtains d c1 c2 p na n where "line = 0x53 # d # c1 # c2 # p" "0x30 \<le> d" "d \<le> 0x39"
    "srec_naddr (unat d - 0x30) = Some na" "srec_byte c1 c2 = int n" "na + 1 \<le> n" "length p = 2 * n" "hex_valid p"
    "5 \<le> unat d - 0x30 \<longrightarrow> n = na + 1"
proof -
  from assms have "4 \<le> length line" by (auto simp: srec_parse_def split: if_splits)
  then obtain a d c1 c2 p where line: "line = a # d # c1 # c2 # p"
    by (auto simp: numeral_eq_Suc Suc_le_length_iff)
  with assms have l: "a = 0x53" "0x30 \<le> d" "d \<le> 0x39"
    by (auto simp: srec_parse_def not_less split: if_splits)
  with assms line obtain na where na: "srec_naddr (unat d - 0x30) = Some na"
    by (auto simp: srec_parse_def Let_def split: if_splits option.splits)
  have c: "int na + 1 \<le> srec_byte c1 c2" "4 + int (length p) = 4 + 2 * srec_byte c1 c2"
    "\<not> (5 \<le> unat d - 0x30 \<and> nat (srec_byte c1 c2) - na - 1 \<noteq> 0)"
    using assms na l unfolding line srec_parse_def by (auto simp: Let_def not_less split: if_splits)
  then obtain n where n: "srec_byte c1 c2 = int n" by (metis add_increasing2 nonneg_int_cases of_nat_0_le_iff order_trans zero_le_one add_nonneg_nonneg)
  with c have c': "na + 1 \<le> n" "length p = 2 * n" "5 \<le> unat d - 0x30 \<longrightarrow> n = na + 1" by auto
  have "hex_valid p"
  proof (rule ccontr)
    assume "\<not> hex_valid p"
    from srec_loop_invalid [OF this] c'(2) have "fst (srec_loop na n 0 p x y) = None" for x y by simp
    then show False using assms na l n c' unfolding line srec_parse_def
      by (auto simp: Let_def split: if_splits prod.splits option.splits) (metis fst_conv option.distinct(1))+
  qed
  with that line l na n c' show ?thesis by blast
qed

lemma srec_parse_sound:
  assumes "srec_parse line r = (0, r')"
  shows "\<exists>t addr data. srec_line line t addr data"
proof -
  from assms obtain d c1 c2 p na n where l: "line = 0x53 # d # c1 # c2 # p" "0x30 \<le> d" "d \<le> 0x39"
    "srec_naddr (unat d - 0x30) = Some na" "srec_byte c1 c2 = int n" "na + 1 \<le> n" "length p = 2 * n" "hex_valid p"
    "5 \<le> unat d - 0x30 \<longrightarrow> n = na + 1" by (rule srec_parse_inv)
  define t addr data chk where "t = unat d - 0x30" and "addr = take na (hex_value p)"
    and "data = take (n - na - 1) (drop na (hex_value p))" and "chk = hex_value p ! (n - 1)"
  have sum: "(n + sum_list (map unat (hex_value p))) mod 256 = 255"
    using assms srec_parse_run [OF l(2,3) refl l(4-9)] l(1) by (simp split: if_splits)
  have len: "length (hex_value p) = n" by (simp add: l(7))
  have split: "hex_value p = addr @ data @ [chk]"
    using l(6) len unfolding addr_def data_def chk_def
    by (intro nth_equalityI) (auto simp: nth_append nth_Cons' not_less intro!: arg_cong [where f = "nth (hex_value p)"])
  from l(5) obtain v w where vw: "hex_digit c1 = Some v" "hex_digit c2 = Some w"
    by (auto simp: srec_byte_value split: if_splits)
  define cnt :: u8 where "cnt = of_nat (16 * unat v + unat w)"
  have "int (16 * unat v + unat w) = int n" using l(5) vw by (simp add: srec_byte_value)
  then have cnt: "unat cnt = n" unfolding cnt_def hex_pair_unat [OF vw] by linarith
  have hx: "hex_value (c1 # c2 # p) = cnt # hex_value p" using vw by (simp add: cnt_def)
  have lens: "length addr = na" "length data = n - na - 1" using l(6) len by (simp_all add: addr_def data_def)
  have "srec_line line t addr data"
  proof (rule srec_lineI [where hx = "c1 # c2 # p" and cnt = cnt and chk = chk])
    have "0x30 + of_nat t = d" using l(2) by (simp add: t_def word_le_nat_alt of_nat_diff)
    then show "line = 0x53 # (0x30 + of_nat t) # c1 # c2 # p" using l(1) by simp
    show "t \<le> 9" using l(3) by (simp add: t_def word_le_nat_alt)
    show "sum_list (map unat (hex_value (c1 # c2 # p))) mod 256 = 255" unfolding hx using sum cnt by simp
  qed (use l cnt lens hx vw in \<open>auto simp: t_def split\<close>)
  then show ?thesis by blast
qed

text \<open>A changed digit changes the byte sum modulo 256.\<close>

abbreviation byte_sum :: "bytes \<Rightarrow> nat" where
  "byte_sum hx \<equiv> sum_list (map unat (hex_value hx))"

lemma byte_sum_Cons:
  "hex_digit a = Some v \<Longrightarrow> hex_digit b = Some w \<Longrightarrow> byte_sum (a # b # hx) = 16 * unat v + unat w + byte_sum hx"
  using hex_pair_unat [of a v b w] by simp

lemma mod_add_cancel: "(x + s) mod n = (y + s) mod n \<longleftrightarrow> x mod n = y mod (n :: nat)"
  unfolding nat_mod_eq_iff by (simp add: algebra_simps)

lemma nibbles_inj:
  assumes "unat p < 16" "unat q < 16" "unat p' < 16" "unat q' < 16"
    and "(16 * unat p + unat q + s) mod 256 = (16 * unat p' + unat q' + s) mod 256"
  shows "p = p' \<and> q = (q' :: u8)"
proof -
  from assms have "16 * unat p + unat q = 16 * unat p' + unat q'" by (simp add: mod_add_cancel)
  moreover from this assms(1-4) have "unat p = unat p'" by linarith
  ultimately have "unat p = unat p'" "unat q = unat q'" by simp_all
  then show ?thesis by (simp add: word_unat_eq_iff)
qed

lemma byte_sum_changed:
  "hex_valid hx \<Longrightarrow> hex_digit c = Some v \<Longrightarrow> even (length hx) \<Longrightarrow> j < length hx \<Longrightarrow> hex_digit (hx ! j) \<noteq> Some v \<Longrightarrow>
   byte_sum (hx[j := c]) mod 256 \<noteq> byte_sum hx mod 256"
proof (induction hx arbitrary: j rule: hex_value.induct)
  case (1 a b hx)
  then obtain x y where xy: "hex_digit a = Some x" "hex_digit b = Some y" by auto
  note less = xy [THEN hex_digit_less] hex_digit_less [OF 1(3)]
  have "hex_valid hx" "even (length hx)" using "1.prems" by auto
  consider "j = 0" | "j = 1" | k where "j = Suc (Suc k)" by (metis One_nat_def nat.exhaust)
  then show ?case
  proof cases
    case 1
    with "1.prems" xy nibbles_inj [of v y x y "byte_sum hx"] less show ?thesis
      by (auto simp: byte_sum_Cons simp del: hex_value.simps)
  next
    case 2
    with "1.prems" xy nibbles_inj [of x v x y "byte_sum hx"] less show ?thesis
      by (auto simp: byte_sum_Cons simp del: hex_value.simps)
  next
    case 3
    have "byte_sum (hx[k := c]) mod 256 \<noteq> byte_sum hx mod 256"
      using "1.IH" [of k] "1.prems" \<open>hex_valid hx\<close> \<open>even (length hx)\<close> 3 by simp
    then show ?thesis using xy 3 by (simp add: byte_sum_Cons add.commute [of _ "byte_sum _"] mod_add_cancel del: hex_value.simps)
  qed
qed auto

text \<open>The printer: the record of a type, address and data.\<close>

definition srec_print :: "nat \<Rightarrow> bytes \<Rightarrow> bytes \<Rightarrow> bytes" where
  "srec_print t addr data =
     (let body = of_nat (length addr + length data + 1) # addr @ data
      in 0x53 # (0x30 + of_nat t) # hex_text (body @ [of_nat (255 - sum_list (map unat body) mod 256)]))"

lemma checksum_closes: "(n + unat (of_nat (255 - n mod 256) :: u8)) mod 256 = 255"
proof -
  have "unat (of_nat (255 - n mod 256) :: u8) = 255 - n mod 256" by (subst unat_of_nat) simp
  then have "(n + unat (of_nat (255 - n mod 256) :: u8)) mod 256 = (n mod 256 + (255 - n mod 256)) mod 256"
    by (simp only: mod_add_left_eq)
  also have "n mod 256 + (255 - n mod 256) = 255" using mod_less_divisor [of 256 n] by linarith
  finally show ?thesis by simp
qed

lemma srec_print_line:
  assumes "srec_naddr t = Some (length addr)" "length addr + length data + 1 \<le> 255" "5 \<le> t \<longrightarrow> data = []"
  shows "srec_line (srec_print t addr data) t addr data"
proof -
  let ?cnt = "of_nat (length addr + length data + 1) :: u8"
  let ?body = "?cnt # addr @ data" and ?chk = "of_nat (255 - sum_list (map unat (?cnt # addr @ data)) mod 256) :: u8"
  have cnt: "unat ?cnt = length addr + length data + 1" using assms(2) by (subst unat_of_nat) simp
  have sum: "sum_list (map unat (?body @ [?chk])) mod 256 = 255"
    using checksum_closes [of "sum_list (map unat ?body)"]
    by (simp only: map_append sum_list_append list.map sum_list.Cons sum_list.Nil add_0_right)
  show ?thesis
  proof (rule srec_lineI [where hx = "hex_text (?body @ [?chk])" and cnt = ?cnt and chk = ?chk])
    show "srec_print t addr data = 0x53 # (0x30 + of_nat t) # hex_text (?body @ [?chk])"
      by (simp only: srec_print_def Let_def)
    show "t \<le> 9" using assms(1) by (auto simp: srec_naddr.simps split: if_splits)
    show "hex_value (hex_text (?body @ [?chk])) = ?cnt # addr @ data @ [?chk]" by (simp only: hex_value_text append.simps append_assoc)
    show "sum_list (map unat (hex_value (hex_text (?body @ [?chk])))) mod 256 = 255" using sum by (simp only: hex_value_text)
    show "hex_valid (hex_text (?body @ [?chk]))" by (rule hex_text_valid)
    show "even (length (hex_text (?body @ [?chk])))" by (simp only: length_hex_text) simp
  qed (use assms cnt in simp_all)
qed

text \<open>Reading and printing again gives the line, but for the case of its digits.\<close>

definition lower :: "u8 \<Rightarrow> u8" where
  "lower c = (if 0x41 \<le> c \<and> c \<le> 0x5A then c + 0x20 else c)"

definition lower_digits :: "bytes \<Rightarrow> bytes" where
  "lower_digits line = take 2 line @ map lower (drop 2 line)"

lemma lower_digit: "hex_digit c = Some v \<Longrightarrow> hex_chars ! unat v = lower c"
proof -
  have "case hex_digit c of None \<Rightarrow> True | Some v \<Rightarrow> hex_chars ! unat v = lower c"
    by (rule all_u8 [where P = "\<lambda>c. case hex_digit c of None \<Rightarrow> True | Some v \<Rightarrow> hex_chars ! unat v = lower c"]) code_simp
  then show "hex_digit c = Some v \<Longrightarrow> hex_chars ! unat v = lower c" by simp
qed

lemma hex_text_value: "hex_valid hx \<Longrightarrow> even (length hx) \<Longrightarrow> hex_text (hex_value hx) = map lower hx"
proof (induction hx rule: hex_value.induct)
  case (1 a b hx)
  then obtain v w where vw: "hex_digit a = Some v" "hex_digit b = Some w" by auto
  have IH: "hex_text (hex_value hx) = map lower hx" using 1 by simp
  let ?b = "of_nat (16 * unat v + unat w) :: u8"
  have "hex_value (a # b # hx) = ?b # hex_value hx" using vw by simp
  moreover have "unat ?b = 16 * unat v + unat w" by (rule hex_pair_unat [OF vw])
  moreover have "unat w < 16" by (rule hex_digit_less [OF vw(2)])
  ultimately have "hex_text (hex_value (a # b # hx)) = hex_chars ! unat v # hex_chars ! unat w # hex_text (hex_value hx)"
    by (simp add: hex_text_def)
  then show ?case by (simp add: lower_digit [OF vw(1)] lower_digit [OF vw(2)] IH)
qed (simp_all add: hex_text_def)

lemma checksum_unique:
  assumes "(n + unat (chk :: u8)) mod 256 = 255"
  shows "chk = of_nat (255 - n mod 256)"
proof -
  define m where "m = n mod 256"
  have m: "m < 256" "(m + unat chk) mod 256 = 255" using assms by (simp_all add: m_def mod_add_left_eq)
  have "unat chk = 255 - m"
  proof (cases "m + unat chk < 256")
    case True
    then show ?thesis using m by simp
  next
    case False
    then have "m + unat chk - 256 = 255" using m unat_u8_less [of chk] by (simp add: le_mod_geq)
    then show ?thesis using m unat_u8_less [of chk] by linarith
  qed
  moreover have "of_nat (unat chk) = chk" by simp
  ultimately show ?thesis unfolding m_def by metis
qed

lemma srec_line_print:
  assumes "srec_line line t addr data"
  shows "lower_digits line = srec_print t addr data"
proof -
  from assms obtain hx cnt chk where l: "line = 0x53 # (0x30 + of_nat t) # hx" "hex_valid hx" "even (length hx)"
    "hex_value hx = cnt # addr @ data @ [chk]" "unat cnt = length addr + length data + 1" "byte_sum hx mod 256 = 255"
    unfolding srec_line_def by (elim exE conjE)
  let ?cnt = "of_nat (length addr + length data + 1) :: u8"
  have "of_nat (unat cnt) = cnt" by simp
  then have cnt: "cnt = ?cnt" using l(5) by metis
  have "(sum_list (map unat (cnt # addr @ data)) + unat chk) mod 256 = 255"
    using l(6) unfolding l(4) by (simp add: add.assoc)
  then have chk: "chk = of_nat (255 - sum_list (map unat (cnt # addr @ data)) mod 256)" by (rule checksum_unique)
  have "lower_digits line = 0x53 # (0x30 + of_nat t) # hex_text (hex_value hx)"
    by (simp add: l(1) lower_digits_def hex_text_value [OF l(2,3)])
  also have "hex_value hx = (?cnt # addr @ data) @ [of_nat (255 - sum_list (map unat (?cnt # addr @ data)) mod 256)]"
    unfolding l(4) chk cnt by simp
  finally show ?thesis by (simp only: srec_print_def Let_def)
qed

lemma be_val_bound: "be_val bs < 256 ^ length bs"
proof (induction bs rule: rev_induct)
  case (snoc b bs)
  then show ?case using unat_u8_less [of b] by (simp add: be_val_def)
qed (simp add: be_val_def)

lemma srec_address_value:
  assumes "srec_line line t addr data"
  shows "unat (of_nat (be_val addr) :: u32) = be_val addr"
proof -
  from assms have "length addr \<le> 4" using srec_naddr_bounds [of t "length addr"] by (auto simp: srec_line_def)
  then have "(256 :: nat) ^ length addr \<le> 256 ^ 4" by (intro power_increasing) simp_all
  then have "be_val addr < 2 ^ 32" using be_val_bound [of addr] by simp
  then show ?thesis by (simp add: unat_of_nat)
qed

section \<open>Properties\<close>

text \<open>
  C14. \<open>srec_parse\<close> returns \<open>0\<close> exactly on well-formed S-records (type, address field of the size that the format
  prescribes for the type, byte count equal to the length of
  the line, no data in types 5 to 9, byte sum 255 modulo 256) and then the record holds their type,
  big-endian address, size and data; the data fits the 252-byte array.
\<close>

theorem srec_parse_exact:
  assumes "length (sr_data r) = 252"
  shows "srec_parse line r = (0, r') \<longleftrightarrow>
    (\<exists>t addr data. srec_line line t addr data \<and> length data \<le> 252 \<and>
       r' = r\<lparr>sr_type := t, sr_address := of_nat (be_val addr), sr_size := length data,
              sr_data := memcpy_at (sr_data r) 0 data\<rparr>)"
proof
  assume *: "srec_parse line r = (0, r')"
  from srec_parse_sound [OF *] obtain t addr data where "srec_line line t addr data" by blast
  with * srec_parse_complete [OF this assms] srec_data_bound [OF this] show "\<exists>t addr data. srec_line line t addr data \<and>
    length data \<le> 252 \<and> r' = r\<lparr>sr_type := t, sr_address := of_nat (be_val addr), sr_size := length data,
              sr_data := memcpy_at (sr_data r) 0 data\<rparr>"
    by (intro exI [of _ t] exI [of _ addr] exI [of _ data]) (simp add: srec_filled_def)
qed (auto simp: srec_parse_complete [OF _ assms] srec_filled_def)

definition srec_blank :: srec_record where
  "srec_blank = \<lparr>sr_address = 0, sr_data = replicate 252 0, sr_size = 0, sr_type = 0\<rparr>"

text \<open>The record that ends an image which starts at the bottom of RAM, from the bootloader's own test.\<close>

definition srec_start :: bytes where
  "srec_start = ascii ''S705800000007A''"

lemma srec_start_line: "srec_line srec_start 7 [0x80, 0, 0, 0] []"
  by (rule srec_lineI [where hx = "ascii ''05800000007A''" and cnt = 5 and chk = "0x7A"])
    (simp_all add: srec_start_def hex_digit_def srec_naddr.simps)

theorem srec_parse_exact_witness:
  "length (sr_data srec_blank) = 252 \<and> srec_parse srec_start srec_blank = (0, srec_blank\<lparr>sr_type := 7, sr_address := 0x80000000\<rparr>)"
proof -
  have len: "length (sr_data srec_blank) = 252" by (simp add: srec_blank_def)
  have "srec_blank\<lparr>sr_type := 7, sr_address := 0x80000000\<rparr> = srec_blank\<lparr>sr_type := 7, sr_address := of_nat (be_val [0x80, 0, 0, 0]),
      sr_size := length ([] :: bytes), sr_data := memcpy_at (sr_data srec_blank) 0 []\<rparr>"
    by (simp add: srec_blank_def be_val_def memcpy_at_def)
  then have "\<exists>t addr data. srec_line srec_start t addr data \<and> length data \<le> 252 \<and> srec_blank\<lparr>sr_type := 7, sr_address := 0x80000000\<rparr> =
      srec_blank\<lparr>sr_type := t, sr_address := of_nat (be_val addr), sr_size := length data, sr_data := memcpy_at (sr_data srec_blank) 0 data\<rparr>"
    using srec_start_line by (intro exI [of _ 7] exI [of _ "[0x80, 0, 0, 0]"] exI [of _ "[]"]) simp
  then show ?thesis using len by (simp only: srec_parse_exact [OF len] simp_thms)
qed

text \<open>
  C15. Round trips in both directions. For every type, address field of the size the format prescribes for it, and data that fit a
  record, parsing the printed line returns \<open>0\<close> and the same type, address and data. Conversely, printing what was read from an
  accepted line gives the line again, but for the case of its digits: no information is lost or made up.
\<close>

theorem srec_roundtrip:
  assumes "length (sr_data r) = 252"
  shows "(\<forall>t addr data. address_size t = Some (length addr) \<and> length addr + length data + 1 \<le> 255 \<and> (5 \<le> t \<longrightarrow> data = []) \<longrightarrow>
      srec_parse (srec_print t addr data) r =
        (0, r\<lparr>sr_type := t, sr_address := of_nat (be_val addr), sr_size := length data, sr_data := memcpy_at (sr_data r) 0 data\<rparr>)) \<and>
    (\<forall>line r'. srec_parse line r = (0, r') \<longrightarrow>
      (\<exists>addr. address_size (sr_type r') = Some (length addr) \<and> be_val addr = unat (sr_address r') \<and>
         srec_print (sr_type r') addr (take (sr_size r') (sr_data r')) = lower_digits line))"
proof (intro conjI allI impI)
  fix t and addr data :: bytes
  assume "address_size t = Some (length addr) \<and> length addr + length data + 1 \<le> 255 \<and> (5 \<le> t \<longrightarrow> data = [])"
  then show "srec_parse (srec_print t addr data) r =
      (0, r\<lparr>sr_type := t, sr_address := of_nat (be_val addr), sr_size := length data, sr_data := memcpy_at (sr_data r) 0 data\<rparr>)"
    using srec_parse_complete [OF srec_print_line [of t addr data] assms] by (simp add: srec_filled_def)
next
  fix line r'
  assume run: "srec_parse line r = (0, r')"
  from srec_parse_sound [OF run] obtain t addr data where l: "srec_line line t addr data" by blast
  have r': "r' = srec_filled r t addr data" using srec_parse_complete [OF l assms] run by simp
  moreover have "address_size t = Some (length addr)" using l by (auto simp: srec_line_def)
  moreover have "take (length data) (memcpy_at (sr_data r) 0 data) = data" by (simp add: memcpy_at_def)
  ultimately show "\<exists>addr. address_size (sr_type r') = Some (length addr) \<and> be_val addr = unat (sr_address r') \<and>
      srec_print (sr_type r') addr (take (sr_size r') (sr_data r')) = lower_digits line"
    using srec_address_value [OF l] srec_line_print [OF l] by (intro exI [of _ addr]) (simp add: srec_filled_def)
qed

theorem srec_roundtrip_witness:
  "sr_address (snd (srec_parse (srec_print 3 [0x80, 0, 0, 8] [1, 2]) srec_blank)) = 0x80000008 \<and>
   take 2 (sr_data (snd (srec_parse (srec_print 3 [0x80, 0, 0, 8] [1, 2]) srec_blank))) = [1, 2]"
  using srec_roundtrip [THEN conjunct1, rule_format, of srec_blank 3 "[0x80, 0, 0, 8]" "[1, 2]"]
  by (simp add: srec_naddr.simps srec_blank_def be_val_def memcpy_at_def)



end
