(* ===== verification/Mmio.thy ===== *)
theory Mmio
  imports Prelude
begin

text \<open>
  Memory-mapped devices. The board-support functions \<open>Xil_In32\<close>, \<open>Xil_Out32\<close>, \<open>Xil_In8\<close>, \<open>Xil_Out8\<close> and
  \<open>xil_printf\<close> are not part of the repository: they are the fields of a record \<open>bsp\<close>, over an
  arbitrary type \<open>'d\<close> of device states, and every theorem about the drivers holds for all of them.
  The machine carries the device state and the trace of accesses made so far, so that what a driver
  does to the hardware, sends to a peer or reports as telemetry can be stated as a property of the trace. A component with static variables
  extends the machine record with them.
\<close>

datatype mmio =
    In32 u32 u32 | Out32 u32 u32 | In8 u32 u8 | Out8 u32 u8 | Printf string "u32 list" | Call string
  | NextReceive u32 | RxStatus u32 u32 | SetRxStatus u32 u32 | Send bytes | Sendto u32 u16 bytes | Deliver nat | Event string | Detail bytes | Job bytes | Mining bool

record 'd bsp =
  bsp_in32 :: "u32 \<Rightarrow> 'd \<Rightarrow> u32 \<times> 'd"
  bsp_out32 :: "u32 \<Rightarrow> u32 \<Rightarrow> 'd \<Rightarrow> 'd"
  bsp_in8 :: "u32 \<Rightarrow> 'd \<Rightarrow> u8 \<times> 'd"
  bsp_out8 :: "u32 \<Rightarrow> u8 \<Rightarrow> 'd \<Rightarrow> 'd"
  bsp_printf :: "string \<Rightarrow> u32 list \<Rightarrow> 'd \<Rightarrow> 'd"

record 'd machine =
  m_dev :: 'd
  m_trace :: "mmio list"

definition log_event :: "mmio \<Rightarrow> ('d, 'z) machine_scheme \<Rightarrow> ('d, 'z) machine_scheme" where
  "log_event e st = st\<lparr>m_trace := m_trace st @ [e]\<rparr>"

definition Xil_In32 :: "('d, 'b) bsp_scheme \<Rightarrow> u32 \<Rightarrow> ('d, 'z) machine_scheme \<Rightarrow> u32 \<times> ('d, 'z) machine_scheme" where
  "Xil_In32 B a st = (let (v, d) = bsp_in32 B a (m_dev st) in (v, log_event (In32 a v) (st\<lparr>m_dev := d\<rparr>)))"

definition Xil_Out32 :: "('d, 'b) bsp_scheme \<Rightarrow> u32 \<Rightarrow> u32 \<Rightarrow> ('d, 'z) machine_scheme \<Rightarrow> ('d, 'z) machine_scheme" where
  "Xil_Out32 B a v st = log_event (Out32 a v) (st\<lparr>m_dev := bsp_out32 B a v (m_dev st)\<rparr>)"

definition Xil_In8 :: "('d, 'b) bsp_scheme \<Rightarrow> u32 \<Rightarrow> ('d, 'z) machine_scheme \<Rightarrow> u8 \<times> ('d, 'z) machine_scheme" where
  "Xil_In8 B a st = (let (v, d) = bsp_in8 B a (m_dev st) in (v, log_event (In8 a v) (st\<lparr>m_dev := d\<rparr>)))"

definition Xil_Out8 :: "('d, 'b) bsp_scheme \<Rightarrow> u32 \<Rightarrow> u8 \<Rightarrow> ('d, 'z) machine_scheme \<Rightarrow> ('d, 'z) machine_scheme" where
  "Xil_Out8 B a v st = log_event (Out8 a v) (st\<lparr>m_dev := bsp_out8 B a v (m_dev st)\<rparr>)"

definition xil_printf :: "('d, 'b) bsp_scheme \<Rightarrow> string \<Rightarrow> u32 list \<Rightarrow> ('d, 'z) machine_scheme \<Rightarrow> ('d, 'z) machine_scheme" where
  "xil_printf B f args st = log_event (Printf f args) (st\<lparr>m_dev := bsp_printf B f args (m_dev st)\<rparr>)"

text \<open>The tick counter, the delay and the task creation of the operating system, for the drivers that use them.\<close>

record 'd rtos = "'d bsp" +
  os_ticks :: "'d \<Rightarrow> u32 \<times> 'd"
  os_delay :: "u32 \<Rightarrow> 'd \<Rightarrow> 'd"
  os_task_create :: "string \<Rightarrow> 'd \<Rightarrow> bool \<times> 'd"

definition xTaskGetTickCount :: "('d, 'b) rtos_scheme \<Rightarrow> ('d, 'z) machine_scheme \<Rightarrow> u32 \<times> ('d, 'z) machine_scheme" where
  "xTaskGetTickCount R st = (let (n, d) = os_ticks R (m_dev st) in (n, st\<lparr>m_dev := d\<rparr>))"

definition vTaskDelay :: "('d, 'b) rtos_scheme \<Rightarrow> u32 \<Rightarrow> ('d, 'z) machine_scheme \<Rightarrow> ('d, 'z) machine_scheme" where
  "vTaskDelay R n st = log_event (Call ''vTaskDelay'') (st\<lparr>m_dev := os_delay R n (m_dev st)\<rparr>)"

definition xTaskCreate :: "('d, 'b) rtos_scheme \<Rightarrow> string \<Rightarrow> ('d, 'z) machine_scheme \<Rightarrow> bool \<times> ('d, 'z) machine_scheme" where
  "xTaskCreate R name st =
     (let (ok, d) = os_task_create R name (m_dev st) in (ok, log_event (Call name) (st\<lparr>m_dev := d\<rparr>)))"

text \<open>The version registers of \<open>common/versions.h\<close>.\<close>

definition MINER_ENGINES_REG :: u32 where "MINER_ENGINES_REG = 0x44a30008"
definition MINER_HW_VERSION_REG :: u32 where "MINER_HW_VERSION_REG = 0x44a300b0"
definition MINER_BOOT_VERSION_REG :: u32 where "MINER_BOOT_VERSION_REG = 0x44a300b4"

section \<open>What an operation adds to the trace\<close>

text \<open>
  \<open>emits P st st'\<close>: going from \<open>st\<close> to \<open>st'\<close> appended events to the trace, all of which satisfy \<open>P\<close>. It is
  a preorder, so the operations of a driver compose; \<open>emit_intros\<close> collects its rules.
\<close>

definition emits :: "(mmio \<Rightarrow> bool) \<Rightarrow> ('d, 'z) machine_scheme \<Rightarrow> ('d, 'z) machine_scheme \<Rightarrow> bool" where
  "emits P st st' \<longleftrightarrow> (\<exists>es. m_trace st' = m_trace st @ es \<and> list_all P es)"

named_theorems emit_intros

lemma emits_refl [intro, simp]: "emits P st st"
  by (simp add: emits_def)

lemma emits_trans [trans]: "emits P st st' \<Longrightarrow> emits P st' st'' \<Longrightarrow> emits P st st''"
  by (fastforce simp: emits_def)

lemma emits_mono: "emits P st st' \<Longrightarrow> (\<And>e. P e \<Longrightarrow> Q e) \<Longrightarrow> emits Q st st'"
  by (auto simp: emits_def list_all_iff)

lemma emits_log: "P e \<Longrightarrow> emits P st (log_event e st)"
  by (simp add: emits_def log_event_def)

lemma emits_cong: "m_trace st = m_trace t \<Longrightarrow> m_trace st' = m_trace t' \<Longrightarrow> emits P st st' = emits P t t'"
  by (simp add: emits_def)

lemma emits_In32 [emit_intros]: "Xil_In32 B a st = (v, st') \<Longrightarrow> (\<And>v. P (In32 a v)) \<Longrightarrow> emits P st st'"
  by (auto simp: Xil_In32_def emits_def log_event_def split: prod.splits)

lemma emits_In8 [emit_intros]: "Xil_In8 B a st = (v, st') \<Longrightarrow> (\<And>v. P (In8 a v)) \<Longrightarrow> emits P st st'"
  by (auto simp: Xil_In8_def emits_def log_event_def split: prod.splits)

lemma emits_Out32 [emit_intros]: "P (Out32 a v) \<Longrightarrow> emits P st (Xil_Out32 B a v st)"
  by (simp add: Xil_Out32_def emits_def log_event_def)

lemma emits_Out8 [emit_intros]: "P (Out8 a v) \<Longrightarrow> emits P st (Xil_Out8 B a v st)"
  by (simp add: Xil_Out8_def emits_def log_event_def)

lemma emits_printf [emit_intros]: "P (Printf f args) \<Longrightarrow> emits P st (xil_printf B f args st)"
  by (simp add: xil_printf_def emits_def log_event_def)

lemma emits_delay [emit_intros]: "P (Call ''vTaskDelay'') \<Longrightarrow> emits P st (vTaskDelay R n st)"
  by (simp add: vTaskDelay_def emits_def log_event_def)

lemma emits_ticks [emit_intros]: "xTaskGetTickCount R st = (n, st') \<Longrightarrow> emits P st st'"
  by (auto simp: xTaskGetTickCount_def emits_def split: prod.splits)

lemma emits_fold: "(\<And>x st. x \<in> set xs \<Longrightarrow> emits P st (f x st)) \<Longrightarrow> emits P st (fold f xs st)"
  by (induction xs arbitrary: st) (auto intro: emits_trans)

end
