(* ===== verification/Console.thy ===== *)
theory Console
  imports Mmio
begin

text \<open>
  \<open>common/console.c\<close>: the UART console, shared by the bootloader and the application. Output gives up
  after a million polls of a full transmit FIFO and drops the character; input waits without bound.
\<close>

definition UART_BASE :: u32 where "UART_BASE = 0x44A10000"

definition console_init :: "('d, 'b) bsp_scheme \<Rightarrow> ('d, 'z) machine_scheme \<Rightarrow> ('d, 'z) machine_scheme" where
  "console_init B st =
     (let st = Xil_Out32 B (UART_BASE + 0x18) 0 st;
          st = Xil_Out32 B (UART_BASE + 0x14) 0 st;
          st = Xil_Out32 B (UART_BASE + 0x20) (50000000 div 115200 - 1) st;
          st = Xil_Out32 B (UART_BASE + 0x24) (50000000 div (115200 * 5) - 1) st
      in Xil_Out32 B (UART_BASE + 0x18) 3 st)"

text \<open>The polling loop, entered with \<open>guard > 0\<close>; it ends with \<open>0\<close> when the polls are used up.\<close>

fun outbyte_wait :: "('d, 'b) bsp_scheme \<Rightarrow> nat \<Rightarrow> ('d, 'z) machine_scheme \<Rightarrow> nat \<times> ('d, 'z) machine_scheme" where
  "outbyte_wait B 0 st = (0, st)"
| "outbyte_wait B (Suc guard) st =
     (let (v, st) = Xil_In32 B (UART_BASE + 0x38) st
      in if 1024 \<le> v then outbyte_wait B guard st else (Suc guard, st))"

definition outbyte :: "('d, 'b) bsp_scheme \<Rightarrow> u8 \<Rightarrow> ('d, 'z) machine_scheme \<Rightarrow> ('d, 'z) machine_scheme" where
  "outbyte B c st =
     (let (guard, st) = outbyte_wait B 1000000 st
      in if guard \<noteq> 0 then Xil_Out32 B UART_BASE (ucast c) st else st)"

partial_function (option) inbyte ::
  "('d, 'b) bsp_scheme \<Rightarrow> ('d, 'z) machine_scheme \<Rightarrow> (u8 \<times> ('d, 'z) machine_scheme) option" where
  "inbyte B st =
     (let (v, st) = Xil_In32 B (UART_BASE + 0x3c) st
      in if v = 0 then inbyte B st
         else let (c, st) = Xil_In32 B (UART_BASE + 8) st in Some (ucast c, st))"

section \<open>Polling\<close>

lemma outbyte_wait_trace:
  assumes "outbyte_wait B g st = (g', st')"
  shows "\<exists>es. m_trace st' = m_trace st @ es \<and> length es \<le> g \<and> list_all (\<lambda>e. \<exists>v. e = In32 (UART_BASE + 0x38) v) es \<and>
    (g' \<noteq> 0 \<longrightarrow> (\<exists>v < 1024. last es = In32 (UART_BASE + 0x38) v) \<and> es \<noteq> [])"
  using assms
proof (induction g arbitrary: st g' st')
  case (Suc g)
  obtain v st1 where r: "Xil_In32 B (UART_BASE + 0x38) st = (v, st1)" by fastforce
  then have t: "m_trace st1 = m_trace st @ [In32 (UART_BASE + 0x38) v]"
    by (auto simp: Xil_In32_def log_event_def split: prod.splits)
  show ?case
  proof (cases "1024 \<le> v")
    case True
    with Suc.prems r have "outbyte_wait B g st1 = (g', st')" by simp
    from Suc.IH [OF this] obtain es where "m_trace st' = m_trace st1 @ es" "length es \<le> g"
      "list_all (\<lambda>e. \<exists>v. e = In32 (UART_BASE + 0x38) v) es"
      "g' \<noteq> 0 \<longrightarrow> (\<exists>v < 1024. last es = In32 (UART_BASE + 0x38) v) \<and> es \<noteq> []" by blast
    with t show ?thesis by (intro exI [of _ "In32 (UART_BASE + 0x38) v # es"]) auto
  next
    case False
    with Suc.prems r t show ?thesis by (intro exI [of _ "[In32 (UART_BASE + 0x38) v]"]) auto
  qed
qed simp

section \<open>Properties\<close>

text \<open>
  \<open>outbyte\<close> always returns, after at most a million polls; it sends the character at most once, and only
  right after a poll that found fewer than 1024 characters queued, so it never overruns the FIFO.
\<close>

theorem outbyte_bounded:
  "\<exists>es. m_trace (outbyte B c st) = m_trace st @ es \<and> length es \<le> 1000001 \<and>
     (list_all (\<lambda>e. \<exists>v. e = In32 (UART_BASE + 0x38) v) es \<or>
      (\<exists>es' v. es = es' @ [In32 (UART_BASE + 0x38) v, Out32 UART_BASE (ucast c)] \<and> v < 1024 \<and>
         list_all (\<lambda>e. \<exists>v. e = In32 (UART_BASE + 0x38) v) es'))"
proof -
  obtain g st1 where w: "outbyte_wait B 1000000 st = (g, st1)" by fastforce
  from outbyte_wait_trace [OF w] obtain es where es: "m_trace st1 = m_trace st @ es" "length es \<le> 1000000"
    "list_all (\<lambda>e. \<exists>v. e = In32 (UART_BASE + 0x38) v) es"
    "g \<noteq> 0 \<longrightarrow> (\<exists>v < 1024. last es = In32 (UART_BASE + 0x38) v) \<and> es \<noteq> []" by blast
  show ?thesis
  proof (cases "g = 0")
    case True
    with w es show ?thesis by (intro exI [of _ es]) (simp add: outbyte_def)
  next
    case False
    with es obtain v where v: "v < 1024" "es = butlast es @ [In32 (UART_BASE + 0x38) v]"
      by (metis append_butlast_last_id)
    have "m_trace (outbyte B c st) = m_trace st @ es @ [Out32 UART_BASE (ucast c)]"
      using False w es(1) by (simp add: outbyte_def Xil_Out32_def log_event_def)
    moreover have "list_all (\<lambda>e. \<exists>v. e = In32 (UART_BASE + 0x38) v) (butlast es)"
      using es(3) by (auto simp: list_all_iff dest: in_set_butlastD)
    ultimately show ?thesis
      using v es(2) by (intro exI [of _ "es @ [Out32 UART_BASE (ucast c)]"]) (auto intro!: exI [of _ "butlast es"] exI [of _ v])
  qed
qed

end
