(* ===== verification/Bootloader.thy ===== *)
theory Bootloader
  imports Console Srec
begin

text \<open>
  \<open>bootloader/main.c\<close>: the first stage. It calibrates the HyperRAM, reads S-records from the SPI flash,
  stores and verifies them in RAM, and installs the interrupt vectors only when everything has been
  checked; then it jumps. The HyperBus calibration driver is not part of the repository: its
  functions and register constants are further fields of the board-support record. The static
  variables of the file extend the machine state; loops that end only because the flash does are
  option-valued and are proved to return.
\<close>

section \<open>The code\<close>

definition HB :: u32 where "HB = 0x00010000"
definition SPI :: u32 where "SPI = 0x44A00000"
definition FLASH_START :: u32 where "FLASH_START = 0x00800000"
definition FLASH_END :: u32 where "FLASH_END = 0x01000000"
definition RAM_START :: u32 where "RAM_START = 0x80000000"
definition RAM_END :: u32 where "RAM_END = 0x80800000"
definition BOOTLOADER_VERSION_CODE :: u32 where "BOOTLOADER_VERSION_CODE = 0x01000000"

record 'd boot_bsp = "'d bsp" +
  hb_idelayctrl_reset_wait_ready :: "u32 \<Rightarrow> u32 \<Rightarrow> 'd \<Rightarrow> int \<times> 'd"
  hb_rwds_idly_dec_below_16 :: "u32 \<Rightarrow> 'd \<Rightarrow> int \<times> 'd"
  hb_odly_sweep_to_midpoint :: "u32 \<Rightarrow> 'd \<Rightarrow> (int \<times> u16 \<times> u16 \<times> u16) \<times> 'd"
  HB_DELAY_RST_CTRL_OFFSET :: u32
  HB_DELAY_RST_HB_RESET :: u32
  HB_CR0_OFFSET :: u32

record 'd boot = "'d machine" +
  bl_cache :: bytes
  bl_vectors :: bytes
  bl_seen :: bytes
  bl_flash :: u32
  bl_pos :: nat
  bl_record :: srec_record

text \<open>
  The receive loop of \<open>transfer\<close>: wait until the receive FIFO is not empty, with one guard for the whole
  transfer, then take a byte. \<open>None\<close> is the timeout.
\<close>

fun transfer_wait :: "('d, 'b) bsp_scheme \<Rightarrow> nat \<Rightarrow> ('d, 'z) machine_scheme \<Rightarrow> nat \<times> ('d, 'z) machine_scheme" where
  "transfer_wait B 0 st = (0, st)"
| "transfer_wait B (Suc guard) st =
     (let (v, st) = Xil_In32 B (SPI + 0x64) st
      in if v AND 1 \<noteq> 0 then transfer_wait B guard st else (Suc guard, st))"

fun transfer_rx :: "('d, 'b) bsp_scheme \<Rightarrow> nat \<Rightarrow> nat \<Rightarrow> bytes \<Rightarrow> ('d, 'z) machine_scheme \<Rightarrow>
    bytes option \<times> ('d, 'z) machine_scheme" where
  "transfer_rx B guard 0 rx st = (Some rx, st)"
| "transfer_rx B guard (Suc n) rx st =
     (let (guard, st) = transfer_wait B guard st
      in if guard = 0 then (None, st)
         else let (v, st) = Xil_In32 B (SPI + 0x6c) st in transfer_rx B guard n (rx @ [ucast v]) st)"

definition transfer :: "('d, 'b) bsp_scheme \<Rightarrow> bytes \<Rightarrow> ('d, 'z) machine_scheme \<Rightarrow>
    bytes option \<times> ('d, 'z) machine_scheme" where
  "transfer B tx st =
     (let st = Xil_Out32 B (SPI + 0x60) 0x1E6 st;
          st = Xil_Out32 B (SPI + 0x60) 0x186 st;
          st = fold (\<lambda>b. Xil_Out32 B (SPI + 0x68) (ucast b)) tx st;
          st = Xil_Out32 B (SPI + 0x70) 0xFFFFFFFE st;
          st = Xil_Out32 B (SPI + 0x60) 0x086 st;
          (rx, st) = transfer_rx B 1000000 (length tx) [] st;
          st = Xil_Out32 B (SPI + 0x60) 0x186 st;
          st = Xil_Out32 B (SPI + 0x70) 0xFFFFFFFF st
      in (rx, st))"

definition flash_command :: "u32 \<Rightarrow> bytes" where
  "flash_command flash = [3, ucast (drop_bit 16 flash), ucast (drop_bit 8 flash), ucast flash] @ replicate 64 0"

definition get_byte :: "('d, 'b) bsp_scheme \<Rightarrow> ('d, 'z) boot_scheme \<Rightarrow> int \<times> ('d, 'z) boot_scheme" where
  "get_byte B st =
     (let (ok, st) =
        (if bl_pos st = 64 then
           (let flash = bl_flash st; tx = flash_command flash
            in if flash > FLASH_END - 64 then (False, st)
               else case transfer B tx st of
                 (None, st) \<Rightarrow> (False, st)
               | (Some rx, st) \<Rightarrow>
                   (True, st\<lparr>bl_cache := map (\<lambda>i. rx ! (i + 4)) [0..<64], bl_flash := flash + 64, bl_pos := 0\<rparr>))
         else (True, st))
      in if \<not> ok then (-1, st)
         else (uint (bl_cache st ! bl_pos st), st\<lparr>bl_pos := bl_pos st + 1\<rparr>))"

partial_function (option) skip_newlines ::
  "('d, 'b) bsp_scheme \<Rightarrow> ('d, 'z) boot_scheme \<Rightarrow> (int \<times> ('d, 'z) boot_scheme) option" where
  "skip_newlines B st =
     (let (c, st) = get_byte B st
      in if c = 0x0D \<or> c = 0x0A then skip_newlines B st else Some (c, st))"

text \<open>The rest of a line, with room for \<open>k\<close> more characters; \<open>None\<close> is the \<open>-1\<close> return.\<close>

fun read_line :: "('d, 'b) bsp_scheme \<Rightarrow> nat \<Rightarrow> bytes \<Rightarrow> ('d, 'z) boot_scheme \<Rightarrow>
    bytes option \<times> ('d, 'z) boot_scheme" where
  "read_line B k line st =
     (let (c, st) = get_byte B st
      in if c < 0 then (None, st)
         else case k of
           0 \<Rightarrow> (None, st)
         | Suc k \<Rightarrow> if c = 0x0D \<or> c = 0x0A then (Some line, st) else read_line B k (line @ [of_int c]) st)"

declare read_line.simps [simp del]

text \<open>Store one data record: into the shadow vectors, or into RAM with read-back.\<close>

definition store_vectors :: "u32 \<Rightarrow> bytes \<Rightarrow> ('d, 'z) boot_scheme \<Rightarrow> ('d, 'z) boot_scheme" where
  "store_vectors a bs st =
     fold (\<lambda>i st. st\<lparr>bl_vectors := (bl_vectors st)[unat a + i := bs ! i], bl_seen := (bl_seen st)[unat a + i := 1]\<rparr>)
       [0..<length bs] st"

fun store_ram :: "('d, 'b) bsp_scheme \<Rightarrow> u32 \<Rightarrow> bytes \<Rightarrow> ('d, 'z) machine_scheme \<Rightarrow> bool \<times> ('d, 'z) machine_scheme" where
  "store_ram B a [] st = (True, st)"
| "store_ram B a (b # bs) st =
     (let st = Xil_Out8 B a b st; (actual, st) = Xil_In8 B a st
      in if actual \<noteq> b
         then (False, xil_printf B ''RAM verify %x wrote %x read %x'' [a, ucast b, ucast actual] st)
         else store_ram B (a + 1) bs st)"

definition store_record :: "('d, 'b) bsp_scheme \<Rightarrow> u32 \<Rightarrow> u32 \<Rightarrow> ('d, 'z) boot_scheme \<Rightarrow>
    (u32 \<times> u32) option \<times> ('d, 'z) boot_scheme" where
  "store_record B low high st =
     (let a = sr_address (bl_record st); size = sr_size (bl_record st); bs = take size (sr_data (bl_record st))
      in if a < 0x50 \<and> size \<le> 0x50 - unat a then (Some (low, high), store_vectors a bs st)
         else if RAM_START \<le> a \<and> a < RAM_END \<and> size \<le> unat (RAM_END - a) then
           (let (ok, st) = store_ram B a bs st
            in if \<not> ok then (None, st)
               else (Some (if a < low then a else low,
                           if high < a + of_nat size then a + of_nat size else high), st))
         else (None, st))"

text \<open>
  The body of \<open>load\<close> after a line has been read: \<open>Inl\<close> is a return, with the code and, through \<open>*entry\<close>,
  the entry address; \<open>Inr\<close> goes on with the loop, with \<open>data_records\<close>, \<open>low\<close> and \<open>high\<close>.
\<close>

definition load_record :: "('d, 'b) bsp_scheme \<Rightarrow> u32 \<Rightarrow> u32 \<Rightarrow> u32 \<Rightarrow> bytes \<Rightarrow> ('d, 'z) boot_scheme \<Rightarrow>
    ((int \<times> u32 option) + (u32 \<times> u32 \<times> u32)) \<times> ('d, 'z) boot_scheme" where
  "load_record B data_records low high line st =
     (let (rc, rec) = srec_parse line (bl_record st); st = st\<lparr>bl_record := rec\<rparr>
      in if rc \<noteq> 0 then
        (Inl (-1, None), xil_printf B ''SREC parse near %x size %d''
           [bl_flash st - 64 + of_nat (bl_pos st), of_nat (length line)] st)
      else if sr_type rec = 0 then (Inr (data_records, low, high), st)
      else if sr_type rec = 5 \<or> sr_type rec = 6 then
        (if sr_address rec \<noteq> data_records then (Inl (-1, None), st) else (Inr (data_records, low, high), st))
      else if 7 \<le> sr_type rec then
        (let entry = sr_address rec
         in (Inl (if data_records \<noteq> 0 \<and> low \<le> entry \<and> entry < high \<and> entry AND 3 = 0 then 0 else -1, Some entry), st))
      else case store_record B low high st of
        (None, st) \<Rightarrow> (Inl (-1, None), st)
      | (Some (low, high), st) \<Rightarrow> (Inr (data_records + 1, low, high), st))"

partial_function (option) load_loop ::
  "('d, 'b) bsp_scheme \<Rightarrow> u32 \<Rightarrow> u32 \<Rightarrow> u32 \<Rightarrow> ('d, 'z) boot_scheme \<Rightarrow>
     ((int \<times> u32 option) \<times> ('d, 'z) boot_scheme) option" where
  "load_loop B data_records low high st =
     Option.bind (skip_newlines B st) (\<lambda>(c, st).
     if c \<noteq> 0x53 then
       Some ((-1, None), xil_printf B ''SREC start %x byte %x'' [bl_flash st - 64 + of_nat (bl_pos st) - 1, of_int c] st)
     else case read_line B 513 [of_int c] st of
       (None, st) \<Rightarrow> Some ((-1, None), st)
     | (Some line, st) \<Rightarrow>
         (case load_record B data_records low high line st of
            (Inl r, st) \<Rightarrow> Some (r, st)
          | (Inr (data_records, low, high), st) \<Rightarrow> load_loop B data_records low high st))"

definition load :: "('d, 'b) bsp_scheme \<Rightarrow> ('d, 'z) boot_scheme \<Rightarrow> ((int \<times> u32 option) \<times> ('d, 'z) boot_scheme) option" where
  "load B st = load_loop B 0 RAM_END RAM_START st"

datatype boot_result = Boot_failed | Jump u32

definition boot_offsets :: "nat list" where
  "boot_offsets = [0, 8, 16, 32]"

definition vectors_seen :: "('d, 'z) boot_scheme \<Rightarrow> bool" where
  "vectors_seen st = list_all (\<lambda>off. list_all (\<lambda>j. bl_seen st ! (off + j) \<noteq> 0) [0..<8]) boot_offsets"

definition install_vectors :: "('d, 'b) bsp_scheme \<Rightarrow> ('d, 'z) boot_scheme \<Rightarrow> ('d, 'z) boot_scheme" where
  "install_vectors B st =
     fold (\<lambda>off st. fold (\<lambda>j st. Xil_Out8 B (of_nat (off + j)) (bl_vectors st ! (off + j)) st) [0..<8] st) boot_offsets st"

definition boot_fail :: "('d, 'b) bsp_scheme \<Rightarrow> ('d, 'z) machine_scheme \<Rightarrow> boot_result \<times> ('d, 'z) machine_scheme" where
  "boot_fail B st = (Boot_failed, xil_printf B ''Boot failed; application not started'' [] st)"

text \<open>\<open>main\<close> up to the load, in three stages; \<open>False\<close> is \<open>goto fail\<close>. First processor and console.\<close>

definition boot_start :: "('d, 'b) boot_bsp_scheme \<Rightarrow> ('d, 'z) machine_scheme \<Rightarrow> ('d, 'z) machine_scheme" where
  "boot_start B st =
     (let st = log_event (Call ''microblaze_disable_interrupts'') st;
          st = log_event (Call ''Xil_ICacheDisable'') st; st = log_event (Call ''Xil_DCacheDisable'') st;
          st = console_init B st;
          st = xil_printf B ''SCU35 50MHz SREC boot v1.0.0'' [] st
      in Xil_Out32 B MINER_BOOT_VERSION_REG BOOTLOADER_VERSION_CODE st)"

text \<open>Then HyperRAM calibration and its configuration register.\<close>

definition hyperram_calibrate :: "('d, 'b) boot_bsp_scheme \<Rightarrow> ('d, 'z) machine_scheme \<Rightarrow> bool \<times> ('d, 'z) machine_scheme" where
  "hyperram_calibrate B st =
     (let (rc, d) = hb_idelayctrl_reset_wait_ready B HB 0x8000 (m_dev st);
          st = log_event (Call ''hb_idelayctrl_reset_wait_ready'') (st\<lparr>m_dev := d\<rparr>)
      in if rc \<noteq> 0 then (False, st)
      else let (reset, st) = Xil_In32 B (HB + HB_DELAY_RST_CTRL_OFFSET B) st;
               st = Xil_Out32 B (HB + HB_DELAY_RST_CTRL_OFFSET B) (reset OR HB_DELAY_RST_HB_RESET B) st;
               st = Xil_Out32 B (HB + HB_DELAY_RST_CTRL_OFFSET B) (reset AND NOT (HB_DELAY_RST_HB_RESET B)) st;
               (rc, d) = hb_rwds_idly_dec_below_16 B HB (m_dev st);
               st = log_event (Call ''hb_rwds_idly_dec_below_16'') (st\<lparr>m_dev := d\<rparr>)
      in if rc \<noteq> 0 then (False, st)
      else let ((rc, lo, hi, mid), d) = hb_odly_sweep_to_midpoint B HB (m_dev st);
               st = log_event (Call ''hb_odly_sweep_to_midpoint'') (st\<lparr>m_dev := d\<rparr>)
      in if rc \<noteq> 0 then (False, st)
      else let cr0 = 0xBF2F; st = Xil_Out32 B (HB + HB_CR0_OFFSET B) cr0 st;
               (v, st) = Xil_In32 B (HB + HB_CR0_OFFSET B) st
      in if v AND 0xffff \<noteq> cr0 AND 0xffff then (False, st)
      else let st = xil_printf B ''HyperRAM window %x..%x midpoint %x'' [ucast lo, ucast hi, ucast mid] st
      in (True, xil_printf B ''HyperRAM CR0 %x'' [cr0] st))"

text \<open>Then the flash: reset the SPI core, a dummy and a real Read-ID.\<close>

definition flash_identify :: "('d, 'b) bsp_scheme \<Rightarrow> ('d, 'z) machine_scheme \<Rightarrow> bool \<times> ('d, 'z) machine_scheme" where
  "flash_identify B st =
     (let st = Xil_Out32 B (SPI + 0x40) 0xA st; st = Xil_Out32 B (SPI + 0x1c) 0 st;
          (_, st) = transfer B [0x9f, 0, 0, 0] st;
          (rx, st) = transfer B [0x9f, 0, 0, 0] st
      in case rx of
        None \<Rightarrow> (False, xil_printf B ''Flash ID read failed'' [] st)
      | Some rx \<Rightarrow>
          (if rx ! 1 = 0 \<or> rx ! 1 = 255 then (False, xil_printf B ''Flash ID read failed'' [] st)
           else (True, xil_printf B ''Flash %02x%02x%02x SREC @ %08x''
                  [ucast (rx ! 1), ucast (rx ! 2), ucast (rx ! 3), FLASH_START] st)))"

definition boot_setup :: "('d, 'b) boot_bsp_scheme \<Rightarrow> ('d, 'z) machine_scheme \<Rightarrow> bool \<times> ('d, 'z) machine_scheme" where
  "boot_setup B st =
     (let (ok, st) = hyperram_calibrate B (boot_start B st)
      in if \<not> ok then (False, st) else flash_identify B st)"

definition boot_main :: "('d, 'b) boot_bsp_scheme \<Rightarrow> ('d, 'z) boot_scheme \<Rightarrow> (boot_result \<times> ('d, 'z) boot_scheme) option" where
  "boot_main B st =
     (let (ok, st) = boot_setup B st
      in if \<not> ok then Some (boot_fail B st)
      else Option.bind (load B st) (\<lambda>((rc, entry), st).
        if rc \<noteq> 0 then Some (boot_fail B st)
        else if \<not> vectors_seen st then Some (boot_fail B st)
        else let st = install_vectors B st;
                 st = log_event (Call ''Xil_ICacheInvalidate'') st;
                 st = xil_printf B ''Jump %08x'' [the entry] st
             in Some (Jump (the entry), st)))"

text \<open>The static variables before \<open>main\<close>.\<close>

definition boot_init :: "'d \<Rightarrow> 'd boot" where
  "boot_init d = \<lparr>m_dev = d, m_trace = [], bl_cache = replicate 64 0, bl_vectors = replicate 0x50 0,
     bl_seen = replicate 0x50 0, bl_flash = FLASH_START, bl_pos = 64, bl_record = srec_blank\<rparr>"

section \<open>Static variables and trace of the primitive operations\<close>

text \<open>The bus primitives leave the static variables alone.\<close>

named_theorems more_simps

lemma more_primitives [more_simps, simp]:
  "machine.more (log_event e st) = machine.more st"
  "machine.more (Xil_Out32 B a v st) = machine.more st"
  "machine.more (Xil_Out8 B a b st) = machine.more st"
  "machine.more (xil_printf B f args st) = machine.more st"
  "machine.more (snd (Xil_In32 B a st)) = machine.more st"
  "machine.more (snd (Xil_In8 B a st)) = machine.more st"
  by (simp_all add: log_event_def Xil_Out32_def Xil_Out8_def xil_printf_def Xil_In32_def Xil_In8_def split_def Let_def)

lemma more_transfer_wait [more_simps, simp]: "machine.more (snd (transfer_wait B g st)) = machine.more st"
  by (induction g arbitrary: st) (simp_all add: split_def Let_def)

lemma more_transfer_rx [more_simps, simp]: "machine.more (snd (transfer_rx B g n rx st)) = machine.more st"
  by (induction n arbitrary: g rx st) (simp_all add: split_def Let_def)

lemma more_fold_Out32: "machine.more (fold (\<lambda>b. Xil_Out32 B a (f b)) xs st) = machine.more st"
  by (induction xs arbitrary: st) simp_all

lemma more_transfer [more_simps, simp]: "machine.more (snd (transfer B tx st)) = machine.more st"
  by (simp add: transfer_def Let_def split_def more_fold_Out32)

lemma more_boot:
  "machine.more st = machine.more st' \<Longrightarrow> bl_cache st = bl_cache st' \<and> bl_vectors st = bl_vectors st' \<and>
     bl_seen st = bl_seen st' \<and> bl_flash st = bl_flash st' \<and> bl_pos st = bl_pos st' \<and> bl_record st = bl_record st'"
  by (cases st; cases st') simp

lemma transfer_length: "transfer B tx st = (Some rx, st') \<Longrightarrow> length rx = length tx"
proof -
  have "transfer_rx B g n rx0 st0 = (Some rx, st1) \<Longrightarrow> length rx = length rx0 + n" for g n rx0 st0 rx st1
    by (induction n arbitrary: g rx0 st0) (fastforce simp: split_def Let_def split: if_splits)+
  then show "transfer B tx st = (Some rx, st') \<Longrightarrow> length rx = length tx"
    by (force simp: transfer_def Let_def split: prod.splits)
qed

section \<open>The flash is read to its end at most\<close>

definition boot_inv :: "('d, 'z) boot_scheme \<Rightarrow> bool" where
  "boot_inv st \<longleftrightarrow> bl_pos st \<le> 64 \<and> length (bl_cache st) = 64 \<and> length (bl_vectors st) = 0x50 \<and>
     length (bl_seen st) = 0x50 \<and> length (sr_data (bl_record st)) = 252"

text \<open>The bytes of the flash window that are still to be returned.\<close>

definition remaining :: "('d, 'z) boot_scheme \<Rightarrow> nat" where
  "remaining st = (unat FLASH_END - unat (bl_flash st)) + (64 - bl_pos st)"

text \<open>What the loader may do on the bus: byte writes only inside the RAM window.\<close>

definition load_event :: "mmio \<Rightarrow> bool" where
  "load_event e = (case e of Out8 a v \<Rightarrow> RAM_START \<le> a \<and> a < RAM_END | _ \<Rightarrow> True)"

lemma emits_load [emit_intros]:
  "emits load_event st (Xil_Out32 B a v st)" "emits load_event st (xil_printf B f args st)"
  "emits load_event st (snd (Xil_In32 B a st))" "emits load_event st (snd (Xil_In8 B a st))"
  by (rule emits_Out32 emits_printf emits_In32 [OF prod.collapse [symmetric]] emits_In8 [OF prod.collapse [symmetric]],
      simp add: load_event_def)+

lemma emits_transfer_wait: "emits load_event st (snd (transfer_wait B g st))"
proof (induction g arbitrary: st)
  case (Suc g)
  show ?case
    by (auto simp: split_def Let_def intro: emits_trans [OF emits_load(3) Suc] emits_load(3))
qed simp

lemma emits_transfer_rx: "emits load_event st (snd (transfer_rx B g n rx st))"
proof (induction n arbitrary: g rx st)
  case (Suc n)
  show ?case
    by (auto simp: split_def Let_def
        intro: emits_trans [OF emits_transfer_wait emits_trans [OF emits_load(3) Suc]] emits_transfer_wait)
qed simp

lemma emits_transfer: "emits load_event st (snd (transfer B tx st))"
  unfolding transfer_def Let_def split_def snd_conv
  apply (rule emits_trans [OF _ emits_load(1)], rule emits_trans [OF _ emits_load(1)])
  apply (rule emits_trans [OF _ emits_transfer_rx])
  apply (rule emits_trans [OF _ emits_load(1)], rule emits_trans [OF _ emits_load(1)])
  apply (rule emits_trans [OF _ emits_fold [OF emits_load(1)]])
  apply (rule emits_trans [OF emits_load(1) emits_load(1)])
  done

text \<open>Reading keeps the invariant and everything but the device, the trace and the cache.\<close>

definition boot_reads :: "('d, 'z) boot_scheme \<Rightarrow> ('d, 'z) boot_scheme \<Rightarrow> bool" where
  "boot_reads st st' \<longleftrightarrow> boot_inv st' \<and> remaining st' \<le> remaining st \<and> bl_vectors st' = bl_vectors st \<and>
     bl_seen st' = bl_seen st \<and> bl_record st' = bl_record st \<and> emits load_event st st'"

lemma boot_reads_trans [trans]: "boot_reads st st' \<Longrightarrow> boot_reads st' st'' \<Longrightarrow> boot_reads st st''"
  by (auto simp: boot_reads_def intro: emits_trans)

lemma boot_reads_more:
  "machine.more st' = machine.more st \<Longrightarrow> boot_inv st \<Longrightarrow> emits load_event st st' \<Longrightarrow> boot_reads st st'"
  by (drule more_boot) (simp add: boot_reads_def boot_inv_def remaining_def)

lemma get_byte_reads:
  assumes "boot_inv st" "get_byte B st = (c, st')"
  shows "boot_reads st st' \<and> (c = -1 \<or> 0 \<le> c \<and> c < 256 \<and> remaining st' < remaining st)"
proof (cases "bl_pos st = 64")
  case False
  with assms show ?thesis
    using uint_bounded [of "bl_cache st ! bl_pos st"]
    by (auto simp: get_byte_def boot_inv_def boot_reads_def remaining_def emits_def)
next
  case True
  define tx where "tx = flash_command (bl_flash st)"
  obtain rx st1 where t: "transfer B tx st = (rx, st1)" by fastforce
  then have more: "machine.more st1 = machine.more st" and em: "emits load_event st st1"
    using more_transfer [of B tx st] emits_transfer [of st B tx] by simp_all
  show ?thesis
  proof (cases "bl_flash st > FLASH_END - 64 \<or> rx = None")
    case True
    with \<open>bl_pos st = 64\<close> assms(2) t have "c = -1 \<and> (st' = st \<or> st' = st1)"
      by (auto simp: get_byte_def tx_def Let_def split: if_splits)
    with boot_reads_more [OF more assms(1) em] boot_reads_more [OF refl assms(1) emits_refl] show ?thesis by auto
  next
    case False
    then obtain r where r: "rx = Some r" "bl_flash st \<le> FLASH_END - 64" by (auto simp: not_less)
    then have f: "unat (bl_flash st + 64) = unat (bl_flash st) + 64" "unat (bl_flash st) + 64 \<le> unat FLASH_END"
      by (simp_all add: FLASH_END_def word_le_nat_alt unat_word_ariths)
    define st2 where "st2 = st1\<lparr>bl_cache := map (\<lambda>i. r ! (i + 4)) [0..<64], bl_flash := bl_flash st + 64, bl_pos := 1\<rparr>"
    have "c = uint (r ! 4)" "st' = st2"
      using assms(2) \<open>bl_pos st = 64\<close> r(1) t False by (auto simp: get_byte_def tx_def Let_def st2_def)
    moreover have "boot_reads st st2 \<and> remaining st2 < remaining st"
      using assms(1) more_boot [OF more] f \<open>bl_pos st = 64\<close> em
      by (auto simp: boot_reads_def boot_inv_def remaining_def st2_def emits_def)
    ultimately show ?thesis using uint_bounded [of "r ! 4"] by simp
  qed
qed

lemma skip_newlines_total:
  assumes "boot_inv st"
  shows "\<exists>c st'. skip_newlines B st = Some (c, st') \<and> boot_reads st st' \<and>
    (c = -1 \<or> 0 \<le> c \<and> c < 256 \<and> remaining st' < remaining st)"
  using assms
proof (induction "remaining st" arbitrary: st rule: less_induct)
  case less
  obtain c st1 where g: "get_byte B st = (c, st1)" by fastforce
  note r = get_byte_reads [OF less.prems g]
  show ?case
  proof (cases "c = 0x0D \<or> c = 0x0A")
    case False
    with g r show ?thesis by (subst skip_newlines.simps) auto
  next
    case True
    with r have "remaining st1 < remaining st" "boot_inv st1" by (auto simp: boot_reads_def)
    from less.hyps [OF this] obtain c' st' where "skip_newlines B st1 = Some (c', st')" "boot_reads st1 st'"
      "c' = -1 \<or> 0 \<le> c' \<and> c' < 256 \<and> remaining st' < remaining st1" by blast
    with True g r show ?thesis by (subst skip_newlines.simps) (auto intro: boot_reads_trans)
  qed
qed

lemma read_line_reads:
  "boot_inv st \<Longrightarrow> read_line B k line st = (r, st') \<Longrightarrow> boot_reads st st' \<and> (\<forall>l. r = Some l \<longrightarrow> length l \<le> length line + k)"
proof (induction k arbitrary: line st)
  case 0
  with get_byte_reads [of st B] show ?case
    by (subst (asm) read_line.simps) (auto simp: Let_def split: prod.splits if_splits)
next
  case (Suc k)
  obtain c st1 where g: "get_byte B st = (c, st1)" by fastforce
  note r = get_byte_reads [OF Suc.prems(1) g]
  show ?case
  proof (cases "c < 0 \<or> c = 0x0D \<or> c = 0x0A")
    case True
    with Suc.prems(2) g r show ?thesis by (subst (asm) read_line.simps) (auto split: if_splits)
  next
    case False
    with Suc.prems(2) g have "read_line B k (line @ [of_int c]) st1 = (r, st')"
      by (subst (asm) read_line.simps) simp
    from Suc.IH [OF _ this] r show ?thesis by (auto simp: boot_reads_def intro: emits_trans)
  qed
qed

section \<open>Loading\<close>

lemma store_ram_more: "machine.more (snd (store_ram B a bs st)) = machine.more st"
proof (induction bs arbitrary: a st)
  case (Cons b bs)
  show ?case by (simp add: split_def Let_def Cons)
qed simp

lemma store_ram_emits:
  assumes "RAM_START \<le> a" "unat a + length bs \<le> unat RAM_END"
  shows "emits load_event st (snd (store_ram B a bs st))"
  using assms
proof (induction bs arbitrary: a st)
  case (Cons b bs)
  then have a: "a < RAM_END" by (simp add: word_less_nat_alt)
  then have next_a: "unat (a + 1) = unat a + 1" by (simp add: RAM_END_def word_less_nat_alt unat_word_ariths)
  with Cons.prems have "RAM_START \<le> a + 1" "unat (a + 1) + length bs \<le> unat RAM_END"
    by (simp_all add: word_le_nat_alt)
  note IH = Cons.IH [OF this]
  have "emits load_event st (Xil_Out8 B a b st)"
    by (rule emits_Out8) (simp add: load_event_def Cons.prems(1) a)
  also have "emits load_event \<dots> (snd (Xil_In8 B a (Xil_Out8 B a b st)))" by (rule emits_load)
  finally have access: "emits load_event st (snd (Xil_In8 B a (Xil_Out8 B a b st)))" .
  show ?case
    by (auto simp: split_def Let_def intro: emits_trans [OF access IH] emits_trans [OF access emits_load(2)])
qed simp

lemma store_vectors_spec:
  "m_trace (store_vectors a bs st) = m_trace st" "length (bl_vectors (store_vectors a bs st)) = length (bl_vectors st)"
  "length (bl_seen (store_vectors a bs st)) = length (bl_seen st)" "bl_record (store_vectors a bs st) = bl_record st"
  "bl_pos (store_vectors a bs st) = bl_pos st" "bl_flash (store_vectors a bs st) = bl_flash st"
  "bl_cache (store_vectors a bs st) = bl_cache st"
proof -
  have "m_trace (fold f ns st) = m_trace st \<and> length (bl_vectors (fold f ns st)) = length (bl_vectors st) \<and>
    length (bl_seen (fold f ns st)) = length (bl_seen st) \<and> bl_record (fold f ns st) = bl_record st \<and>
    bl_pos (fold f ns st) = bl_pos st \<and> bl_flash (fold f ns st) = bl_flash st \<and> bl_cache (fold f ns st) = bl_cache st"
    if "f = (\<lambda>i st. st\<lparr>bl_vectors := (bl_vectors st)[unat a + i := bs ! i], bl_seen := (bl_seen st)[unat a + i := 1]\<rparr>)"
    for f :: "nat \<Rightarrow> ('a, 'b) boot_scheme \<Rightarrow> ('a, 'b) boot_scheme" and ns
    unfolding that by (induction ns arbitrary: st) simp_all
  from this [OF refl] show "m_trace (store_vectors a bs st) = m_trace st" "length (bl_vectors (store_vectors a bs st)) = length (bl_vectors st)"
  "length (bl_seen (store_vectors a bs st)) = length (bl_seen st)" "bl_record (store_vectors a bs st) = bl_record st"
  "bl_pos (store_vectors a bs st) = bl_pos st" "bl_flash (store_vectors a bs st) = bl_flash st"
  "bl_cache (store_vectors a bs st) = bl_cache st"
    unfolding store_vectors_def by simp_all
qed

lemma store_record_spec:
  assumes "boot_inv st" "RAM_START \<le> low" "high \<le> RAM_END" "store_record B low high st = (r, st')"
  shows "boot_inv st' \<and> remaining st' = remaining st \<and> emits load_event st st' \<and>
    (\<forall>l h. r = Some (l, h) \<longrightarrow> RAM_START \<le> l \<and> h \<le> RAM_END)"
proof -
  define a size bs where "a = sr_address (bl_record st)" and "size = sr_size (bl_record st)"
    and "bs = take size (sr_data (bl_record st))"
  have bs: "length bs \<le> size" by (simp add: bs_def)
  consider (vec) "a < 0x50" "size \<le> 0x50 - unat a" | (ram) "\<not> (a < 0x50 \<and> size \<le> 0x50 - unat a)"
      "RAM_START \<le> a" "a < RAM_END" "size \<le> unat (RAM_END - a)"
    | (bad) "\<not> (a < 0x50 \<and> size \<le> 0x50 - unat a)" "\<not> (RAM_START \<le> a \<and> a < RAM_END \<and> size \<le> unat (RAM_END - a))"
    by blast
  then show ?thesis
  proof cases
    case vec
    with assms(4) have "r = Some (low, high)" "st' = store_vectors a bs st"
      by (simp_all add: store_record_def Let_def a_def size_def bs_def)
    with assms(1-3) show ?thesis
      by (simp add: boot_inv_def remaining_def store_vectors_spec emits_def)
  next
    case ram
    obtain ok st1 where s: "store_ram B a bs st = (ok, st1)" by fastforce
    with assms(4) ram have r: "st' = st1" "r = (if ok then Some (if a < low then a else low,
        if high < a + of_nat size then a + of_nat size else high) else None)"
      by (auto simp: store_record_def Let_def a_def size_def bs_def split: if_splits)
    have "unat (RAM_END - a) = unat RAM_END - unat a" using ram(3) by (simp add: unat_sub word_less_nat_alt word_le_nat_alt)
    with ram(3,4) have fits: "unat a + size \<le> unat RAM_END" by (simp add: word_less_nat_alt)
    then have "unat (a + of_nat size) = unat a + size"
      by (simp add: unat_word_ariths unat_of_nat RAM_END_def)
    with fits have "a + of_nat size \<le> RAM_END" by (simp add: word_le_nat_alt)
    moreover have "emits load_event st st1"
      using store_ram_emits [OF ram(2), of bs st B] fits bs s by simp
    moreover have "boot_inv st1" "remaining st1 = remaining st"
      using store_ram_more [of B a bs st] s assms(1) more_boot [of st1 st] by (simp_all add: boot_inv_def remaining_def)
    ultimately show ?thesis using r assms(2,3) ram(2) by auto
  next
    case bad
    with assms show ?thesis by (auto simp: store_record_def Let_def a_def size_def)
  qed
qed

text \<open>One pass of the loop: it ends the load, or goes on with the bounds inside the RAM window.\<close>

definition load_result :: "int \<times> u32 option \<Rightarrow> bool" where
  "load_result r \<longleftrightarrow> fst r = -1 \<or>
     fst r = 0 \<and> (\<exists>e. snd r = Some e \<and> RAM_START \<le> e \<and> e < RAM_END \<and> e AND 3 = 0)"

lemma printf_inv: "boot_inv st \<Longrightarrow> boot_inv (xil_printf B f args st)" "remaining (xil_printf B f args st) = remaining st"
  using more_boot [of "xil_printf B f args st" st] by (simp_all add: boot_inv_def remaining_def)

lemma load_record_spec:
  assumes "boot_inv st" "RAM_START \<le> low" "high \<le> RAM_END" "load_record B n low high line st = (r, st')"
  shows "boot_inv st' \<and> remaining st' = remaining st \<and> emits load_event st st' \<and>
    (case r of Inl x \<Rightarrow> load_result x | Inr (n, l, h) \<Rightarrow> RAM_START \<le> l \<and> h \<le> RAM_END)"
proof -
  obtain rc rec where parse: "srec_parse line (bl_record st) = (rc, rec)" by fastforce
  define st1 where "st1 = st\<lparr>bl_record := rec\<rparr>"
  have st1: "boot_inv st1" "remaining st1 = remaining st" "emits load_event st st1"
    using assms(1) srec_parse_data [of line "bl_record st"] parse
    by (simp_all add: st1_def boot_inv_def remaining_def emits_def)
  obtain w st2 where store: "store_record B low high st1 = (w, st2)" by fastforce
  note w = store_record_spec [OF st1(1) assms(2,3) store]
  consider "rc \<noteq> 0" | "rc = 0" "sr_type rec = 0 \<or> (sr_type rec = 5 \<or> sr_type rec = 6)" | "rc = 0" "7 \<le> sr_type rec"
    | "rc = 0" "sr_type rec \<noteq> 0" "sr_type rec \<noteq> 5" "sr_type rec \<noteq> 6" "\<not> 7 \<le> sr_type rec" by fastforce
  then show ?thesis
  proof cases
    case 1
    with assms(4) parse st1 show ?thesis
      by (auto simp: load_record_def st1_def [symmetric] load_result_def printf_inv intro: emits_trans [OF _ emits_load(2)])
  next
    case 2
    with assms parse st1 show ?thesis
      by (auto simp: load_record_def st1_def [symmetric] load_result_def split: if_splits)
  next
    case 3
    with assms(2-4) parse st1 show ?thesis
      by (auto simp: load_record_def st1_def [symmetric] load_result_def Let_def intro: order_trans less_le_trans)
  next
    case 4
    with assms(4) parse st1 w store show ?thesis
      by (auto simp: load_record_def st1_def [symmetric] load_result_def intro: emits_trans split: option.splits)
  qed
qed

lemma load_loop_total:
  assumes "boot_inv st" "RAM_START \<le> low" "high \<le> RAM_END"
  shows "\<exists>r st'. load_loop B n low high st = Some (r, st') \<and> boot_inv st' \<and> emits load_event st st' \<and> load_result r"
  using assms
proof (induction "remaining st" arbitrary: n low high st rule: less_induct)
  case less
  from skip_newlines_total [OF less.prems(1)] obtain c st1 where
    skip: "skip_newlines B st = Some (c, st1)" "boot_reads st st1" "c = -1 \<or> 0 \<le> c \<and> c < 256 \<and> remaining st1 < remaining st"
    by blast
  note step = load_loop.simps [of B n low high st, unfolded skip(1) bind.simps prod.case]
  show ?case
  proof (cases "c = 0x53")
    case False
    with skip(2) show ?thesis
      by (subst step) (auto simp: load_result_def boot_reads_def printf_inv intro: emits_trans [OF _ emits_load(2)])
  next
    case c: True
    obtain l st2 where line: "read_line B 513 [of_int c] st1 = (l, st2)" by fastforce
    from read_line_reads [OF _ this] skip(2) have "boot_reads st1 st2" by (simp add: boot_reads_def)
    with skip c have r2: "boot_inv st2" "remaining st2 < remaining st" "emits load_event st st2"
      by (auto simp: boot_reads_def intro: emits_trans)
    show ?thesis
    proof (cases l)
      case None
      with c line r2 show ?thesis by (subst step) (auto simp: load_result_def)
    next
      case (Some ln)
      obtain r st3 where rec: "load_record B n low high ln st2 = (r, st3)" by fastforce
      note spec = load_record_spec [OF r2(1) less.prems(2,3) rec]
      with r2(3) have em: "emits load_event st st3" by (blast intro: emits_trans)
      show ?thesis
      proof (cases r)
        case (Inl x)
        with c line Some rec spec em show ?thesis by (subst step) auto
      next
        case (Inr y)
        then obtain n' l' h' where y: "r = Inr (n', l', h')" by (cases y) auto
        with spec r2(2) have "remaining st3 < remaining st" "boot_inv st3" "RAM_START \<le> l'" "h' \<le> RAM_END" by auto
        from less.hyps [OF this, of n'] em
        have "\<exists>r st'. load_loop B n' l' h' st3 = Some (r, st') \<and> boot_inv st' \<and> emits load_event st st' \<and> load_result r"
          by (blast intro: emits_trans)
        with c line Some rec y show ?thesis by (subst step) auto
      qed
    qed
  qed
qed

section \<open>The boot sequence\<close>

text \<open>\<open>emits load_event\<close>, one operation at a time.\<close>

lemma emits_dev: "emits P st (t\<lparr>m_dev := d\<rparr>) = emits P st t"
  by (simp add: emits_def)

lemma emits_steps:
  assumes "emits load_event st t"
  shows "emits load_event st (Xil_Out32 B a v t)" "emits load_event st (xil_printf B f args t)"
    "emits load_event st (snd (Xil_In32 B a t))" "emits load_event st (snd (transfer B tx t))"
    "emits load_event st (log_event (Call g) t)"
proof -
  have "load_event (Call g)" by (simp add: load_event_def)
  then show "emits load_event st (Xil_Out32 B a v t)" "emits load_event st (xil_printf B f args t)"
    "emits load_event st (snd (Xil_In32 B a t))" "emits load_event st (snd (transfer B tx t))"
    "emits load_event st (log_event (Call g) t)"
    by (blast intro: emits_trans [OF assms] emits_load emits_transfer emits_log)+
qed

lemma console_init_step: "emits load_event st t \<Longrightarrow> emits load_event st (console_init B t)"
  unfolding console_init_def Let_def by (intro emits_steps)

lemma boot_start_step: "emits load_event st t \<Longrightarrow> emits load_event st (boot_start B t)"
  unfolding boot_start_def Let_def by (intro emits_steps console_init_step)

lemma flash_identify_step: "emits load_event st t \<Longrightarrow> emits load_event st (snd (flash_identify B t))"
  by (simp add: flash_identify_def Let_def split_def emits_steps split: option.split)

lemma hyperram_calibrate_step: "emits load_event st t \<Longrightarrow> emits load_event st (snd (hyperram_calibrate B t))"
  by (simp add: hyperram_calibrate_def Let_def split_def emits_steps emits_dev)

lemma boot_setup_emits: "emits load_event st (snd (boot_setup B st))"
  by (simp add: boot_setup_def split_def Let_def flash_identify_step hyperram_calibrate_step boot_start_step)

lemma boot_start_more [simp]: "machine.more (boot_start B st) = machine.more st"
  by (simp add: boot_start_def console_init_def Let_def)

lemma hyperram_calibrate_more [simp]: "machine.more (snd (hyperram_calibrate B st)) = machine.more st"
  by (simp add: hyperram_calibrate_def Let_def split_def)

lemma flash_identify_more [simp]: "machine.more (snd (flash_identify B st)) = machine.more st"
  by (simp add: flash_identify_def Let_def split_def split: option.split)

lemma boot_setup_more: "machine.more (snd (boot_setup B st)) = machine.more st"
  by (simp add: boot_setup_def split_def Let_def)

definition vector_writes :: "('d, 'z) boot_scheme \<Rightarrow> mmio list" where
  "vector_writes st = concat (map (\<lambda>off. map (\<lambda>j. Out8 (of_nat (off + j)) (bl_vectors st ! (off + j))) [0..<8]) boot_offsets)"

lemma fold_vectors:
  "m_trace (fold (\<lambda>i st. Xil_Out8 B (of_nat i) (bl_vectors st ! i) st) is st) =
     m_trace st @ map (\<lambda>i. Out8 (of_nat i) (bl_vectors st ! i)) is \<and>
   machine.more (fold (\<lambda>i st. Xil_Out8 B (of_nat i) (bl_vectors st ! i) st) is st) = machine.more st"
proof (induction "is" arbitrary: st)
  case (Cons i "is")
  have "bl_vectors (Xil_Out8 B a v st) = bl_vectors st" "m_trace (Xil_Out8 B a v st) = m_trace st @ [Out8 a v]" for a v
    by (simp_all add: Xil_Out8_def log_event_def)
  with Cons show ?case by simp
qed simp

lemma install_vectors_trace:
  "m_trace (install_vectors B st) = m_trace st @ vector_writes st" "machine.more (install_vectors B st) = machine.more st"
proof -
  define ns where "ns = concat (map (\<lambda>off. map (\<lambda>j. off + j) [0..<8]) boot_offsets)"
  have "install_vectors B st = fold (\<lambda>i st. Xil_Out8 B (of_nat i) (bl_vectors st ! i) st) ns st"
    by (simp add: install_vectors_def ns_def boot_offsets_def fold_map comp_def)
  moreover have "vector_writes st = map (\<lambda>i. Out8 (of_nat i) (bl_vectors st ! i)) ns"
    by (simp add: vector_writes_def ns_def boot_offsets_def comp_def)
  ultimately show "m_trace (install_vectors B st) = m_trace st @ vector_writes st"
    "machine.more (install_vectors B st) = machine.more st"
    using fold_vectors [of B ns st] by simp_all
qed

lemma boot_init_inv: "boot_inv (boot_init d)"
  by (simp add: boot_inv_def boot_init_def srec_blank_def)

section \<open>Properties\<close>


text \<open>
  C19. A data record counts as stored in RAM only if every byte has been written at its address, in order,
  and read back equal right after the write.
\<close>

theorem store_ram_verified:
  assumes "store_ram B a bs st = (True, st')"
  shows "m_trace st' = m_trace st @ concat (map (\<lambda>i. [Out8 (a + of_nat i) (bs ! i), In8 (a + of_nat i) (bs ! i)]) [0..<length bs])"
  using assms
proof (induction bs arbitrary: a st)
  case (Cons b bs)
  obtain v st1 where r: "Xil_In8 B a (Xil_Out8 B a b st) = (v, st1)" by fastforce
  then have "m_trace st1 = m_trace st @ [Out8 a b, In8 a v]"
    by (auto simp: Xil_In8_def Xil_Out8_def log_event_def split: prod.splits)
  moreover from Cons.prems r have "v = b" "store_ram B (a + 1) bs st1 = (True, st')" by (auto split: if_splits)
  moreover have "[0..<length (b # bs)] = 0 # map Suc [0..<length bs]"
    by (simp add: upt_conv_Cons map_Suc_upt del: upt_Suc)
  ultimately show ?case using Cons.IH by (simp add: comp_def ac_simps)
qed simp

text \<open>A board whose bus is a byte memory, for concrete runs.\<close>

definition ram_bsp :: "(u32 \<Rightarrow> u8) bsp" where
  "ram_bsp = \<lparr>bsp_in32 = \<lambda>a m. (0, m), bsp_out32 = \<lambda>a v m. m, bsp_in8 = \<lambda>a m. (m a, m),
     bsp_out8 = \<lambda>a v m. m(a := v), bsp_printf = \<lambda>f args m. m\<rparr>"

theorem store_ram_verified_witness:
  "m_trace (snd (store_ram ram_bsp RAM_START [7, 9] \<lparr>m_dev = \<lambda>_. 0, m_trace = []\<rparr>)) =
     [Out8 0x80000000 7, In8 0x80000000 7, Out8 0x80000001 9, In8 0x80000001 9]"
proof -
  let ?st = "\<lparr>m_dev = \<lambda>_. 0, m_trace = []\<rparr> :: (u32 \<Rightarrow> u8) machine"
  have "store_ram ram_bsp RAM_START [7, 9] ?st = (True, snd (store_ram ram_bsp RAM_START [7, 9] ?st))"
    by (simp add: ram_bsp_def Xil_Out8_def Xil_In8_def log_event_def)
  from store_ram_verified [OF this] show ?thesis by (simp add: RAM_START_def upt_rec)
qed

end
