(* ===== verification/Json_Helpers.thy ===== *)
theory Json_Helpers
  imports Target
begin

text \<open>
  \<open>common/json_helpers.h\<close>: typed access to the fields of a JSON text. The JSON library (coreJSON) is not
  part of the repository: \<open>JSON_SearchConst\<close> is the parameter \<open>search\<close>, which gives for a text and a query
  path the bytes and the type of the value found there (for a string, the bytes between the quotes).
\<close>

section \<open>The code\<close>

datatype json_type = JSONInvalid | JSONString | JSONNumber | JSONTrue | JSONFalse | JSONNull | JSONObject | JSONArray

datatype json_found = JSONSuccess bytes json_type | JSONNotFound | JSONOther

type_synonym json_search = "bytes \<Rightarrow> bytes \<Rightarrow> json_found"

definition json_char_ok :: "u8 \<Rightarrow> bool" where
  "json_char_ok c \<longleftrightarrow> \<not> (c = 0x5C \<or> c < 32 \<or> 126 < c)"

text \<open>The result code and the output buffer; \<open>cap\<close> is its size.\<close>

definition json_string :: "json_search \<Rightarrow> bytes \<Rightarrow> string \<Rightarrow> bytes \<Rightarrow> nat \<Rightarrow> int \<times> bytes" where
  "json_string search b q out cap =
     (case search b (ascii q) of
        JSONSuccess v t \<Rightarrow>
          (if t \<noteq> JSONString \<or> cap \<le> length v then (-1, out)
           else if \<not> list_all json_char_ok v then (-1, out)
           else (0, (memcpy_at out 0 v)[length v := 0]))
      | _ \<Rightarrow> (-1, out))"

fun json_u32_loop :: "bytes \<Rightarrow> u32 \<Rightarrow> u32 option" where
  "json_u32_loop [] r = Some r"
| "json_u32_loop (c # v) r =
     (if c < 0x30 \<or> 0x39 < c \<or> (0xFFFFFFFF - ucast (c - 0x30)) div 10 < r then None
      else json_u32_loop v (r * 10 + ucast (c - 0x30)))"

text \<open>The value stored through the pointer, when the code returns \<open>0\<close>.\<close>

definition json_u32 :: "json_search \<Rightarrow> bytes \<Rightarrow> string \<Rightarrow> u32 option" where
  "json_u32 search b q =
     (case search b (ascii q) of
        JSONSuccess v t \<Rightarrow> (if t \<noteq> JSONNumber \<or> length v = 0 then None else json_u32_loop v 0)
      | _ \<Rightarrow> None)"

definition json_true :: "json_search \<Rightarrow> bytes \<Rightarrow> string \<Rightarrow> bool" where
  "json_true search b q = (case search b (ascii q) of JSONSuccess v t \<Rightarrow> t = JSONTrue | _ \<Rightarrow> False)"

section \<open>Strings\<close>

text \<open>The characters that a field may hold: printable ASCII but no backslash, so that no escape sequence has to be interpreted.\<close>

definition printable :: "u8 \<Rightarrow> bool" where
  "printable c \<longleftrightarrow> unat c \<in> {32..126} - {92}"

lemma json_char_ok_printable: "json_char_ok = printable"
proof
  show "json_char_ok c = printable c" for c by (auto simp: json_char_ok_def printable_def word_less_nat_alt word_unat_eq_iff)
qed

text \<open>A stored string is NUL-terminated, printable and holds no backslash; its length is below the capacity.\<close>

lemma json_string_stored:
  assumes "json_string search b q out cap = (0, out')" "cap \<le> length out"
  obtains v where "search b (ascii q) = JSONSuccess v JSONString" "length v < cap" "list_all json_char_ok v"
    "out' = v @ 0 # drop (length v + 1) out" "cstr out' = v"
proof -
  from assms(1) obtain v where v: "search b (ascii q) = JSONSuccess v JSONString" "length v < cap"
    "list_all json_char_ok v" "out' = (memcpy_at out 0 v)[length v := 0]"
    by (auto simp: json_string_def split: json_found.splits if_splits)
  have "drop (length v) out = out ! length v # drop (length v + 1) out"
    using v(2) assms(2) by (simp add: Cons_nth_drop_Suc)
  then have out': "out' = v @ 0 # drop (length v + 1) out"
    by (simp add: v(4) memcpy_at_def list_update_append)
  moreover have "0 \<notin> set v" using v(3) by (auto simp: list_all_iff json_char_ok_def)
  ultimately have "cstr out' = v" by (simp add: cstr_append_nul)
  with v out' that show ?thesis by blast
qed

lemma json_string_length:
  "cap \<le> length out \<Longrightarrow> length (snd (json_string search b q out cap)) = length out"
  by (auto simp: json_string_def memcpy_at_def split: json_found.splits if_splits)

lemma json_string_fail: "fst (json_string search b q out cap) \<noteq> 0 \<Longrightarrow> snd (json_string search b q out cap) = out"
  by (auto simp: json_string_def split: json_found.splits if_splits)

section \<open>Numbers\<close>

text \<open>The overflow test in front of each step is exact.\<close>

lemma u32_step:
  assumes "0x30 \<le> c" "c \<le> 0x39"
  shows "(0xFFFFFFFF - ucast (c - 0x30)) div 10 < (r :: u32) \<longleftrightarrow> 2 ^ 32 \<le> unat r * 10 + unat (c - 0x30 :: u8)"
    and "unat r * 10 + unat (c - 0x30 :: u8) < 2 ^ 32 \<Longrightarrow> unat (r * 10 + ucast (c - 0x30)) = unat r * 10 + unat (c - 0x30 :: u8)"
proof -
  have d: "unat (c - 0x30) \<le> 9" using assms by (simp add: word_le_nat_alt unat_sub_if')
  have u: "unat (ucast (c - 0x30) :: u32) = unat (c - 0x30)" using d by (simp add: unat_ucast_mod)
  have le: "ucast (c - 0x30) \<le> (0xFFFFFFFF :: u32)" by (simp add: word_le_nat_alt u, use d in linarith)
  have "unat ((0xFFFFFFFF - ucast (c - 0x30)) div 10 :: u32) = (4294967295 - unat (c - 0x30)) div 10"
    by (simp add: unat_div unat_sub [OF le] u)
  then show "(0xFFFFFFFF - ucast (c - 0x30)) div 10 < (r :: u32) \<longleftrightarrow> 2 ^ 32 \<le> unat r * 10 + unat (c - 0x30 :: u8)"
    using d by (simp add: word_less_nat_alt) linarith
  show "unat (r * 10 + ucast (c - 0x30)) = unat r * 10 + unat (c - 0x30 :: u8)"
    if "unat r * 10 + unat (c - 0x30 :: u8) < 2 ^ 32"
    using that by (simp add: unat_word_ariths u)
qed

lemma json_u32_loop_exact:
  "json_u32_loop v r = Some x \<longleftrightarrow> list_all is_digit v \<and> unat x = unat r * 10 ^ length v + digits_val v"
proof (induction v arbitrary: r)
  case (Cons c v)
  let ?n = "unat r * 10 + digit_val c"
  have val: "unat r * 10 ^ length (c # v) + digits_val (c # v) = ?n * 10 ^ length v + digits_val v"
    by (simp add: algebra_simps)
  show ?case
  proof (cases "is_digit c")
    case False
    then have "json_u32_loop (c # v) r = None" by (auto simp: is_digit_alt)
    with False show ?thesis by simp
  next
    case digit: True
    then have c: "0x30 \<le> c" "c \<le> 0x39" by (simp_all add: is_digit_def)
    note step = u32_step [OF c, of r, folded digit_val_def]
    show ?thesis
    proof (cases "?n < 2 ^ 32")
      case True
      then have "json_u32_loop (c # v) r = json_u32_loop v (r * 10 + ucast (c - 0x30))" using c step(1) by auto
      then show ?thesis using digit by (simp only: Cons step(2) [OF True] val list.pred_inject simp_thms)
    next
      case False
      then have "json_u32_loop (c # v) r = None" using c step(1) by auto
      moreover have "unat x \<noteq> ?n * 10 ^ length v + digits_val v"
      proof -
        have "4294967296 \<le> ?n" using False by simp
        also have "?n \<le> ?n * 10 ^ length v" by simp
        finally show ?thesis using unat_u32_less [of x] by linarith
      qed
      ultimately show ?thesis using val by simp
    qed
  qed
qed (auto simp: word_unat_eq_iff)

section \<open>Properties\<close>

text \<open>
  C20. \<open>json_u32\<close> is exact: it returns a number just when the field is a JSON number made only of decimal
  digits whose value fits 32 bits, and then that value; no input wraps around.
\<close>

theorem json_u32_exact:
  "json_u32 search b q = Some x \<longleftrightarrow>
     (\<exists>v. search b (ascii q) = JSONSuccess v JSONNumber \<and> v \<noteq> [] \<and> list_all is_digit v \<and> digits_val v = unat x)"
  by (auto simp: json_u32_def json_u32_loop_exact split: json_found.splits if_splits)

text \<open>
  C21. \<open>json_string\<close> succeeds exactly when the field is a string that is shorter than the capacity and made only of printable
  characters (ASCII 32 to 126) other than the backslash. It never writes outside its buffer, leaves it alone on failure, and on success leaves a
  NUL-terminated copy of the value.
\<close>

theorem json_string_safe:
  assumes "cap \<le> length out"
  shows "case json_string search b q out cap of (rc, out') \<Rightarrow>
    length out' = length out \<and> drop cap out' = drop cap out \<and>
    (rc = 0 \<longleftrightarrow> (\<exists>v. search b (ascii q) = JSONSuccess v JSONString \<and> length v < cap \<and> list_all printable v)) \<and>
    (rc = -1 \<and> out' = out \<or>
     rc = 0 \<and> length (cstr out') < cap \<and> list_all printable (cstr out') \<and>
       search b (ascii q) = JSONSuccess (cstr out') JSONString)"
proof -
  have ok: "fst (json_string search b q out cap) = 0 \<longleftrightarrow>
      (\<exists>v. search b (ascii q) = JSONSuccess v JSONString \<and> length v < cap \<and> list_all printable v)"
    by (auto simp: json_string_def json_char_ok_printable split: json_found.splits)
  obtain rc out' where r: "json_string search b q out cap = (rc, out')" by fastforce
  then have "rc = 0 \<or> rc = -1" by (auto simp: json_string_def split: json_found.splits if_splits)
  then show ?thesis
  proof
    assume "rc = 0"
    with r assms obtain v where v: "search b (ascii q) = JSONSuccess v JSONString" "length v < cap"
      "list_all json_char_ok v" "out' = v @ 0 # drop (length v + 1) out" "cstr out' = v"
      by (metis json_string_stored)
    moreover have "drop cap out' = drop cap out"
    proof -
      have "drop (cap - length v) (0 # drop (length v + 1) out) = drop cap out"
        using v(2) by (cases "cap - length v") (simp_all, metis Suc_diff_Suc add_Suc diff_Suc_Suc diff_add_inverse drop_drop le_add_diff_inverse2 less_imp_le plus_1_eq_Suc diff_Suc_1 add.commute)
      then show ?thesis using v(2,4) by simp
    qed
    ultimately show ?thesis
      using r ok \<open>rc = 0\<close> json_string_length [OF assms, of search b q] by (simp add: json_char_ok_printable)
  next
    assume "rc = -1"
    with r ok json_string_fail [of search b q out cap] show ?thesis by simp
  qed
qed

definition one_field :: "string \<Rightarrow> bytes \<Rightarrow> json_type \<Rightarrow> json_search" where
  "one_field q v t = (\<lambda>b path. if path = ascii q then JSONSuccess v t else JSONNotFound)"

theorem json_string_safe_witness:
  "(4 :: nat) \<le> length [9, 9, 9, 9, 7 :: u8] \<and>
   json_string (one_field ''id'' (ascii ''abc'') JSONString) [] ''id'' [9, 9, 9, 9, 7] 4 = (0, ascii ''abc'' @ [0, 7]) \<and>
   fst (json_string (one_field ''id'' [0x61, 0x5C] JSONString) [] ''id'' [9, 9, 9, 9, 7] 4) \<noteq> 0"
  using json_string_safe [of 4 "[9, 9, 9, 9, 7]" "one_field ''id'' (ascii ''abc'') JSONString" "[]" "''id''"]
    json_string_safe [of 4 "[9, 9, 9, 9, 7]" "one_field ''id'' [0x61, 0x5C] JSONString" "[]" "''id''"]
  by (simp add: json_string_def one_field_def json_char_ok_def memcpy_at_def cstr_def)

end
