(* ===== verification/Cformat.thy ===== *)
theory Cformat
  imports Target Bitcoin
begin

text \<open>
  The formatted output of the C library, as far as the firmware uses it: \<open>snprintf\<close> as a function of the
  complete text (it stores at most \<open>cap - 1\<close> characters and a NUL, and returns the length of the
  complete text), the conversions \<open>%lu\<close>, \<open>%d\<close>, \<open>%02x\<close> and \<open>%08lx\<close>, and \<open>strcpy\<close>.
\<close>

section \<open>Definitions\<close>

definition snprintf_to :: "bytes \<Rightarrow> nat \<Rightarrow> bytes \<Rightarrow> int \<times> bytes" where
  "snprintf_to out cap txt =
     (int (length txt), if cap = 0 then out else memcpy_at out 0 (take (cap - 1) txt @ [0]))"

definition strcpy :: "bytes \<Rightarrow> bytes \<Rightarrow> bytes" where
  "strcpy dst src = memcpy_at dst 0 (cstr src @ [0])"

fun dec_text :: "nat \<Rightarrow> bytes" where
  "dec_text n = (if n < 10 then [0x30 + of_nat n] else dec_text (n div 10) @ [0x30 + of_nat (n mod 10)])"

declare dec_text.simps [simp del]

definition int_text :: "int \<Rightarrow> bytes" where
  "int_text i = (if i < 0 then 0x2D # dec_text (nat (- i)) else dec_text (nat i))"

definition hex2_text :: "u8 \<Rightarrow> bytes" where
  "hex2_text b = hex_text [b]"

definition hex8_text :: "u32 \<Rightarrow> bytes" where
  "hex8_text w = hex_text (store_be32 w)"

section \<open>Lengths and values\<close>

lemma length_hex2_text [simp, size_simps]: "length (hex2_text b) = 2"
  by (simp add: hex2_text_def)

lemma length_hex8_text [simp, size_simps]: "length (hex8_text w) = 8"
  by (simp add: hex8_text_def)

lemma dec_text_digits: "list_all is_digit (dec_text n)"
proof (induction n rule: dec_text.induct)
  case (1 n)
  have digit: "is_digit (0x30 + of_nat k)" if "k < 10" for k
    using that by (simp add: is_digit_def word_le_nat_alt unat_word_ariths unat_of_nat)
  show ?case
  proof (cases "n < 10")
    case True
    then show ?thesis by (subst dec_text.simps) (simp add: digit)
  next
    case False
    with 1 show ?thesis by (subst dec_text.simps) (simp add: digit)
  qed
qed

lemma dec_text_val: "digits_val (dec_text n) = n"
proof (induction n rule: dec_text.induct)
  case (1 n)
  have digit: "digit_val (0x30 + of_nat k) = k" if "k < 10" for k
    using that by (simp add: digit_val_def unat_of_nat)
  show ?case
  proof (cases "n < 10")
    case True
    then show ?thesis by (subst dec_text.simps) (simp add: digit)
  next
    case False
    with 1 show ?thesis by (subst dec_text.simps) (simp add: digits_val_append digit)
  qed
qed

lemma length_dec_text: "n < 10 ^ Suc k \<Longrightarrow> length (dec_text n) \<le> Suc k"
proof (induction k arbitrary: n)
  case 0
  then show ?case by (subst dec_text.simps) simp
next
  case (Suc k)
  then have "n div 10 < 10 ^ Suc k" by (simp add: less_mult_imp_div_less)
  with Suc.IH [of "n div 10"] show ?case by (subst dec_text.simps) simp
qed

lemma dec_text_nonempty [simp]: "dec_text n \<noteq> []"
  by (subst dec_text.simps) simp

lemma length_dec_u32: "length (dec_text (unat (x :: u32))) \<le> 10"
proof -
  have "unat x < 10 ^ Suc 9" using unat_u32_less [of x] by simp
  from length_dec_text [OF this] show ?thesis by simp
qed

lemma snprintf_fits:
  "length txt < cap \<Longrightarrow> cap \<le> length out \<Longrightarrow>
   snprintf_to out cap txt = (int (length txt), txt @ 0 # drop (length txt + 1) out)"
  by (simp add: snprintf_to_def memcpy_at_def)

lemma fst_snprintf: "fst (snprintf_to out cap txt) = int (length txt)"
  by (simp add: snprintf_to_def)

lemma snprintf_zeroed:
  assumes "length txt < n"
  shows "snprintf_to (replicate n 0) n txt = (int (length txt), txt @ replicate (n - length txt) 0)"
    and "0 \<notin> set txt \<Longrightarrow> cstr (txt @ replicate (n - length txt) 0) = txt"
proof -
  have "n - length txt = Suc (n - (length txt + 1))" using assms by simp
  then have r: "replicate (n - length txt) (0 :: u8) = 0 # replicate (n - (length txt + 1)) 0" by (simp only: replicate_Suc)
  show "snprintf_to (replicate n 0) n txt = (int (length txt), txt @ replicate (n - length txt) 0)"
    unfolding r using assms by (simp add: snprintf_fits)
  show "0 \<notin> set txt \<Longrightarrow> cstr (txt @ replicate (n - length txt) 0) = txt"
    unfolding r by (rule cstr_append_nul)
qed

lemma length_snprintf [simp]: "cap \<le> length out \<Longrightarrow> length (snd (snprintf_to out cap txt)) = length out"
  by (auto simp: snprintf_to_def memcpy_at_def)

text \<open>A printed string is never longer than its text, and never holds a NUL.\<close>

lemma length_cstr_nul: "length (cstr (xs @ 0 # ys)) \<le> length xs"
  by (induction xs) (simp_all add: cstr_def)

lemma length_cstr_snprintf: "0 < cap \<Longrightarrow> length (cstr (snd (snprintf_to out cap txt))) \<le> length txt"
  using length_cstr_nul [of "take (cap - 1) txt"] by (simp add: snprintf_to_def memcpy_at_def)

lemma dec_text_no_nul: "0 \<notin> set (dec_text n)"
  using dec_text_digits [of n] by (auto simp: list_all_iff is_digit_def)

lemma hex_texts_no_nul: "0 \<notin> set (hex8_text w)" "0 \<notin> set (hex2_text b)"
  by (simp_all add: hex8_text_def hex2_text_def hex_text_no_nul)

end
