(* ===== verification/Stratum.thy ===== *)
theory Stratum
  imports Mmio Json_Helpers Cformat Settings
begin

text \<open>
  \<open>application/stratum.c\<close>: the task that speaks Stratum V1 with the pool and owns the mining registers.
  Its static variables extend the machine state. The JSON library, the TCP socket, the tick counter
  and the telemetry functions are fields of an environment record; sends and telemetry calls also
  appear in the trace, between the register accesses, in program order.
\<close>

section \<open>State\<close>

definition MINER :: u32 where "MINER = 0x44a30000"
definition LINE_MAX :: nat where "LINE_MAX = 24000"
definition RANGE :: u32 where "RANGE = 0x01000000"

record miner_event =
  ev_name :: bytes
  ev_job_id :: bytes
  ev_submission :: bytes
  ev_hash :: bytes
  ev_job_number :: u32

definition miner_event_zero :: miner_event where
  "miner_event_zero = \<lparr>ev_name = replicate 64 0, ev_job_id = replicate 128 0, ev_submission = replicate 640 0,
     ev_hash = replicate 65 0, ev_job_number = 0\<rparr>"

record pool_job =
  job_id :: bytes
  job_time :: bytes
  job_number :: u32
  job_prev :: bytes
  job_version :: bytes
  job_bits :: bytes
  job_coin1 :: bytes
  job_coin2 :: bytes
  job_branches :: "bytes list"
  job_n1 :: nat
  job_n2 :: nat
  job_nb :: nat
  job_target :: "u32 list"

record pending_share =
  pd_id :: u32
  pd_sent :: u32
  pd_event :: miner_event

record 'd stratum_env = "'d bsp" +
  env_validate :: "bytes \<Rightarrow> bool"
  env_search :: json_search
  env_send :: "bytes \<Rightarrow> 'd \<Rightarrow> int \<times> 'd"
  env_recv :: "nat \<Rightarrow> 'd \<Rightarrow> (int \<times> bytes) \<times> 'd"
  env_ewouldblock :: int
  env_ticks :: "'d \<Rightarrow> u32 \<times> 'd"
  env_settings :: "'d \<Rightarrow> (miner_settings \<times> u32) \<times> 'd"
  env_network_up :: "'d \<Rightarrow> bool"
  env_generation :: "'d \<Rightarrow> u32"
  env_gethostbyname :: "bytes \<Rightarrow> 'd \<Rightarrow> u32 \<times> 'd"
  env_socket :: "'d \<Rightarrow> bool \<times> 'd"
  env_setsockopt :: "string \<Rightarrow> u32 \<Rightarrow> 'd \<Rightarrow> 'd"
  env_connect :: "u32 \<Rightarrow> u16 \<Rightarrow> 'd \<Rightarrow> int \<times> 'd"
  env_close :: "'d \<Rightarrow> 'd"
  env_delay :: "u32 \<Rightarrow> 'd \<Rightarrow> 'd"
  env_event :: "string \<Rightarrow> 'd \<Rightarrow> 'd"
  env_detail :: "miner_event \<Rightarrow> 'd \<Rightarrow> 'd"
  env_job :: "bytes \<Rightarrow> 'd \<Rightarrow> u32 \<times> 'd"
  env_mining :: "bool \<Rightarrow> 'd \<Rightarrow> 'd"

record 'd stratum = "'d machine" +
  ss_job :: pool_job
  ss_extra1 :: bytes
  ss_extra2 :: bytes
  ss_header :: bytes
  ss_extra1_size :: nat
  ss_extra2_size :: nat
  ss_pending_target :: "u32 list"
  ss_range_start :: u32
  ss_next_id :: u32
  ss_pending :: "pending_share list"
  ss_extra2_hex :: bytes
  ss_subscribed :: bool
  ss_authorized :: bool
  ss_have_job :: bool
  ss_running :: bool
  ss_extra_exhausted :: bool
  ss_session :: miner_settings

type_synonym 'd session = "'d stratum"

section \<open>Telemetry, registers and the socket\<close>

definition tel_event :: "'d stratum_env \<Rightarrow> string \<Rightarrow> 'd session \<Rightarrow> 'd session" where
  "tel_event E s st = log_event (Event s) (st\<lparr>m_dev := env_event E s (m_dev st)\<rparr>)"

definition tel_detail :: "'d stratum_env \<Rightarrow> miner_event \<Rightarrow> 'd session \<Rightarrow> 'd session" where
  "tel_detail E ev st = log_event (Detail (cstr (ev_name ev))) (st\<lparr>m_dev := env_detail E ev (m_dev st)\<rparr>)"

definition tel_job :: "'d stratum_env \<Rightarrow> bytes \<Rightarrow> 'd session \<Rightarrow> u32 \<times> 'd session" where
  "tel_job E jid st = (let (n, d) = env_job E jid (m_dev st) in (n, log_event (Job jid) (st\<lparr>m_dev := d\<rparr>)))"

definition tel_mining :: "'d stratum_env \<Rightarrow> bool \<Rightarrow> 'd session \<Rightarrow> 'd session" where
  "tel_mining E b st = log_event (Mining b) (st\<lparr>m_dev := env_mining E b (m_dev st)\<rparr>)"

definition get_ticks :: "'d stratum_env \<Rightarrow> 'd session \<Rightarrow> u32 \<times> 'd session" where
  "get_ticks E st = (let (n, d) = env_ticks E (m_dev st) in (n, st\<lparr>m_dev := d\<rparr>))"

definition reg_read :: "'d stratum_env \<Rightarrow> u32 \<Rightarrow> 'd session \<Rightarrow> u32 \<times> 'd session" where
  "reg_read E a st = Xil_In32 E (MINER + a) st"

definition reg_write :: "'d stratum_env \<Rightarrow> u32 \<Rightarrow> u32 \<Rightarrow> 'd session \<Rightarrow> 'd session" where
  "reg_write E a v st = Xil_Out32 E (MINER + a) v st"

definition stop :: "'d stratum_env \<Rightarrow> 'd session \<Rightarrow> 'd session" where
  "stop E st =
     (let st = reg_write E 0xa0 1 st;
          st = reg_write E 0 2 st; st = st\<lparr>m_dev := env_delay E 1 (m_dev st)\<rparr>;
          st = reg_write E 0 4 st; st = reg_write E 0x98 3 st
      in tel_mining E False (st\<lparr>ss_running := False\<rparr>))"

text \<open>\<open>send_line\<close>: the rest of the text is sent again until nothing is left or a send fails.\<close>

function send_line :: "'d stratum_env \<Rightarrow> bytes \<Rightarrow> 'd session \<Rightarrow> int \<times> 'd session" where
  "send_line E s st =
     (if s = [] then (0, st)
      else let (k, d) = env_send E s (m_dev st)
      in if k \<le> 0 then (-1, st\<lparr>m_dev := d\<rparr>)
         else send_line E (drop (nat k) s) (log_event (Send (take (nat k) s)) (st\<lparr>m_dev := d\<rparr>)))"
  by pat_completeness auto
termination
  by (relation "measure (\<lambda>(E, s, st). length s)") auto

declare send_line.simps [simp del]

definition json_hex :: "'d stratum_env \<Rightarrow> bytes \<Rightarrow> string \<Rightarrow> bytes \<Rightarrow> nat \<Rightarrow> int \<times> bytes" where
  "json_hex E s query out cap =
     (case env_search E s (ascii query) of
        JSONSuccess v t \<Rightarrow>
          (if t \<noteq> JSONString then (-1, out)
           else case hex_decode v out cap of (Some k, out) \<Rightarrow> (int k, out) | (None, out) \<Rightarrow> (-1, out))
      | _ \<Rightarrow> (-1, out))"

section \<open>Work\<close>

definition start_range :: "'d stratum_env \<Rightarrow> 'd session \<Rightarrow> 'd session" where
  "start_range E st =
     (let st = reg_write E 0 4 st; st = reg_write E 0x80 (ss_range_start st) st; st = reg_write E 0x84 RANGE st;
          st = reg_write E 0 1 st
      in tel_mining E True (st\<lparr>ss_running := True\<rparr>))"

text \<open>The extranonce counter: increment from the last byte; the flag says that the whole counter wrapped.\<close>

fun extra2_incr :: "nat \<Rightarrow> bytes \<Rightarrow> bytes \<times> bool" where
  "extra2_incr 0 e = (e, False)"
| "extra2_incr (Suc i) e =
     (let e = e[i := e ! i + 1]
      in if e ! i \<noteq> 0 then (e, False) else if i = 0 then (e, True) else extra2_incr i e)"

definition load_registers :: "'d stratum_env \<Rightarrow> u32 list \<Rightarrow> u32 list \<Rightarrow> u32 list \<Rightarrow> 'd session \<Rightarrow> 'd session" where
  "load_registers E mid target tail st =
     (let st = fold (\<lambda>i st. reg_write E (0x60 + of_nat i * 4) (target ! i) (reg_write E (0x20 + of_nat i * 4) (mid ! i) st))
                 [0..<8] st
      in fold (\<lambda>i st. reg_write E (0x40 + of_nat i * 4) (tail ! i) st) [0..<4] st)"

definition build_header :: "'d stratum_env \<Rightarrow> 'd session \<Rightarrow> int \<times> 'd session" where
  "build_header E st =
     (if ss_extra_exhausted st then (-1, st)
      else let extra2 = take (ss_extra2_size st) (ss_extra2 st);
               st = st\<lparr>ss_extra2_hex := hex_encode extra2 (ss_extra2_hex st)\<rparr>;
               j = ss_job st;
               (k, time) = hex_decode (take 8 (job_time j)) (replicate 4 0) 4
      in if k \<noteq> Some 4 then (-1, st)
      else let header = bitcoin_build_header (job_version j) (job_prev j) (job_bits j) time
                 (take (job_n1 j) (job_coin1 j)) (take (ss_extra1_size st) (ss_extra1 st)) extra2
                 (take (job_n2 j) (job_coin2 j)) (take (job_nb j) (job_branches j)) (ss_header st);
               st = st\<lparr>ss_header := header\<rparr>;
               st = load_registers E (bitcoin_header_midstate header) (job_target j) (bitcoin_header_tail_words header) st;
               (e, wrapped) = extra2_incr (ss_extra2_size st) (ss_extra2 st);
               st = st\<lparr>ss_extra2 := e, ss_extra_exhausted := wrapped, ss_range_start := 0\<rparr>
      in (0, start_range E st))"

section \<open>Messages from the pool\<close>

text \<open>
  \<open>mining.notify\<close>: the scalar fields of the job, each stored as it is read (an error leaves the fields
  read so far, with no job).
\<close>

definition notify_fields :: "'d stratum_env \<Rightarrow> bytes \<Rightarrow> 'd session \<Rightarrow> int \<times> 'd session" where
  "notify_fields E s st =
     (let j = ss_job st; (rc, v) = json_string (env_search E) s ''params[0]'' (job_id j) 128; j = j\<lparr>job_id := v\<rparr>
      in if rc \<noteq> 0 \<or> v ! 0 = 0 then (-1, st\<lparr>ss_job := j\<rparr>)
      else let (k, v) = json_hex E s ''params[1]'' (job_prev j) 32; j = j\<lparr>job_prev := v\<rparr>
      in if k \<noteq> 32 then (-1, st\<lparr>ss_job := j\<rparr>)
      else let (n1, v) = json_hex E s ''params[2]'' (job_coin1 j) 4096; j = j\<lparr>job_coin1 := v\<rparr>
      in if n1 < 0 then (-1, st\<lparr>ss_job := j\<rparr>)
      else let (n2, v) = json_hex E s ''params[3]'' (job_coin2 j) 4096; j = j\<lparr>job_coin2 := v\<rparr>
      in if n2 < 0 then (-1, st\<lparr>ss_job := j\<rparr>)
      else let (k, v) = json_hex E s ''params[5]'' (job_version j) 4; j = j\<lparr>job_version := v\<rparr>
      in if k \<noteq> 4 then (-1, st\<lparr>ss_job := j\<rparr>)
      else let (k, v) = json_hex E s ''params[6]'' (job_bits j) 4; j = j\<lparr>job_bits := v\<rparr>
      in if k \<noteq> 4 then (-1, st\<lparr>ss_job := j\<rparr>)
      else let (rc, v) = json_string (env_search E) s ''params[7]'' (job_time j) 9; j = j\<lparr>job_time := v\<rparr>
      in if rc \<noteq> 0 \<or> length (cstr v) \<noteq> 8 then (-1, st\<lparr>ss_job := j\<rparr>)
      else case env_search E s (ascii ''params[4]'') of
        JSONSuccess _ t4 \<Rightarrow>
          (if t4 \<noteq> JSONArray then (-1, st\<lparr>ss_job := j\<rparr>)
           else case env_search E s (ascii ''params[8]'') of
             JSONSuccess _ t8 \<Rightarrow>
               (if t8 \<noteq> JSONTrue \<and> t8 \<noteq> JSONFalse then (-1, st\<lparr>ss_job := j\<rparr>)
                else (0, st\<lparr>ss_job := j\<lparr>job_n1 := nat n1, job_n2 := nat n2, job_nb := 0\<rparr>\<rparr>))
           | _ \<Rightarrow> (-1, st\<lparr>ss_job := j\<rparr>))
      | _ \<Rightarrow> (-1, st\<lparr>ss_job := j\<rparr>))"

text \<open>The loop over the Merkle branches, from index \<open>i\<close>, with \<open>left\<close> passes of its 33 to go.\<close>

fun notify_branches :: "'d stratum_env \<Rightarrow> bytes \<Rightarrow> nat \<Rightarrow> nat \<Rightarrow> 'd session \<Rightarrow> int \<times> 'd session" where
  "notify_branches E s 0 i st = (0, st)"
| "notify_branches E s (Suc left) i st =
     (case env_search E s (ascii ''params[4]['' @ dec_text i @ ascii '']'') of
        JSONNotFound \<Rightarrow> (0, st)
      | JSONOther \<Rightarrow> (-1, st)
      | JSONSuccess v t \<Rightarrow>
          (if t \<noteq> JSONString \<or> i = 32 then (-1, st)
           else let (k, b) = hex_decode v (job_branches (ss_job st) ! i) 32;
                    j = (ss_job st)\<lparr>job_branches := (job_branches (ss_job st))[i := b]\<rparr>
           in if k \<noteq> Some 32 then (-1, st\<lparr>ss_job := j\<rparr>)
              else notify_branches E s left (i + 1) (st\<lparr>ss_job := j\<lparr>job_nb := job_nb j + 1\<rparr>\<rparr>)))"

definition notify_job :: "'d stratum_env \<Rightarrow> bytes \<Rightarrow> 'd session \<Rightarrow> int \<times> 'd session" where
  "notify_job E s st =
     (if \<not> ss_subscribed st then (-1, st)
      else let st = stop E st; st = st\<lparr>ss_have_job := False\<rparr>; (rc, st) = notify_fields E s st
      in if rc \<noteq> 0 then (-1, st)
      else let (rc, st) = notify_branches E s 33 0 st
      in if rc \<noteq> 0 then (-1, st)
      else let st = st\<lparr>ss_job := (ss_job st)\<lparr>job_target := ss_pending_target st\<rparr>, ss_have_job := True\<rparr>;
               (n, st) = tel_job E (cstr (job_id (ss_job st))) st;
               st = st\<lparr>ss_job := (ss_job st)\<lparr>job_number := n\<rparr>\<rparr>
      in if ss_authorized st then build_header E st else (0, st))"

definition set_difficulty :: "'d stratum_env \<Rightarrow> bytes \<Rightarrow> 'd session \<Rightarrow> int \<times> 'd session" where
  "set_difficulty E s st =
     (case env_search E s (ascii ''params[0]'') of
        JSONSuccess v t \<Rightarrow>
          (if t \<noteq> JSONNumber then (-1, st)
           else case bitcoin_target v of
             None \<Rightarrow> (-1, st)
           | Some target \<Rightarrow> (0, tel_event E ''difficulty_changed'' (st\<lparr>ss_pending_target := target\<rparr>)))
      | _ \<Rightarrow> (-1, st))"

definition set_extranonce :: "'d stratum_env \<Rightarrow> bytes \<Rightarrow> 'd session \<Rightarrow> int \<times> 'd session" where
  "set_extranonce E s st =
     (let (k, v) = json_hex E s ''params[0]'' (ss_extra1 st) 32; st = st\<lparr>ss_extra1 := v\<rparr>
      in if k < 0 then (-1, st)
      else case json_u32 (env_search E) s ''params[1]'' of
        None \<Rightarrow> (-1, st)
      | Some count \<Rightarrow>
          (if count = 0 \<or> 16 < count then (-1, st)
           else let st = stop E st
           in (0, st\<lparr>ss_have_job := False, ss_extra1_size := nat k, ss_extra2_size := unat count,
                     ss_extra2 := replicate 16 0, ss_extra_exhausted := False\<rparr>)))"

definition notification :: "'d stratum_env \<Rightarrow> bytes \<Rightarrow> 'd session \<Rightarrow> int \<times> 'd session" where
  "notification E s st =
     (let (rc, buf) = json_string (env_search E) s ''method'' (replicate 64 0) 64; mth = cstr buf
      in if rc \<noteq> 0 then (-1, st)
      else if mth = ascii ''mining.set_difficulty'' then set_difficulty E s st
      else if mth = ascii ''mining.set_extranonce'' then set_extranonce E s st
      else if mth \<noteq> ascii ''mining.notify'' then (0, st)
      else notify_job E s st)"

text \<open>Replies: subscription (1), authorization (2), suggested difficulty (3), shares (4 and up).\<close>

definition authorize_text :: "miner_settings \<Rightarrow> bytes" where
  "authorize_text s = ascii ''{\"id\":2,\"method\":\"mining.authorize\",\"params\":[\"'' @ cstr (ms_worker s) @ ascii ''\",\"''
     @ cstr (ms_password s) @ ascii ''\"]}'' @ [0x0A]"

definition reply_subscribe :: "'d stratum_env \<Rightarrow> bytes \<Rightarrow> 'd session \<Rightarrow> int \<times> 'd session" where
  "reply_subscribe E s st =
     (if ss_subscribed st then (-1, st)
      else let (k, v) = json_hex E s ''result[1]'' (ss_extra1 st) 32; st = st\<lparr>ss_extra1 := v\<rparr>
      in if k < 0 then (-1, st)
      else case json_u32 (env_search E) s ''result[2]'' of
        None \<Rightarrow> (-1, st)
      | Some count \<Rightarrow>
          (if count = 0 \<or> 16 < count then (-1, st)
           else let st = st\<lparr>ss_extra1_size := nat k, ss_extra2_size := unat count, ss_subscribed := True\<rparr>;
                    (_, request) = snprintf_to (replicate 512 0) 512 (authorize_text (ss_session st))
           in send_line E (cstr request) st))"

definition reply_authorize :: "'d stratum_env \<Rightarrow> bytes \<Rightarrow> 'd session \<Rightarrow> int \<times> 'd session" where
  "reply_authorize E s st =
     (if \<not> ss_subscribed st \<or> ss_authorized st then (-1, st)
      else if \<not> json_true (env_search E) s ''result'' then (-1, tel_event E ''authorization_failed'' st)
      else let st = tel_event E ''pool_authorized'' (st\<lparr>ss_authorized := True\<rparr>);
               (rc, st) = send_line E (ascii ''{\"id\":3,\"method\":\"mining.suggest_difficulty\",\"params\":[0.0001]}'' @ [0x0A]) st
      in if rc \<noteq> 0 then (-1, st)
         else if ss_have_job st then build_header E st else (0, st))"

fun reply_share :: "'d stratum_env \<Rightarrow> bytes \<Rightarrow> u32 \<Rightarrow> nat list \<Rightarrow> 'd session \<Rightarrow> 'd session" where
  "reply_share E s rid [] st = st"
| "reply_share E s rid (i # is) st =
     (let p = ss_pending st ! i
      in if 4 \<le> rid \<and> pd_id p = rid then
           (let verdict = (if json_true (env_search E) s ''result'' then ascii ''solution_accepted'' else ascii ''solution_rejected'');
                ev = (pd_event p)\<lparr>ev_name := snd (snprintf_to (ev_name (pd_event p)) 64 verdict)\<rparr>
            in tel_detail E ev (st\<lparr>ss_pending := (ss_pending st)[i := p\<lparr>pd_id := 0, pd_event := ev\<rparr>]\<rparr>))
         else reply_share E s rid is st)"

definition reply :: "'d stratum_env \<Rightarrow> bytes \<Rightarrow> 'd session \<Rightarrow> int \<times> 'd session" where
  "reply E s st =
     (case json_u32 (env_search E) s ''id'' of
        None \<Rightarrow> (0, st)
      | Some rid \<Rightarrow>
          (if rid = 1 then reply_subscribe E s st
           else if rid = 2 then reply_authorize E s st
           else (0, reply_share E s rid [0..<8] st)))"

definition handle_line :: "'d stratum_env \<Rightarrow> bytes \<Rightarrow> 'd session \<Rightarrow> int \<times> 'd session" where
  "handle_line E s st =
     (if \<not> env_validate E s then (-1, st)
      else case env_search E s (ascii ''method'') of
        JSONSuccess _ _ \<Rightarrow> notification E s st
      | _ \<Rightarrow> reply E s st)"

section \<open>Results of the hardware\<close>

text \<open>The comparison of the digest, a little-endian number, with the target words, from the top byte.\<close>

fun share_check :: "bytes \<Rightarrow> u32 list \<Rightarrow> nat list \<Rightarrow> bool" where
  "share_check digest target [] = True"
| "share_check digest target (i # is) =
     (let t = (ucast (drop_bit (24 - 8 * (i mod 4)) (target ! (i div 4))) :: u8)
      in if digest ! (31 - i) < t then True
         else if t < digest ! (31 - i) then False
         else share_check digest target is)"

fun free_slot :: "pending_share list \<Rightarrow> nat list \<Rightarrow> nat option" where
  "free_slot ps [] = None"
| "free_slot ps (i # is) = (if pd_id (ps ! i) = 0 then Some i else free_slot ps is)"

definition submit_text :: "u32 \<Rightarrow> miner_settings \<Rightarrow> pool_job \<Rightarrow> bytes \<Rightarrow> u32 \<Rightarrow> bytes" where
  "submit_text rid s j extra2_hex nonce =
     ascii ''{\"id\":'' @ dec_text (unat rid) @ ascii '',\"method\":\"mining.submit\",\"params\":[\"'' @ cstr (ms_worker s)
       @ ascii ''\",\"'' @ cstr (job_id j) @ ascii ''\",\"'' @ cstr extra2_hex @ ascii ''\",\"'' @ cstr (job_time j)
       @ ascii ''\",\"'' @ hex8_text (bitcoin_swap32 nonce) @ ascii ''\"]}'' @ [0x0A]"

definition submitted_event :: "pool_job \<Rightarrow> bytes \<Rightarrow> bytes \<Rightarrow> miner_event" where
  "submitted_event j request digest =
     (let ev = miner_event_zero;
          ev = ev\<lparr>ev_name := strcpy (ev_name ev) (ascii ''solution_submitted'' @ [0])\<rparr>;
          ev = ev\<lparr>ev_job_id := strcpy (ev_job_id ev) (job_id j)\<rparr>;
          ev = ev\<lparr>ev_job_number := job_number j\<rparr>;
          ev = ev\<lparr>ev_submission := strcpy (ev_submission ev) request\<rparr>;
          display_hash = map (\<lambda>i. digest ! (31 - i)) [0..<32]
      in ev\<lparr>ev_hash := hex_encode display_hash (ev_hash ev)\<rparr>)"

text \<open>One candidate nonce: verify it, find a slot and an id, send the share, remember it.\<close>

definition submit_share :: "'d stratum_env \<Rightarrow> u32 \<Rightarrow> 'd session \<Rightarrow> int \<times> 'd session" where
  "submit_share E nonce st =
     (let st = st\<lparr>ss_header := memcpy_at (ss_header st) 76 (map (\<lambda>i. ucast (drop_bit (24 - i * 8) nonce)) [0..<4])\<rparr>;
          digest = sha256d (take 80 (ss_header st))
      in if \<not> share_check digest (job_target (ss_job st)) [0..<32] then (-1, tel_event E ''hardware_solution_invalid'' st)
      else case free_slot (ss_pending st) [0..<8] of
        None \<Rightarrow> (-1, tel_event E ''share_queue_full'' st)
      | Some slot \<Rightarrow>
     (if ss_next_id st < 4 then (-1, st)
      else let rid = ss_next_id st; st = st\<lparr>ss_next_id := rid + 1\<rparr>;
               (len, request) = snprintf_to (replicate 640 0) 640
                 (submit_text rid (ss_session st) (ss_job st) (ss_extra2_hex st) nonce)
      in if len \<le> 0 \<or> 640 \<le> len then (-1, st)
      else let (rc, st) = send_line E (cstr request) st
      in if rc \<noteq> 0 then (-1, st)
      else let (now, st) = get_ticks E st; ev = submitted_event (ss_job st) request digest;
               p = \<lparr>pd_id = rid, pd_sent = now, pd_event = ev\<rparr>
      in (0, tel_detail E ev (st\<lparr>ss_pending := (ss_pending st)[slot := p]\<rparr>))))"

fun drain_results :: "'d stratum_env \<Rightarrow> nat \<Rightarrow> 'd session \<Rightarrow> int \<times> 'd session" where
  "drain_results E 0 st = (0, st)"
| "drain_results E (Suc k) st =
     (let (v, st) = reg_read E 0x98 st
      in if v AND 1 = 0 then (0, st)
      else let (nonce, st) = reg_read E 0x90 st; st = reg_write E 0x98 1 st; (rc, st) = submit_share E nonce st
      in if rc \<noteq> 0 then (rc, st) else drain_results E k st)"

definition service_results :: "'d stratum_env \<Rightarrow> 'd session \<Rightarrow> int \<times> 'd session" where
  "service_results E st =
     (if \<not> ss_running st then (0, st)
      else let (v, st) = reg_read E 4 st
      in if v AND 8 \<noteq> 0 then (-1, tel_event E ''result_fifo_overflow'' st)
      else let (rc, st) = drain_results E 16 st
      in if rc \<noteq> 0 then (rc, st)
      else let (v, st) = reg_read E 4 st
      in if v AND 4 = 0 then (0, st)
      else let (v, st) = reg_read E 0x98 st
      in if v AND 1 \<noteq> 0 then (0, st)
      else let st = st\<lparr>ss_range_start := ss_range_start st + RANGE\<rparr>
      in if ss_range_start st = 0 then build_header E (stop E st) else (0, start_range E st))"

section \<open>The session\<close>

text \<open>The state at the start of a connection (lines 191-192 of the task).\<close>

definition session_reset :: "'d session \<Rightarrow> 'd session" where
  "session_reset st =
     st\<lparr>ss_subscribed := False, ss_authorized := False, ss_have_job := False, ss_running := False,
       ss_extra_exhausted := False, ss_extra2 := replicate 16 0,
       ss_pending := replicate 8 \<lparr>pd_id = 0, pd_sent = 0, pd_event = miner_event_zero\<rparr>, ss_next_id := 4,
       ss_pending_target := (case bitcoin_target (ascii ''1'') of Some t \<Rightarrow> t | None \<Rightarrow> ss_pending_target st)\<rparr>"

text \<open>
  The bytes of one received chunk, with the line collected so far and the time of the last line;
  the flag is \<open>bad\<close>.
\<close>

fun session_rx :: "'d stratum_env \<Rightarrow> bytes \<Rightarrow> bytes \<Rightarrow> u32 \<Rightarrow> 'd session \<Rightarrow> bool \<times> bytes \<times> u32 \<times> 'd session" where
  "session_rx E [] line last_rx st = (False, line, last_rx, st)"
| "session_rx E (c # chunk) line last_rx st =
     (if c = 0x0A then
        (let (rc, st) = (if line = [] then (0, st) else handle_line E line st)
         in if rc \<noteq> 0 then (True, line, last_rx, st)
            else let (now, st) = get_ticks E st in session_rx E chunk [] now st)
      else if length line < LINE_MAX then session_rx E chunk (line @ [c]) last_rx st
      else (True, line, last_rx, st))"

text \<open>Shares whose reply is overdue (30 s at 100 ticks a second).\<close>

fun session_timeouts :: "'d stratum_env \<Rightarrow> u32 \<Rightarrow> nat list \<Rightarrow> bool \<Rightarrow> 'd session \<Rightarrow> bool \<times> 'd session" where
  "session_timeouts E now [] bad st = (bad, st)"
| "session_timeouts E now (i # is) bad st =
     (let p = ss_pending st ! i
      in if pd_id p \<noteq> 0 \<and> 3000 < now - pd_sent p then
           (let ev = (pd_event p)\<lparr>ev_name := strcpy (ev_name (pd_event p)) (ascii ''share_reply_timeout'' @ [0])\<rparr>
            in session_timeouts E now is True (tel_detail E ev (st\<lparr>ss_pending := (ss_pending st)[i := p\<lparr>pd_event := ev\<rparr>]\<rparr>)))
         else session_timeouts E now is bad st)"

text \<open>
  One pass of the receive loop, in two halves. The first receives and handles bytes and checks the
  deadlines (\<open>None\<close> leaves the loop, otherwise the line, the time of the last line and the current time);
  the second serves the hardware and checks the shares in flight (\<open>False\<close> leaves the loop).
\<close>

definition session_receive ::
  "'d stratum_env \<Rightarrow> u32 \<Rightarrow> bytes \<Rightarrow> u32 \<Rightarrow> 'd session \<Rightarrow> (bytes \<times> u32 \<times> u32) option \<times> 'd session" where
  "session_receive E started line last_rx st =
     (let ((n, chunk), d) = env_recv E 512 (m_dev st); st = st\<lparr>m_dev := d\<rparr>
      in if n < 0 \<and> n \<noteq> - env_ewouldblock E then (None, st)
      else let (bad, line, last_rx, st) = session_rx E (take (nat n) chunk) line last_rx st; (now, st) = get_ticks E st
      in if bad \<or> \<not> ss_authorized st \<and> 1500 < now - started \<or> 12000 < now - last_rx then (None, st)
         else (Some (line, last_rx, now), st))"

definition session_service :: "'d stratum_env \<Rightarrow> u32 \<Rightarrow> 'd session \<Rightarrow> bool \<times> 'd session" where
  "session_service E now st =
     (let (rc, st) = service_results E st
      in if rc \<noteq> 0 then (False, st)
      else let (bad, st) = session_timeouts E now [0..<8] False st in (\<not> bad, st))"

definition session_end :: "'d stratum_env \<Rightarrow> 'd session \<Rightarrow> 'd session" where
  "session_end E st =
     (let st = (stop E st)\<lparr>ss_have_job := False\<rparr>;
          st = log_event (Call ''FreeRTOS_closesocket'') (st\<lparr>m_dev := env_close E (m_dev st)\<rparr>);
          st = tel_event E ''pool_disconnected'' st
      in st\<lparr>m_dev := env_delay E 300 (m_dev st)\<rparr>)"

text \<open>
  \<open>stratum_task\<close> as a machine with three control points: before a connection, at the head of the receive
  loop with its local variables, and in the middle of it, before \<open>service_results\<close>. A step runs from one
  control point to the next.
\<close>

datatype task_point =
    Connecting
  | Receiving (rx_generation: u32) (rx_started: u32) (rx_line: bytes) (rx_last: u32)
  | Serving (rx_generation: u32) (rx_started: u32) (rx_line: bytes) (rx_last: u32) (rx_now: u32)

definition delay_ticks :: "'d stratum_env \<Rightarrow> u32 \<Rightarrow> 'd session \<Rightarrow> 'd session" where
  "delay_ticks E n st = st\<lparr>m_dev := env_delay E n (m_dev st)\<rparr>"

definition subscribe_text :: bytes where
  "subscribe_text = ascii ''{\"id\":1,\"method\":\"mining.subscribe\",\"params\":[\"SCU35/1\"]}'' @ [0x0A]"

definition session_open :: "'d stratum_env \<Rightarrow> u32 \<Rightarrow> u32 \<Rightarrow> 'd session \<Rightarrow> task_point \<times> 'd session" where
  "session_open E generation address st =
     (let st = st\<lparr>m_dev := env_setsockopt E ''FREERTOS_SO_SNDTIMEO'' 300 (m_dev st)\<rparr>;
          st = st\<lparr>m_dev := env_setsockopt E ''FREERTOS_SO_RCVTIMEO'' 300 (m_dev st)\<rparr>;
          st = session_reset st;
          (rc, d) = env_connect E address (ms_port (ss_session st)) (m_dev st); st = st\<lparr>m_dev := d\<rparr>
      in if rc \<noteq> 0 then (Connecting, session_end E st)
      else let (rc, st) = send_line E subscribe_text st
      in if rc \<noteq> 0 then (Connecting, session_end E st)
      else let st = st\<lparr>m_dev := env_setsockopt E ''FREERTOS_SO_RCVTIMEO'' 10 (m_dev st)\<rparr>;
               st = tel_event E ''pool_connected'' st; (started, st) = get_ticks E st
      in (Receiving generation started [] started, st))"

definition session_connect :: "'d stratum_env \<Rightarrow> 'd session \<Rightarrow> task_point \<times> 'd session" where
  "session_connect E st =
     (let ((s, generation), d) = env_settings E (m_dev st); st = st\<lparr>ss_session := s, m_dev := d\<rparr>
      in if \<not> env_network_up E (m_dev st) \<or> ms_host s ! 0 = 0 \<or> ms_worker s ! 0 = 0 then (Connecting, delay_ticks E 100 st)
      else let (address, d) = env_gethostbyname E (cstr (ms_host s)) (m_dev st); st = st\<lparr>m_dev := d\<rparr>
      in if address = 0 then (Connecting, delay_ticks E 500 (tel_event E ''pool_dns_failed'' st))
      else let (valid, d) = env_socket E (m_dev st); st = st\<lparr>m_dev := d\<rparr>
      in if \<not> valid then (Connecting, delay_ticks E 100 st)
      else session_open E generation address st)"

fun stratum_step :: "'d stratum_env \<Rightarrow> task_point \<times> 'd session \<Rightarrow> task_point \<times> 'd session" where
  "stratum_step E (Connecting, st) = session_connect E st"
| "stratum_step E (Receiving generation started line last_rx, st) =
     (if env_network_up E (m_dev st) \<and> generation = env_generation E (m_dev st) then
        (case session_receive E started line last_rx st of
           (Some (line, last_rx, now), st) \<Rightarrow> (Serving generation started line last_rx now, st)
         | (None, st) \<Rightarrow> (Connecting, session_end E st))
      else (Connecting, session_end E st))"
| "stratum_step E (Serving generation started line last_rx now, st) =
     (case session_service E now st of
        (True, st) \<Rightarrow> (Receiving generation started line last_rx, st)
      | (False, st) \<Rightarrow> (Connecting, session_end E st))"

text \<open>The static variables at reset, and the task's first action.\<close>

definition stratum_init :: "'d \<Rightarrow> 'd session" where
  "stratum_init d = \<lparr>m_dev = d, m_trace = [],
     ss_job = \<lparr>job_id = replicate 128 0, job_time = replicate 9 0, job_number = 0, job_prev = replicate 32 0,
       job_version = replicate 4 0, job_bits = replicate 4 0, job_coin1 = replicate 4096 0, job_coin2 = replicate 4096 0,
       job_branches = replicate 32 (replicate 32 0), job_n1 = 0, job_n2 = 0, job_nb = 0, job_target = replicate 8 0\<rparr>,
     ss_extra1 = replicate 32 0, ss_extra2 = replicate 16 0, ss_header = replicate 80 0, ss_extra1_size = 0, ss_extra2_size = 0,
     ss_pending_target = replicate 8 0, ss_range_start = 0, ss_next_id = 0,
     ss_pending = replicate 8 \<lparr>pd_id = 0, pd_sent = 0, pd_event = miner_event_zero\<rparr>, ss_extra2_hex = replicate 33 0,
     ss_subscribed = False, ss_authorized = False, ss_have_job = False, ss_running = False, ss_extra_exhausted = False,
     ss_session = \<lparr>ms_mac = replicate 6 0, ms_port = 0, ms_host = replicate 96 0, ms_worker = replicate 128 0,
       ms_password = replicate 64 0\<rparr>\<rparr>"

definition stratum_boot :: "'d stratum_env \<Rightarrow> 'd \<Rightarrow> task_point \<times> 'd session" where
  "stratum_boot E d = (Connecting, stop E (stratum_init d))"

section \<open>What the primitive operations leave alone\<close>

lemma more_stratum:
  "machine.more st = machine.more st' \<Longrightarrow>
     ss_job st = ss_job st' \<and> ss_extra1 st = ss_extra1 st' \<and> ss_extra2 st = ss_extra2 st' \<and> ss_header st = ss_header st' \<and>
     ss_extra1_size st = ss_extra1_size st' \<and> ss_extra2_size st = ss_extra2_size st' \<and> ss_pending_target st = ss_pending_target st' \<and> ss_range_start st = ss_range_start st' \<and>
     ss_next_id st = ss_next_id st' \<and> ss_pending st = ss_pending st' \<and> ss_extra2_hex st = ss_extra2_hex st' \<and> ss_subscribed st = ss_subscribed st' \<and>
     ss_authorized st = ss_authorized st' \<and> ss_have_job st = ss_have_job st' \<and> ss_running st = ss_running st' \<and> ss_extra_exhausted st = ss_extra_exhausted st' \<and>
     ss_session st = ss_session st'"
  by (cases st; cases st') simp

lemma tel_event_fields [simp]:
  "ss_job (tel_event E s st) = ss_job st" "ss_extra1 (tel_event E s st) = ss_extra1 st"
  "ss_extra2 (tel_event E s st) = ss_extra2 st" "ss_header (tel_event E s st) = ss_header st"
  "ss_extra1_size (tel_event E s st) = ss_extra1_size st" "ss_extra2_size (tel_event E s st) = ss_extra2_size st"
  "ss_pending_target (tel_event E s st) = ss_pending_target st" "ss_range_start (tel_event E s st) = ss_range_start st"
  "ss_next_id (tel_event E s st) = ss_next_id st" "ss_pending (tel_event E s st) = ss_pending st"
  "ss_extra2_hex (tel_event E s st) = ss_extra2_hex st" "ss_subscribed (tel_event E s st) = ss_subscribed st"
  "ss_authorized (tel_event E s st) = ss_authorized st" "ss_have_job (tel_event E s st) = ss_have_job st"
  "ss_running (tel_event E s st) = ss_running st" "ss_extra_exhausted (tel_event E s st) = ss_extra_exhausted st"
  "ss_session (tel_event E s st) = ss_session st"
  by (simp_all add: tel_event_def tel_detail_def tel_mining_def reg_write_def Xil_Out32_def log_event_def)

lemma tel_detail_fields [simp]:
  "ss_job (tel_detail E ev st) = ss_job st" "ss_extra1 (tel_detail E ev st) = ss_extra1 st"
  "ss_extra2 (tel_detail E ev st) = ss_extra2 st" "ss_header (tel_detail E ev st) = ss_header st"
  "ss_extra1_size (tel_detail E ev st) = ss_extra1_size st" "ss_extra2_size (tel_detail E ev st) = ss_extra2_size st"
  "ss_pending_target (tel_detail E ev st) = ss_pending_target st" "ss_range_start (tel_detail E ev st) = ss_range_start st"
  "ss_next_id (tel_detail E ev st) = ss_next_id st" "ss_pending (tel_detail E ev st) = ss_pending st"
  "ss_extra2_hex (tel_detail E ev st) = ss_extra2_hex st" "ss_subscribed (tel_detail E ev st) = ss_subscribed st"
  "ss_authorized (tel_detail E ev st) = ss_authorized st" "ss_have_job (tel_detail E ev st) = ss_have_job st"
  "ss_running (tel_detail E ev st) = ss_running st" "ss_extra_exhausted (tel_detail E ev st) = ss_extra_exhausted st"
  "ss_session (tel_detail E ev st) = ss_session st"
  by (simp_all add: tel_event_def tel_detail_def tel_mining_def reg_write_def Xil_Out32_def log_event_def)

lemma tel_mining_fields [simp]:
  "ss_job (tel_mining E b st) = ss_job st" "ss_extra1 (tel_mining E b st) = ss_extra1 st"
  "ss_extra2 (tel_mining E b st) = ss_extra2 st" "ss_header (tel_mining E b st) = ss_header st"
  "ss_extra1_size (tel_mining E b st) = ss_extra1_size st" "ss_extra2_size (tel_mining E b st) = ss_extra2_size st"
  "ss_pending_target (tel_mining E b st) = ss_pending_target st" "ss_range_start (tel_mining E b st) = ss_range_start st"
  "ss_next_id (tel_mining E b st) = ss_next_id st" "ss_pending (tel_mining E b st) = ss_pending st"
  "ss_extra2_hex (tel_mining E b st) = ss_extra2_hex st" "ss_subscribed (tel_mining E b st) = ss_subscribed st"
  "ss_authorized (tel_mining E b st) = ss_authorized st" "ss_have_job (tel_mining E b st) = ss_have_job st"
  "ss_running (tel_mining E b st) = ss_running st" "ss_extra_exhausted (tel_mining E b st) = ss_extra_exhausted st"
  "ss_session (tel_mining E b st) = ss_session st"
  by (simp_all add: tel_event_def tel_detail_def tel_mining_def reg_write_def Xil_Out32_def log_event_def)

lemma reg_write_fields [simp]:
  "ss_job (reg_write E a v st) = ss_job st" "ss_extra1 (reg_write E a v st) = ss_extra1 st"
  "ss_extra2 (reg_write E a v st) = ss_extra2 st" "ss_header (reg_write E a v st) = ss_header st"
  "ss_extra1_size (reg_write E a v st) = ss_extra1_size st" "ss_extra2_size (reg_write E a v st) = ss_extra2_size st"
  "ss_pending_target (reg_write E a v st) = ss_pending_target st" "ss_range_start (reg_write E a v st) = ss_range_start st"
  "ss_next_id (reg_write E a v st) = ss_next_id st" "ss_pending (reg_write E a v st) = ss_pending st"
  "ss_extra2_hex (reg_write E a v st) = ss_extra2_hex st" "ss_subscribed (reg_write E a v st) = ss_subscribed st"
  "ss_authorized (reg_write E a v st) = ss_authorized st" "ss_have_job (reg_write E a v st) = ss_have_job st"
  "ss_running (reg_write E a v st) = ss_running st" "ss_extra_exhausted (reg_write E a v st) = ss_extra_exhausted st"
  "ss_session (reg_write E a v st) = ss_session st"
  by (simp_all add: tel_event_def tel_detail_def tel_mining_def reg_write_def Xil_Out32_def log_event_def)

lemma reg_read_fields [simp]:
  "ss_job (snd (reg_read E a st)) = ss_job st" "ss_extra1 (snd (reg_read E a st)) = ss_extra1 st"
  "ss_extra2 (snd (reg_read E a st)) = ss_extra2 st" "ss_header (snd (reg_read E a st)) = ss_header st"
  "ss_extra1_size (snd (reg_read E a st)) = ss_extra1_size st" "ss_extra2_size (snd (reg_read E a st)) = ss_extra2_size st"
  "ss_pending_target (snd (reg_read E a st)) = ss_pending_target st"
  "ss_range_start (snd (reg_read E a st)) = ss_range_start st" "ss_next_id (snd (reg_read E a st)) = ss_next_id st"
  "ss_pending (snd (reg_read E a st)) = ss_pending st" "ss_extra2_hex (snd (reg_read E a st)) = ss_extra2_hex st"
  "ss_subscribed (snd (reg_read E a st)) = ss_subscribed st" "ss_authorized (snd (reg_read E a st)) = ss_authorized st"
  "ss_have_job (snd (reg_read E a st)) = ss_have_job st" "ss_running (snd (reg_read E a st)) = ss_running st"
  "ss_extra_exhausted (snd (reg_read E a st)) = ss_extra_exhausted st" "ss_session (snd (reg_read E a st)) = ss_session st"
  by (simp_all add: reg_read_def Xil_In32_def get_ticks_def tel_job_def log_event_def split_def Let_def)

lemma get_ticks_fields [simp]:
  "ss_job (snd (get_ticks E st)) = ss_job st" "ss_extra1 (snd (get_ticks E st)) = ss_extra1 st"
  "ss_extra2 (snd (get_ticks E st)) = ss_extra2 st" "ss_header (snd (get_ticks E st)) = ss_header st"
  "ss_extra1_size (snd (get_ticks E st)) = ss_extra1_size st" "ss_extra2_size (snd (get_ticks E st)) = ss_extra2_size st"
  "ss_pending_target (snd (get_ticks E st)) = ss_pending_target st"
  "ss_range_start (snd (get_ticks E st)) = ss_range_start st" "ss_next_id (snd (get_ticks E st)) = ss_next_id st"
  "ss_pending (snd (get_ticks E st)) = ss_pending st" "ss_extra2_hex (snd (get_ticks E st)) = ss_extra2_hex st"
  "ss_subscribed (snd (get_ticks E st)) = ss_subscribed st" "ss_authorized (snd (get_ticks E st)) = ss_authorized st"
  "ss_have_job (snd (get_ticks E st)) = ss_have_job st" "ss_running (snd (get_ticks E st)) = ss_running st"
  "ss_extra_exhausted (snd (get_ticks E st)) = ss_extra_exhausted st" "ss_session (snd (get_ticks E st)) = ss_session st"
  by (simp_all add: reg_read_def Xil_In32_def get_ticks_def tel_job_def log_event_def split_def Let_def)

lemma tel_job_fields [simp]:
  "ss_job (snd (tel_job E jid st)) = ss_job st" "ss_extra1 (snd (tel_job E jid st)) = ss_extra1 st"
  "ss_extra2 (snd (tel_job E jid st)) = ss_extra2 st" "ss_header (snd (tel_job E jid st)) = ss_header st"
  "ss_extra1_size (snd (tel_job E jid st)) = ss_extra1_size st" "ss_extra2_size (snd (tel_job E jid st)) = ss_extra2_size st"
  "ss_pending_target (snd (tel_job E jid st)) = ss_pending_target st"
  "ss_range_start (snd (tel_job E jid st)) = ss_range_start st" "ss_next_id (snd (tel_job E jid st)) = ss_next_id st"
  "ss_pending (snd (tel_job E jid st)) = ss_pending st" "ss_extra2_hex (snd (tel_job E jid st)) = ss_extra2_hex st"
  "ss_subscribed (snd (tel_job E jid st)) = ss_subscribed st" "ss_authorized (snd (tel_job E jid st)) = ss_authorized st"
  "ss_have_job (snd (tel_job E jid st)) = ss_have_job st" "ss_running (snd (tel_job E jid st)) = ss_running st"
  "ss_extra_exhausted (snd (tel_job E jid st)) = ss_extra_exhausted st" "ss_session (snd (tel_job E jid st)) = ss_session st"
  by (simp_all add: reg_read_def Xil_In32_def get_ticks_def tel_job_def log_event_def split_def Let_def)

lemma send_line_more [simp]: "machine.more (snd (send_line E s st)) = machine.more st"
proof (induction E s st rule: send_line.induct)
  case (1 E s st)
  show ?case
  proof (cases "s = [] \<or> fst (env_send E s (m_dev st)) \<le> 0")
    case True
    then show ?thesis by (subst send_line.simps) (auto simp: split_def Let_def)
  next
    case False
    with 1 [OF _ refl prod.collapse] show ?thesis
      by (subst send_line.simps) (simp add: split_def Let_def log_event_def)
  qed
qed

lemma send_line_fields [simp]:
  "ss_job (snd (send_line E s st)) = ss_job st" "ss_extra1 (snd (send_line E s st)) = ss_extra1 st"
  "ss_extra2 (snd (send_line E s st)) = ss_extra2 st" "ss_header (snd (send_line E s st)) = ss_header st"
  "ss_extra1_size (snd (send_line E s st)) = ss_extra1_size st" "ss_extra2_size (snd (send_line E s st)) = ss_extra2_size st"
  "ss_pending_target (snd (send_line E s st)) = ss_pending_target st"
  "ss_range_start (snd (send_line E s st)) = ss_range_start st" "ss_next_id (snd (send_line E s st)) = ss_next_id st"
  "ss_pending (snd (send_line E s st)) = ss_pending st" "ss_extra2_hex (snd (send_line E s st)) = ss_extra2_hex st"
  "ss_subscribed (snd (send_line E s st)) = ss_subscribed st" "ss_authorized (snd (send_line E s st)) = ss_authorized st"
  "ss_have_job (snd (send_line E s st)) = ss_have_job st" "ss_running (snd (send_line E s st)) = ss_running st"
  "ss_extra_exhausted (snd (send_line E s st)) = ss_extra_exhausted st" "ss_session (snd (send_line E s st)) = ss_session st"
  using more_stratum [OF send_line_more, of E s st] by simp_all

lemma stop_fields [simp]:
  "ss_job (stop E st) = ss_job st" "ss_extra1 (stop E st) = ss_extra1 st" "ss_extra2 (stop E st) = ss_extra2 st"
  "ss_header (stop E st) = ss_header st" "ss_extra1_size (stop E st) = ss_extra1_size st"
  "ss_extra2_size (stop E st) = ss_extra2_size st" "ss_pending_target (stop E st) = ss_pending_target st"
  "ss_range_start (stop E st) = ss_range_start st" "ss_next_id (stop E st) = ss_next_id st"
  "ss_pending (stop E st) = ss_pending st" "ss_extra2_hex (stop E st) = ss_extra2_hex st"
  "ss_subscribed (stop E st) = ss_subscribed st" "ss_authorized (stop E st) = ss_authorized st"
  "ss_have_job (stop E st) = ss_have_job st" "ss_extra_exhausted (stop E st) = ss_extra_exhausted st"
  "ss_session (stop E st) = ss_session st" "\<not> ss_running (stop E st)"
  by (simp_all add: stop_def Let_def)

lemma start_range_fields [simp]:
  "ss_job (start_range E st) = ss_job st" "ss_extra1 (start_range E st) = ss_extra1 st"
  "ss_extra2 (start_range E st) = ss_extra2 st" "ss_header (start_range E st) = ss_header st"
  "ss_extra1_size (start_range E st) = ss_extra1_size st" "ss_extra2_size (start_range E st) = ss_extra2_size st"
  "ss_pending_target (start_range E st) = ss_pending_target st" "ss_range_start (start_range E st) = ss_range_start st"
  "ss_next_id (start_range E st) = ss_next_id st" "ss_pending (start_range E st) = ss_pending st"
  "ss_extra2_hex (start_range E st) = ss_extra2_hex st" "ss_subscribed (start_range E st) = ss_subscribed st"
  "ss_authorized (start_range E st) = ss_authorized st" "ss_have_job (start_range E st) = ss_have_job st"
  "ss_extra_exhausted (start_range E st) = ss_extra_exhausted st" "ss_session (start_range E st) = ss_session st"
  "ss_running (start_range E st)"
  by (simp_all add: start_range_def Let_def)

lemma fold_reg_write_more:
  "(\<And>i st. machine.more (f i st) = machine.more st) \<Longrightarrow> machine.more (fold f is st) = machine.more (st :: 'd session)"
  by (induction "is" arbitrary: st) simp_all

lemma reg_write_more [simp]: "machine.more (reg_write E a v st) = machine.more st"
  by (simp add: reg_write_def Xil_Out32_def log_event_def)

lemma load_registers_more [simp]: "machine.more (load_registers E mid target tail st) = machine.more st"
  by (simp add: load_registers_def Let_def fold_reg_write_more)

lemma load_registers_fields [simp]:
  "ss_job (load_registers E mid target tail st) = ss_job st" "ss_extra1 (load_registers E mid target tail st) = ss_extra1 st"
  "ss_extra2 (load_registers E mid target tail st) = ss_extra2 st"
  "ss_header (load_registers E mid target tail st) = ss_header st"
  "ss_extra1_size (load_registers E mid target tail st) = ss_extra1_size st"
  "ss_extra2_size (load_registers E mid target tail st) = ss_extra2_size st"
  "ss_pending_target (load_registers E mid target tail st) = ss_pending_target st"
  "ss_range_start (load_registers E mid target tail st) = ss_range_start st"
  "ss_next_id (load_registers E mid target tail st) = ss_next_id st"
  "ss_pending (load_registers E mid target tail st) = ss_pending st"
  "ss_extra2_hex (load_registers E mid target tail st) = ss_extra2_hex st"
  "ss_subscribed (load_registers E mid target tail st) = ss_subscribed st"
  "ss_authorized (load_registers E mid target tail st) = ss_authorized st"
  "ss_have_job (load_registers E mid target tail st) = ss_have_job st"
  "ss_running (load_registers E mid target tail st) = ss_running st"
  "ss_extra_exhausted (load_registers E mid target tail st) = ss_extra_exhausted st"
  "ss_session (load_registers E mid target tail st) = ss_session st"
  using more_stratum [OF load_registers_more, of E mid target tail st] by simp_all

end
