(* ===== verification/Stratum_Work.thy ===== *)
theory Stratum_Work
  imports Stratum Srec "HOL-Library.Sublist"
begin

text \<open>
  The arithmetic of the mining work in \<open>stratum.c\<close>: the comparison of a digest with the share target,
  the extranonce counter, the registers a job loads into the hardware, and the share that is
  submitted.
\<close>

section \<open>Big-endian numbers\<close>

lemma be_val_foldl: "foldl (\<lambda>a b. 256 * a + unat (b :: u8)) n bs = n * 256 ^ length bs + be_val bs"
proof (induction bs arbitrary: n)
  case (Cons b bs)
  from Cons [of "256 * n + unat b"] Cons [of "unat b"] show ?case
    by (simp add: be_val_def algebra_simps)
qed (simp add: be_val_def)

lemma be_val_Nil [simp]: "be_val [] = 0"
  by (simp add: be_val_def)

lemma be_val_append: "be_val (xs @ ys) = be_val xs * 256 ^ length ys + be_val ys"
  using be_val_foldl [of "be_val xs" ys] by (simp add: be_val_def)

lemma be_val_Cons: "be_val (b # bs) = unat b * 256 ^ length bs + be_val bs"
  using be_val_append [of "[b]" bs] by (simp add: be_val_def)

lemma be_val_less: "be_val bs < 256 ^ length bs"
proof (induction bs)
  case (Cons b bs)
  have "unat b * 256 ^ length bs + be_val bs < unat b * 256 ^ length bs + 256 ^ length bs" using Cons by simp
  also have "\<dots> = (unat b + 1) * 256 ^ length bs" by (simp add: algebra_simps)
  also have "\<dots> \<le> 256 * 256 ^ length bs" using unat_u8_less [of b] by (intro mult_le_mono) simp_all
  finally show ?case by (simp add: be_val_Cons)
qed simp

lemma be_val_store_be32: "be_val (store_be32 w) = unat w"
proof -
  have d: "unat (ucast (drop_bit k w) :: u8) = unat w div 2 ^ k mod 256" for k
    by (simp add: unat_ucast_mod unat_drop_bit_div)
  have low: "unat (ucast w :: u8) = unat w mod 256" by (simp add: unat_ucast_mod)
  have "unat w < 16777216 * 256" using unat_u32_less [of w] by simp
  then have top: "unat w div 16777216 mod 256 = unat w div 16777216" by (simp add: less_mult_imp_div_less)
  have split: "n = n div 16777216 * 16777216 + n div 65536 mod 256 * 65536 + n div 256 mod 256 * 256 + n mod 256" for n :: nat
  proof -
    have "n = n div 256 * 256 + n mod 256" by simp
    moreover have "n div 256 = n div 65536 * 256 + n div 256 mod 256"
      using div_mult_mod_eq [of "n div 256" 256] by (simp add: div_mult2_eq [symmetric])
    moreover have "n div 65536 = n div 16777216 * 256 + n div 65536 mod 256"
      using div_mult_mod_eq [of "n div 65536" 256] by (simp add: div_mult2_eq [symmetric])
    ultimately show ?thesis by linarith
  qed
  have "be_val (store_be32 w) = unat w div 16777216 * 16777216 + unat w div 65536 mod 256 * 65536
      + unat w div 256 mod 256 * 256 + unat w mod 256"
    using d [of 24] d [of 16] d [of 8] low top by (simp add: store_be32_def be_val_Cons)
  with split [of "unat w"] show ?thesis by linarith
qed

text \<open>Words, most significant first, as one number.\<close>

lemma be_val_words: "be_val (concat (map store_be32 ws)) = big_val (rev ws)"
proof (induction ws)
  case (Cons w ws)
  have "(256 :: nat) ^ (4 * n) = 2 ^ (32 * n)" for n
    using power_mult [of "2 :: nat" 8 "4 * n"] by simp
  with Cons show ?case
    by (simp add: be_val_append be_val_store_be32 length_concat_store_be32 big_val_append)
qed simp

lemma nth_concat_words:
  "i < 4 * length ws \<Longrightarrow> concat (map store_be32 ws) ! i = ucast (drop_bit (24 - 8 * (i mod 4)) (ws ! (i div 4)))"
proof (induction ws arbitrary: i)
  case (Cons w ws)
  show ?case
  proof (cases "i < 4")
    case True
    then consider "i = 0" | "i = 1" | "i = 2" | "i = 3" by linarith
    then show ?thesis by cases (simp_all add: store_be32_def)
  next
    case False
    then obtain j where j: "i = j + 4" by (metis add.commute le_Suc_ex not_less)
    have "(j + 4) div 4 = Suc (j div 4)" "(j + 4) mod 4 = j mod 4" by simp_all
    with Cons.IH [of j] Cons.prems j show ?thesis by (simp add: nth_append)
  qed
qed simp

section \<open>The share check\<close>

lemma share_check_from:
  assumes "length digest = 32" "length target = 8" "k \<le> 32"
  shows "share_check digest target [k..<32] \<longleftrightarrow>
    be_val (drop k (rev digest)) \<le> be_val (drop k (concat (map store_be32 target)))"
  using assms(3)
proof (induction "32 - k" arbitrary: k)
  case (Suc n)
  let ?d = "rev digest" and ?t = "concat (map store_be32 target)"
  have k: "k < 32" using Suc.hyps(2) by linarith
  have len: "length ?d = 32" "length ?t = 32" using assms by (simp_all add: length_concat_store_be32)
  have d: "drop k ?d = ?d ! k # drop (Suc k) ?d" "drop k ?t = ?t ! k # drop (Suc k) ?t"
    using k len by (simp_all add: Cons_nth_drop_Suc)
  have "[k..<32] = k # [Suc k..<32]" using k by (simp add: upt_conv_Cons)
  moreover have "?d ! k = digest ! (31 - k)" using k assms(1) by (simp add: rev_nth)
  moreover have "?t ! k = ucast (drop_bit (24 - 8 * (k mod 4)) (target ! (k div 4)))"
    using k assms(2) by (simp add: nth_concat_words)
  ultimately have step: "share_check digest target [k..<32] \<longleftrightarrow>
      ?d ! k < ?t ! k \<or> ?d ! k = ?t ! k \<and> share_check digest target [Suc k..<32]"
    by (simp add: Let_def) (metis linorder_less_linear less_imp_not_less)
  define p where "p = (256 :: nat) ^ (31 - k)"
  have low: "be_val (drop (Suc k) ?d) < p" "be_val (drop (Suc k) ?t) < p"
    using be_val_less [of "drop (Suc k) ?d"] be_val_less [of "drop (Suc k) ?t"] len by (simp_all add: p_def)
  have val: "be_val (drop k ?d) = unat (?d ! k) * p + be_val (drop (Suc k) ?d)"
    "be_val (drop k ?t) = unat (?t ! k) * p + be_val (drop (Suc k) ?t)"
    unfolding d be_val_Cons using len by (simp_all add: p_def)
  have IH: "share_check digest target [Suc k..<32] \<longleftrightarrow> be_val (drop (Suc k) ?d) \<le> be_val (drop (Suc k) ?t)"
    using Suc.hyps(1) [of "Suc k"] Suc.hyps(2) k by simp
  have gap: "a * p + x < b * p + y" if "a < b" "x < p" for a b x y :: nat
  proof -
    have "a * p + x < (a + 1) * p" using that(2) by (simp add: algebra_simps)
    also have "\<dots> \<le> b * p" using that(1) by (intro mult_le_mono1) simp
    finally show ?thesis by simp
  qed
  consider "?d ! k < ?t ! k" | "?t ! k < ?d ! k" | "?d ! k = ?t ! k" by (metis linorder_less_linear)
  then show ?case
  proof cases
    case 1
    then show ?thesis using step gap [of "unat (?d ! k)" "unat (?t ! k)"] low(1) by (simp add: val word_less_nat_alt less_imp_le)
  next
    case 2
    then have "\<not> share_check digest target [k..<32]" using step by auto
    moreover have "be_val (drop k ?t) < be_val (drop k ?d)"
      unfolding val using 2 low(2) by (intro gap) (simp_all add: word_less_nat_alt)
    ultimately show ?thesis by simp
  next
    case 3
    then show ?thesis using step IH by (simp add: val)
  qed
qed (use assms in \<open>simp add: length_concat_store_be32\<close>)

lemma share_check_iff:
  assumes "length digest = 32" "length target = 8"
  shows "share_check digest target [0..<32] \<longleftrightarrow> be_val (rev digest) \<le> big_val (rev target)"
  using share_check_from [OF assms, of 0] by (simp add: be_val_words)

section \<open>The extranonce counter\<close>

lemma take_Suc_be_val: "i < length e \<Longrightarrow> be_val (take (Suc i) e) = be_val (take i e) * 256 + unat (e ! i)"
  by (simp add: take_Suc_conv_app_nth be_val_append be_val_Cons)

lemma extra2_incr_count:
  "n \<le> length e \<Longrightarrow> extra2_incr n e = (e', wrapped) \<Longrightarrow>
   length e' = length e \<and> drop n e' = drop n e \<and> be_val (take n e') = Suc (be_val (take n e)) mod 256 ^ n \<and>
   (wrapped \<longleftrightarrow> n \<noteq> 0 \<and> Suc (be_val (take n e)) = 256 ^ n)"
proof (induction n arbitrary: e)
  case (Suc i)
  let ?e = "e[i := e ! i + 1]" and ?v = "be_val (take i e)"
  have i: "i < length e" using Suc.prems(1) by simp
  have v: "?v < 256 ^ i" using be_val_less [of "take i e"] i by simp
  have take: "take i ?e = take i e" and drop: "drop (Suc i) ?e = drop (Suc i) e" by simp_all
  show ?case
  proof (cases "e ! i + 1 = 0")
    case False
    then have b: "unat (e ! i + 1) = Suc (unat (e ! i))" using unatSuc [of "e ! i"] by (simp add: add.commute)
    then have b': "Suc (unat (e ! i)) < 256" using unat_u8_less [of "e ! i + 1"] by simp
    have "?v * 256 + Suc (unat (e ! i)) < (?v + 1) * 256" using b' by simp
    also have "\<dots> \<le> 256 ^ i * 256" using v by (intro mult_le_mono1) simp
    finally have "?v * 256 + Suc (unat (e ! i)) < 256 ^ Suc i" by (simp add: mult.commute)
    then show ?thesis
      using Suc.prems(2) False i b take drop by (auto simp: Let_def take_Suc_be_val)
  next
    case True
    then have b: "unat (e ! i) = 255" by (simp add: add_eq_0_iff2 unsigned_minus_1_eq_mask mask_eq_exp_minus_1)
    show ?thesis
    proof (cases "i = 0")
      case True
      then show ?thesis
        using Suc.prems(2) \<open>e ! i + 1 = 0\<close> i b by (auto simp: Let_def take_Suc_be_val)
    next
      case False
      then have "extra2_incr i ?e = (e', wrapped)" using Suc.prems(2) True i by (simp add: Let_def)
      note IH = Suc.IH [OF _ this, unfolded take]
      have e': "length e' = length e" "drop i e' = drop i ?e" "be_val (take i e') = Suc ?v mod 256 ^ i"
        "wrapped \<longleftrightarrow> Suc ?v = 256 ^ i" using IH i False by simp_all
      have "e' ! i = 0" using e'(1,2) i True by (metis drop_eq_nths hd_drop_conv_nth length_list_update nth_list_update_eq)
      moreover have "drop (Suc i) e' = drop (Suc i) e" using e'(2) drop by (metis drop_Suc drop_drop tl_drop)
      moreover have "Suc (?v * 256 + 255) mod 256 ^ Suc i = Suc ?v mod 256 ^ i * 256"
        using mult_mod_right [of 256 "Suc ?v" "256 ^ i"] by (simp add: mult.commute)
      moreover have "Suc (?v * 256 + 255) = 256 ^ Suc i \<longleftrightarrow> Suc ?v = 256 ^ i" by simp linarith
      ultimately show ?thesis using e' i b by (simp add: take_Suc_be_val)
    qed
  qed
qed simp

section \<open>Well-formed state\<close>

text \<open>The sizes that the declarations of \<open>stratum.c\<close> fix, and the counts within them.\<close>

definition job_wf :: "pool_job \<Rightarrow> bool" where
  "job_wf j \<longleftrightarrow> length (job_id j) = 128 \<and> length (job_time j) = 9 \<and> length (job_prev j) = 32 \<and>
     length (job_version j) = 4 \<and> length (job_bits j) = 4 \<and> length (job_coin1 j) = 4096 \<and> length (job_coin2 j) = 4096 \<and>
     length (job_branches j) = 32 \<and> list_all (\<lambda>b. length b = 32) (job_branches j) \<and>
     job_n1 j \<le> 4096 \<and> job_n2 j \<le> 4096 \<and> job_nb j \<le> 32 \<and> length (job_target j) = 8"

definition session_wf :: "'d session \<Rightarrow> bool" where
  "session_wf st \<longleftrightarrow> job_wf (ss_job st) \<and> length (ss_extra1 st) = 32 \<and> length (ss_extra2 st) = 16 \<and>
     length (ss_header st) = 80 \<and> ss_extra1_size st \<le> 32 \<and> ss_extra2_size st \<le> 16 \<and>
     length (ss_pending_target st) = 8 \<and> length (ss_pending st) = 8 \<and> length (ss_extra2_hex st) = 33 \<and>
     settings_wf (ss_session st)"

abbreviation extranonce2 :: "'d session \<Rightarrow> bytes" where
  "extranonce2 st \<equiv> take (ss_extra2_size st) (ss_extra2 st)"

text \<open>The 80 bytes of the block header for a job, an extranonce pair and a time.\<close>

definition job_header :: "pool_job \<Rightarrow> bytes \<Rightarrow> bytes \<Rightarrow> bytes \<Rightarrow> bytes" where
  "job_header j extra1 extra2 time =
     header_spec (job_version j) (job_prev j)
       (merkle_root (take (job_n1 j) (job_coin1 j) @ extra1 @ extra2 @ take (job_n2 j) (job_coin2 j))
         (take (job_nb j) (job_branches j))) time (job_bits j)"

text \<open>What the hardware is given: midstate and target, tail words, then the start of the first range.\<close>

definition range_events :: "u32 \<Rightarrow> mmio list" where
  "range_events start = [Out32 MINER 4, Out32 (MINER + 0x80) start, Out32 (MINER + 0x84) RANGE, Out32 MINER 1, Mining True]"

definition work_events :: "bytes \<Rightarrow> u32 list \<Rightarrow> mmio list" where
  "work_events header target =
     concat (map (\<lambda>i. [Out32 (MINER + (0x20 + of_nat i * 4)) (bitcoin_header_midstate header ! i),
                       Out32 (MINER + (0x60 + of_nat i * 4)) (target ! i)]) [0..<8])
     @ map (\<lambda>i. Out32 (MINER + (0x40 + of_nat i * 4)) (bitcoin_header_tail_words header ! i)) [0..<4]
     @ range_events 0"

lemma trace_simps [simp]:
  "m_trace (tel_event E s st) = m_trace st @ [Event s]"
  "m_trace (tel_detail E ev st) = m_trace st @ [Detail (cstr (ev_name ev))]"
  "m_trace (tel_mining E b st) = m_trace st @ [Mining b]"
  "m_trace (reg_write E a v st) = m_trace st @ [Out32 (MINER + a) v]"
  by (simp_all add: tel_event_def tel_detail_def tel_mining_def reg_write_def Xil_Out32_def log_event_def)

lemma trace_fold:
  "(\<And>i st. m_trace (f i st) = m_trace st @ g i) \<Longrightarrow> m_trace (fold f is st) = m_trace st @ concat (map g is)"
  by (induction "is" arbitrary: st) simp_all

lemma trace_start_range: "m_trace (start_range E st) = m_trace st @ range_events (ss_range_start st)"
  by (simp add: start_range_def range_events_def Let_def)

lemma trace_load_registers:
  "m_trace (load_registers E mid target tail st) = m_trace st @
     concat (map (\<lambda>i. [Out32 (MINER + (0x20 + of_nat i * 4)) (mid ! i), Out32 (MINER + (0x60 + of_nat i * 4)) (target ! i)]) [0..<8])
     @ map (\<lambda>i. Out32 (MINER + (0x40 + of_nat i * 4)) (tail ! i)) [0..<4]"
proof -
  have "m_trace (fold (\<lambda>i st. reg_write E (0x60 + of_nat i * 4) (target ! i) (reg_write E (0x20 + of_nat i * 4) (mid ! i) st)) is st)
    = m_trace st @ concat (map (\<lambda>i. [Out32 (MINER + (0x20 + of_nat i * 4)) (mid ! i), Out32 (MINER + (0x60 + of_nat i * 4)) (target ! i)]) is)"
    for "is" st by (rule trace_fold) simp
  moreover have "m_trace (fold (\<lambda>i st. reg_write E (0x40 + of_nat i * 4) (tail ! i) st) is st)
    = m_trace st @ concat (map (\<lambda>i. [Out32 (MINER + (0x40 + of_nat i * 4)) (tail ! i)]) is)"
    for "is" st by (rule trace_fold) simp
  ultimately show ?thesis
    by (simp add: load_registers_def Let_def concat_map_singleton del: upt_rec_numeral)
qed

text \<open>The state after a successful \<open>build_header\<close>, field by field.\<close>

lemma build_header_ok:
  assumes wf: "session_wf st" and live: "\<not> ss_extra_exhausted st"
    and time: "hex_decode (take 8 (job_time (ss_job st))) (replicate 4 0) 4 = (Some 4, time)"
    and incr: "extra2_incr (ss_extra2_size st) (ss_extra2 st) = (e, wrapped)"
  defines "header \<equiv> job_header (ss_job st) (take (ss_extra1_size st) (ss_extra1 st)) (extranonce2 st) time"
  obtains d where "build_header E st = (0, st\<lparr>m_dev := d, m_trace := m_trace st @ work_events header (job_target (ss_job st)),
      ss_extra2_hex := memcpy_at (ss_extra2_hex st) 0 (hex_text (extranonce2 st) @ [0]), ss_header := header,
      ss_extra2 := e, ss_extra_exhausted := wrapped, ss_range_start := 0, ss_running := True\<rparr>)"
proof -
  let ?j = "ss_job st"
  have "length time = 4"
    using time hex_loop_length [of "take 8 (job_time ?j)" 0 "replicate 4 0"]
    by (auto simp: hex_decode_def split: if_splits prod.splits)
  moreover have "list_all (\<lambda>b. length b = 32) (take (job_nb ?j) (job_branches ?j))"
    using wf by (auto simp: session_wf_def job_wf_def list_all_iff dest: in_set_takeD)
  ultimately have hdr: "bitcoin_build_header (job_version ?j) (job_prev ?j) (job_bits ?j) time
      (take (job_n1 ?j) (job_coin1 ?j)) (take (ss_extra1_size st) (ss_extra1 st)) (extranonce2 st)
      (take (job_n2 ?j) (job_coin2 ?j)) (take (job_nb ?j) (job_branches ?j)) (ss_header st) = header"
    using wf by (simp add: session_wf_def job_wf_def bitcoin_build_header_spec header_def job_header_def)
  have hex: "hex_encode (extranonce2 st) (ss_extra2_hex st) = memcpy_at (ss_extra2_hex st) 0 (hex_text (extranonce2 st) @ [0])"
    using wf by (intro hex_encode_text) (simp add: session_wf_def)
  let ?s = "load_registers E (bitcoin_header_midstate header) (job_target ?j) (bitcoin_header_tail_words header)
      (st\<lparr>ss_extra2_hex := memcpy_at (ss_extra2_hex st) 0 (hex_text (extranonce2 st) @ [0]), ss_header := header\<rparr>)"
  let ?r = "start_range E (?s\<lparr>ss_extra2 := e, ss_extra_exhausted := wrapped, ss_range_start := 0\<rparr>)"
  have "build_header E st = (0, ?r)"
    using live time incr by (simp add: build_header_def Let_def hdr hex)
  moreover have "m_trace ?r = m_trace st @ work_events header (job_target ?j)"
    by (simp add: trace_start_range trace_load_registers work_events_def)
  then have "?r = st\<lparr>m_dev := m_dev ?r, m_trace := m_trace st @ work_events header (job_target (ss_job st)),
      ss_extra2_hex := memcpy_at (ss_extra2_hex st) 0 (hex_text (extranonce2 st) @ [0]), ss_header := header,
      ss_extra2 := e, ss_extra_exhausted := wrapped, ss_range_start := 0, ss_running := True\<rparr>"
    by (intro stratum.equality) simp_all
  ultimately show ?thesis using that by metis
qed

section \<open>Sending\<close>

text \<open>Whatever the socket accepts at a time, the pieces sent are a prefix of the line, and all of it on success.\<close>

lemma send_line_trace:
  "\<exists>ps. m_trace (snd (send_line E s st)) = m_trace st @ map Send ps \<and> prefix (concat ps) s \<and>
     (fst (send_line E s st) = 0 \<and> concat ps = s \<or> fst (send_line E s st) = -1)"
proof (induction E s st rule: send_line.induct)
  case (1 E s st)
  obtain k d where k: "env_send E s (m_dev st) = (k, d)" by fastforce
  show ?case
  proof (cases "s = [] \<or> k \<le> 0")
    case True
    then show ?thesis using k by (subst (1 2 3) send_line.simps) (auto intro: exI [of _ "[]"])
  next
    case False
    let ?st = "log_event (Send (take (nat k) s)) (st\<lparr>m_dev := d\<rparr>)"
    from 1 [OF _ k [symmetric] refl] False obtain ps where
      ps: "m_trace (snd (send_line E (drop (nat k) s) ?st)) = m_trace ?st @ map Send ps" "prefix (concat ps) (drop (nat k) s)"
        "fst (send_line E (drop (nat k) s) ?st) = 0 \<and> concat ps = drop (nat k) s \<or> fst (send_line E (drop (nat k) s) ?st) = -1"
      by auto
    have "send_line E s st = send_line E (drop (nat k) s) ?st"
      using False k by (subst send_line.simps) simp
    moreover have "prefix (concat (take (nat k) s # ps)) s"
      using ps(2) by (metis append_take_drop_id concat.simps(2) same_prefix_prefix)
    ultimately show ?thesis
      using ps by (intro exI [of _ "take (nat k) s # ps"]) (auto simp: log_event_def)
  qed
qed

section \<open>The submission text\<close>

lemma submit_text_no_nul: "0 \<notin> set (submit_text rid s j e nonce)"
  by (simp add: submit_text_def dec_text_no_nul hex_texts_no_nul cstr_no_nul)

lemma submit_text_fits:
  assumes "settings_wf s" "job_wf j" "length e = 33"
  shows "length (submit_text rid s j e nonce) < 640"
proof -
  have "length (cstr (ms_worker s)) \<le> 128" "length (cstr (job_id j)) \<le> 128" "length (cstr (job_time j)) \<le> 9"
    "length (cstr e) \<le> 33"
    using assms length_cstr [of "ms_worker s"] length_cstr [of "job_id j"] length_cstr [of "job_time j"] length_cstr [of e]
    by (simp_all add: settings_wf_def job_wf_def)
  with length_dec_u32 [of rid] show ?thesis by (simp add: submit_text_def)
qed

lemma submit_request:
  fixes rid nonce :: u32
  assumes "session_wf st"
  defines "req \<equiv> submit_text rid (ss_session st) (ss_job st) (ss_extra2_hex st) nonce"
  shows "snprintf_to (replicate 640 0) 640 req = (int (length req), req @ replicate (640 - length req) 0)"
    and "cstr (req @ replicate (640 - length req) 0) = req" and "length req < 640" and "0 < length req"
proof -
  show fit: "length req < 640" using assms by (auto simp: req_def session_wf_def intro: submit_text_fits)
  from snprintf_zeroed [OF this]
  show "snprintf_to (replicate 640 0) 640 req = (int (length req), req @ replicate (640 - length req) 0)"
    and "cstr (req @ replicate (640 - length req) 0) = req"
    by (simp_all only: req_def submit_text_no_nul not_False_eq_True)
  show "0 < length req" by (simp add: req_def submit_text_def)
qed

section \<open>Shares\<close>

text \<open>The header that is hashed for a nonce, and the number that is compared with the target.\<close>

definition nonce_header :: "'d session \<Rightarrow> u32 \<Rightarrow> bytes" where
  "nonce_header st nonce = take 76 (ss_header st) @ store_be32 nonce"

definition hash_value :: "bytes \<Rightarrow> nat" where
  "hash_value header = be_val (rev (hash256 header))"

lemma store_nonce:
  assumes "length h = 80"
  shows "memcpy_at h 76 (map (\<lambda>i. ucast (drop_bit (24 - i * 8) nonce)) [0..<4]) = take 76 h @ store_be32 nonce"
  using assms by (simp add: memcpy_at_def store_be32_def upt_4)

lemma share_check_value:
  assumes "session_wf st"
  shows "share_check (sha256d (nonce_header st nonce)) (job_target (ss_job st)) [0..<32] \<longleftrightarrow>
    hash_value (nonce_header st nonce) \<le> big_val (rev (job_target (ss_job st)))"
  using assms by (simp add: share_check_iff session_wf_def job_wf_def sha256d_hash256 hash_value_def)

lemma free_slot_Some: "free_slot ps is = Some i \<Longrightarrow> i \<in> set is \<and> pd_id (ps ! i) = 0"
  by (induction "is") (auto split: if_splits)

lemma free_slot_None: "free_slot ps is = None \<longleftrightarrow> (\<forall>i\<in>set is. pd_id (ps ! i) \<noteq> 0)"
  by (induction "is") (auto split: if_splits)

lemma submitted_event_name: "cstr (ev_name (submitted_event j req digest)) = ascii ''solution_submitted''"
  by (simp add: submitted_event_def Let_def miner_event_zero_def strcpy_def memcpy_at_def cstr_def)

text \<open>
  The outcomes of \<open>submit_share\<close>: a hash above the target, no free slot, ids used up, and a share
  that is offered to the socket (which may fail).
\<close>

lemma submit_share_cases:
  fixes nonce :: u32
  assumes wf: "session_wf st"
  defines "st1 \<equiv> st\<lparr>ss_header := nonce_header st nonce\<rparr>"
    and "req \<equiv> submit_text (ss_next_id st) (ss_session st) (ss_job st) (ss_extra2_hex st) nonce"
  obtains
    (invalid) "big_val (rev (job_target (ss_job st))) < hash_value (nonce_header st nonce)"
      "submit_share E nonce st = (-1, tel_event E ''hardware_solution_invalid'' st1)"
  | (full) "hash_value (nonce_header st nonce) \<le> big_val (rev (job_target (ss_job st)))" "\<forall>i<8. pd_id (ss_pending st ! i) \<noteq> 0" "submit_share E nonce st = (-1, tel_event E ''share_queue_full'' st1)"
  | (ids) "hash_value (nonce_header st nonce) \<le> big_val (rev (job_target (ss_job st)))" "ss_next_id st < 4" "submit_share E nonce st = (-1, st1)"
  | (failed) ps d where "hash_value (nonce_header st nonce) \<le> big_val (rev (job_target (ss_job st)))"
      "4 \<le> ss_next_id st" "fst (send_line E req (st1\<lparr>ss_next_id := ss_next_id st + 1\<rparr>)) \<noteq> 0" "prefix (concat ps) req"
      "submit_share E nonce st =
         (-1, st1\<lparr>ss_next_id := ss_next_id st + 1, m_dev := d, m_trace := m_trace st @ map Send ps\<rparr>)"
  | (sent) slot ps now d where "hash_value (nonce_header st nonce) \<le> big_val (rev (job_target (ss_job st)))"
      "4 \<le> ss_next_id st" "slot < 8" "pd_id (ss_pending st ! slot) = 0" "concat ps = req"
      "submit_share E nonce st =
         (0, st1\<lparr>ss_next_id := ss_next_id st + 1, m_dev := d,
               m_trace := m_trace st @ map Send ps @ [Detail (ascii ''solution_submitted'')],
               ss_pending := (ss_pending st)[slot := \<lparr>pd_id = ss_next_id st, pd_sent = now,
                 pd_event = submitted_event (ss_job st) (req @ replicate (640 - length req) 0)
                   (hash256 (nonce_header st nonce))\<rparr>]\<rparr>)"
proof -
  let ?st2 = "st1\<lparr>ss_next_id := ss_next_id st + 1\<rparr>" and ?buf = "req @ replicate (640 - length req) 0" and ?dig = "hash256 (nonce_header st nonce)"
  have hdr: "memcpy_at (ss_header st) 76 (map (\<lambda>i. ucast (drop_bit (24 - i * 8) nonce)) [0..<4]) = nonce_header st nonce"
    "take 80 (nonce_header st nonce) = nonce_header st nonce"
    using wf by (simp_all add: store_nonce session_wf_def nonce_header_def del: upt_rec_numeral)
  note check = share_check_value [OF wf, of nonce, unfolded sha256d_hash256]
  note req = submit_request [OF wf, of "ss_next_id st" nonce, folded req_def]
  have body: "submit_share E nonce st =
    (if \<not> hash_value (nonce_header st nonce) \<le> big_val (rev (job_target (ss_job st)))
     then (-1, tel_event E ''hardware_solution_invalid'' st1)
     else case free_slot (ss_pending st) [0..<8] of
       None \<Rightarrow> (-1, tel_event E ''share_queue_full'' st1)
     | Some slot \<Rightarrow> if ss_next_id st < 4 then (-1, st1)
       else let (rc, s) = send_line E req ?st2
       in if rc \<noteq> 0 then (-1, s)
       else let (now, s) = get_ticks E s; ev = submitted_event (ss_job s) ?buf ?dig
       in (0, tel_detail E ev (s\<lparr>ss_pending := (ss_pending s)[slot := \<lparr>pd_id = ss_next_id st, pd_sent = now, pd_event = ev\<rparr>]\<rparr>)))"
    using req unfolding submit_share_def Let_def
    by (simp add: hdr check st1_def req_def sha256d_hash256 split: option.split prod.split del: upt_rec_numeral)
  obtain rc st3 where send: "send_line E req ?st2 = (rc, st3)" by fastforce
  obtain now st4 where ticks: "get_ticks E st3 = (now, st4)" by fastforce
  obtain ps where ps: "m_trace st3 = m_trace st @ map Send ps" "prefix (concat ps) req" "rc = 0 \<and> concat ps = req \<or> rc = -1"
    using send_line_trace [of E req ?st2] send by (auto simp: st1_def)
  have more: "machine.more st3 = machine.more ?st2" using send_line_more [of E req ?st2] send by simp
  have "st3 = ?st2\<lparr>m_dev := m_dev st3, m_trace := m_trace st @ map Send ps\<rparr>"
    using ps(1) more_stratum [OF more] by (intro stratum.equality) simp_all
  then obtain d3 where st3: "st3 = ?st2\<lparr>m_dev := d3, m_trace := m_trace st @ map Send ps\<rparr>" by blast
  show thesis
  proof (cases "hash_value (nonce_header st nonce) \<le> big_val (rev (job_target (ss_job st)))")
    case False
    then show thesis using body by (intro invalid) (simp_all del: upt_rec_numeral)
  next
    case small: True
    show thesis
    proof (cases "free_slot (ss_pending st) [0..<8]")
      case None
      then have "\<forall>i<8. pd_id (ss_pending st ! i) \<noteq> 0" using free_slot_None [of "ss_pending st" "[0..<8]"] by auto
      with None show thesis using body small by (intro full) (simp_all del: upt_rec_numeral)
    next
      case (Some slot)
      then have slot: "slot < 8" "pd_id (ss_pending st ! slot) = 0" by (auto dest!: free_slot_Some simp del: upt_rec_numeral)
      consider "ss_next_id st < 4" | "4 \<le> ss_next_id st" "rc \<noteq> 0" | "4 \<le> ss_next_id st" "rc = 0" by fastforce
      then show thesis
      proof cases
        case 1
        then show thesis using body small Some by (intro ids) (simp_all del: upt_rec_numeral)
      next
        case 2
        then show thesis using body small Some send ps(2) st3
          by (intro failed [of ps d3]) (simp_all add: not_less [symmetric] del: upt_rec_numeral)
      next
        case 3
        obtain d4 where "st4 = st3\<lparr>m_dev := d4\<rparr>" using ticks by (auto simp: get_ticks_def split: prod.splits)
        then have st4: "st4 = ?st2\<lparr>m_dev := d4, m_trace := m_trace st @ map Send ps\<rparr>" using st3 by simp
        let ?ev = "submitted_event (ss_job st) ?buf ?dig"
        have "submit_share E nonce st = (0, tel_detail E ?ev
            (st4\<lparr>ss_pending := (ss_pending st)[slot := \<lparr>pd_id = ss_next_id st, pd_sent = now, pd_event = ?ev\<rparr>]\<rparr>))"
          using body small Some 3 send ticks by (simp add: st4 st1_def Let_def not_less [symmetric] del: upt_rec_numeral)
        with 3 small slot ps(3) show thesis
          by (intro sent [of slot ps now "env_detail E ?ev d4"])
             (simp_all add: st4 tel_detail_def log_event_def submitted_event_name)
      qed
    qed
  qed
qed

section \<open>Properties\<close>

text \<open>A session over a silent environment, for concrete instances.\<close>

definition silent_env :: "unit stratum_env" where
  "silent_env = \<lparr>bsp_in32 = \<lambda>a d. (0, d), bsp_out32 = \<lambda>a v d. d, bsp_in8 = \<lambda>a d. (0, d), bsp_out8 = \<lambda>a v d. d,
     bsp_printf = \<lambda>f args d. d, env_validate = \<lambda>s. True, env_search = \<lambda>s q. JSONNotFound,
     env_send = \<lambda>s d. (int (length s), d), env_recv = \<lambda>n d. ((0, []), d), env_ewouldblock = 11, env_ticks = \<lambda>d. (0, d),
     env_settings = \<lambda>d. ((\<lparr>ms_mac = replicate 6 0, ms_port = 0, ms_host = replicate 96 0, ms_worker = replicate 128 0,
       ms_password = replicate 64 0\<rparr>, 0), d), env_network_up = \<lambda>d. True, env_generation = \<lambda>d. 0,
     env_gethostbyname = \<lambda>s d. (0, d), env_socket = \<lambda>d. (False, d), env_setsockopt = \<lambda>s n d. d, env_connect = \<lambda>a p d. (0, d),
     env_close = \<lambda>d. d, env_delay = \<lambda>n d. d, env_event = \<lambda>s d. d, env_detail = \<lambda>e d. d, env_job = \<lambda>s d. (0, d), env_mining = \<lambda>b d. d\<rparr>"

definition blank_job :: pool_job where
  "blank_job = \<lparr>job_id = replicate 128 0, job_time = ascii ''4d49e5da'' @ [0], job_number = 0, job_prev = replicate 32 0,
     job_version = replicate 4 0, job_bits = replicate 4 0, job_coin1 = replicate 4096 0, job_coin2 = replicate 4096 0,
     job_branches = replicate 32 (replicate 32 0), job_n1 = 0, job_n2 = 0, job_nb = 0, job_target = replicate 8 0xffffffff\<rparr>"

definition blank_session :: "unit session" where
  "blank_session = \<lparr>m_dev = (), m_trace = [], ss_job = blank_job, ss_extra1 = replicate 32 0, ss_extra2 = replicate 16 0,
     ss_header = replicate 80 0, ss_extra1_size = 4, ss_extra2_size = 2, ss_pending_target = replicate 8 0, ss_range_start = 0,
     ss_next_id = 4, ss_pending = replicate 8 \<lparr>pd_id = 0, pd_sent = 0, pd_event = miner_event_zero\<rparr>,
     ss_extra2_hex = replicate 33 0, ss_subscribed = True, ss_authorized = True, ss_have_job = True, ss_running = True,
     ss_extra_exhausted = False,
     ss_session = \<lparr>ms_mac = replicate 6 0, ms_port = 0, ms_host = replicate 96 0, ms_worker = replicate 128 0,
       ms_password = replicate 64 0\<rparr>\<rparr>"

lemma blank_session_wf: "session_wf blank_session"
  by (simp add: session_wf_def job_wf_def settings_wf_def blank_session_def blank_job_def list_all_iff)

lemma blank_time: "fst (hex_decode (take 8 (job_time (ss_job blank_session))) (replicate 4 0) 4) = Some 4"
proof -
  have "take 8 (job_time (ss_job blank_session)) = ascii ''4d49e5da''"
    by (simp add: blank_session_def blank_job_def)
  then show ?thesis by (simp add: hex_decode_def split_def hex_loop_invalid hex_digit_def)
qed

text \<open>
  C22. Starting work: with an extranonce left and a time of eight hexadecimal digits, \<open>build_header\<close> always
  succeeds. It writes to the miner, in this order and nothing else, the midstate and the target of the
  job, the tail words, and the registers that start the first nonce range; the header is the consensus
  header of the job with the current extranonce, whose hexadecimal text is kept for the submission; the counter
  advances by one and is marked exhausted exactly when it would repeat.
\<close>

theorem build_header_work:
  assumes "session_wf st" "\<not> ss_extra_exhausted st" "ss_extra2_size st \<noteq> 0"
    and "fst (hex_decode (take 8 (job_time (ss_job st))) (replicate 4 0) 4) = Some 4"
  shows "case build_header E st of (rc, st') \<Rightarrow> rc = 0 \<and> ss_running st' \<and> ss_range_start st' = 0 \<and>
    ss_header st' = job_header (ss_job st) (take (ss_extra1_size st) (ss_extra1 st)) (extranonce2 st)
      (snd (hex_decode (take 8 (job_time (ss_job st))) (replicate 4 0) 4)) \<and>
    m_trace st' = m_trace st @ work_events (ss_header st') (job_target (ss_job st)) \<and>
    cstr (ss_extra2_hex st') = hex_text (extranonce2 st) \<and>
    (ss_extra_exhausted st' \<longleftrightarrow> Suc (be_val (extranonce2 st)) = 256 ^ ss_extra2_size st) \<and>
    be_val (extranonce2 st') = Suc (be_val (extranonce2 st)) mod 256 ^ ss_extra2_size st"
proof -
  obtain time where time: "hex_decode (take 8 (job_time (ss_job st))) (replicate 4 0) 4 = (Some 4, time)"
    using assms(4) by (metis prod.collapse)
  obtain e wrapped where incr: "extra2_incr (ss_extra2_size st) (ss_extra2 st) = (e, wrapped)" by fastforce
  have "ss_extra2_size st \<le> length (ss_extra2 st)" using assms(1) by (simp add: session_wf_def)
  from extra2_incr_count [OF this incr] assms(3)
  have e: "be_val (take (ss_extra2_size st) e) = Suc (be_val (extranonce2 st)) mod 256 ^ ss_extra2_size st"
    "wrapped \<longleftrightarrow> Suc (be_val (extranonce2 st)) = 256 ^ ss_extra2_size st" by simp_all
  from assms(1,2) time incr show ?thesis
    by (rule build_header_ok [where E = E])
       (use time e in \<open>simp add: memcpy_at_def cstr_append_nul hex_text_no_nul\<close>)
qed

theorem build_header_work_witness:
  "fst (build_header silent_env blank_session) = 0 \<and>
   cstr (ss_extra2_hex (snd (build_header silent_env blank_session))) = ascii ''0000'' \<and>
   be_val (extranonce2 (snd (build_header silent_env blank_session))) = 1"
proof -
  have "\<not> ss_extra_exhausted blank_session" "ss_extra2_size blank_session = 2" "extranonce2 blank_session = replicate 2 0"
    by (simp_all add: blank_session_def)
  moreover have "replicate 2 (0 :: u8) = [0, 0]" by (simp add: numeral_2_eq_2)
  moreover have "hex_text [0, 0] = ascii ''0000''" by (simp add: hex_text_def hex_chars_def)
  ultimately show ?thesis
    using build_header_work [OF blank_session_wf _ _ blank_time, of silent_env] by (auto simp: be_val_def split: prod.splits)
qed

text \<open>
  C23. A share is offered to the pool only if the double hash of the header with the hardware's nonce,
  read as a little-endian number, is at most the target of the job; success means that the whole submission for this nonce
  went out, that it carries a fresh id, and that it is remembered under that id in a slot that was free.
\<close>

theorem submit_share_sound:
  assumes "session_wf st" "submit_share E nonce st = (rc, st')"
  defines "hv \<equiv> be_val (rev (hash256 (take 76 (ss_header st) @ store_be32 nonce)))"
    and "target \<equiv> big_val (rev (job_target (ss_job st)))"
  shows "(\<exists>es. m_trace st' = m_trace st @ es \<and> (target < hv \<longrightarrow> es = [Event ''hardware_solution_invalid''] \<and> rc = -1)) \<and>
    (rc = 0 \<longrightarrow> hv \<le> target \<and> ss_next_id st' = ss_next_id st + 1 \<and>
      (\<exists>ps slot. m_trace st' = m_trace st @ map Send ps @ [Detail (ascii ''solution_submitted'')] \<and>
        concat ps = submit_text (ss_next_id st) (ss_session st) (ss_job st) (ss_extra2_hex st) nonce \<and>
        slot < 8 \<and> pd_id (ss_pending st ! slot) = 0 \<and> pd_id (ss_pending st' ! slot) = ss_next_id st \<and>
        (\<forall>i. i \<noteq> slot \<longrightarrow> ss_pending st' ! i = ss_pending st ! i)))"
proof -
  have v: "hash_value (nonce_header st nonce) = hv" by (simp add: hash_value_def nonce_header_def hv_def)
  have l: "length (ss_pending st) = 8" using assms(1) by (simp add: session_wf_def)
  from assms(1) show ?thesis
  proof (cases rule: submit_share_cases [where E = E and nonce = nonce])
    case (sent slot ps now d)
    then have "slot < 8 \<and> pd_id (ss_pending st ! slot) = 0 \<and> pd_id (ss_pending st' ! slot) = ss_next_id st \<and>
        (\<forall>i. i \<noteq> slot \<longrightarrow> ss_pending st' ! i = ss_pending st ! i)" using assms(2) l by simp
    moreover have "hv \<le> target" "rc = 0" "ss_next_id st' = ss_next_id st + 1"
      "m_trace st' = m_trace st @ map Send ps @ [Detail (ascii ''solution_submitted'')]"
      using sent assms(2) v by (simp_all add: target_def)
    ultimately show ?thesis using sent(5) by (metis leD)
  qed (use assms(2) v in \<open>auto simp: target_def\<close>)
qed

lemma silent_send: "fst (send_line silent_env s st) = 0"
  by (subst send_line.simps) (simp add: silent_env_def send_line.simps)

lemma silent_share_ok:
  assumes "session_wf st" "job_target (ss_job st) = replicate 8 0xffffffff" "4 \<le> ss_next_id st" "pd_id (ss_pending st ! 0) = 0"
  shows "fst (submit_share silent_env nonce st) = 0"
proof -
  have "replicate 8 x = [x, x, x, x, x, x, x, x]" for x :: u32 by (simp add: numeral_eq_Suc)
  then have "big_val (rev (replicate 8 0xffffffff)) + 1 = 2 ^ 256" by simp
  moreover have "hash_value h < 2 ^ 256" for h
    using be_val_less [of "rev (hash256 h)"] by (simp add: hash_value_def)
  ultimately have "hash_value h \<le> big_val (rev (job_target (ss_job st)))" for h
    unfolding assms(2) by (metis less_Suc_eq_le Suc_eq_plus1)
  then show ?thesis
    using assms(3,4)
    by (cases rule: submit_share_cases [OF assms(1), of nonce silent_env]) (auto simp: silent_send not_less dest: leD)
qed

lemma blank_share_ok: "fst (submit_share silent_env 0 blank_session) = 0"
  by (rule silent_share_ok [OF blank_session_wf]) (simp_all add: blank_session_def blank_job_def)

theorem submit_share_sound_witness:
  "session_wf blank_session \<and> fst (submit_share silent_env 0 blank_session) = 0 \<and>
   ss_next_id (snd (submit_share silent_env 0 blank_session)) = 5 \<and>
   be_val (rev (hash256 (take 76 (ss_header blank_session) @ store_be32 0))) \<le> big_val (rev (job_target (ss_job blank_session)))"
proof -
  have "ss_next_id blank_session = 4" by (simp add: blank_session_def)
  then show ?thesis
    using submit_share_sound [OF blank_session_wf prod.collapse [symmetric], of silent_env 0] blank_share_ok blank_session_wf
    by auto
qed

end
