(* ===== verification/Stratum_Session.thy ===== *)
theory Stratum_Session
  imports Stratum_Work
begin

text \<open>
  The Stratum session as a state machine: an invariant of the static variables of \<open>stratum.c\<close> that holds in
  every reachable state of the task, proved operation by operation and then by rule induction. It
  covers the order of the protocol (subscribe, authorize, job, mining), the pending shares and their
  ids, and the agreement between the header being mined and the text a share will quote.
\<close>

section \<open>The invariant\<close>

text \<open>The ids of the shares in flight: distinct, at least 4, below the next one (which is 0 after the last).\<close>

definition ids_ok :: "pending_share list \<Rightarrow> u32 \<Rightarrow> bool" where
  "ids_ok ps nxt \<longleftrightarrow> (nxt = 0 \<or> 4 \<le> nxt) \<and>
     (\<forall>i<8. pd_id (ps ! i) \<noteq> 0 \<longrightarrow> 4 \<le> pd_id (ps ! i) \<and> (nxt = 0 \<or> pd_id (ps ! i) < nxt) \<and>
        (\<forall>j<8. j \<noteq> i \<longrightarrow> pd_id (ps ! j) \<noteq> pd_id (ps ! i)))"

definition session_inv :: "'d session \<Rightarrow> bool" where
  "session_inv st \<longleftrightarrow> session_wf st \<and> (ss_running st \<longrightarrow> ss_have_job st \<and> ss_authorized st) \<and>
     (ss_authorized st \<longrightarrow> ss_subscribed st) \<and> (ss_subscribed st \<longrightarrow> ss_extra2_size st \<noteq> 0) \<and>
     ids_ok (ss_pending st) (ss_next_id st)"

text \<open>How many extranonces have been handed out since the extranonce space was assigned.\<close>

definition extranonce_count :: "'d session \<Rightarrow> nat" where
  "extranonce_count st = (if ss_extra_exhausted st then 256 ^ ss_extra2_size st else be_val (extranonce2 st))"

text \<open>The header in the hardware is that of the job for the extranonce that a submission will quote.\<close>

definition mined :: "'d session \<Rightarrow> bytes \<Rightarrow> bytes \<Rightarrow> bool" where
  "mined st e time \<longleftrightarrow> length e = ss_extra2_size st \<and> cstr (ss_extra2_hex st) = hex_text e \<and>
     hex_decode (take 8 (job_time (ss_job st))) (replicate 4 0) 4 = (Some 4, time) \<and>
     take 76 (ss_header st) = take 76 (job_header (ss_job st) (take (ss_extra1_size st) (ss_extra1 st)) e time) \<and>
     Suc (be_val e) = extranonce_count st"

definition work_ok :: "'d session \<Rightarrow> bool" where
  "work_ok st \<longleftrightarrow> (ss_running st \<longrightarrow> (\<exists>e time. mined st e time))"

text \<open>Operations that touch only the device state and the trace keep both.\<close>

lemma session_wf_more: "machine.more st = machine.more st' \<Longrightarrow> session_wf st' = session_wf st"
  using more_stratum [of st st'] by (simp add: session_wf_def)

lemma session_inv_more: "machine.more st = machine.more st' \<Longrightarrow> session_inv st' = session_inv st"
  using more_stratum [of st st'] session_wf_more [of st st'] by (simp add: session_inv_def)

lemma work_ok_more: "machine.more st = machine.more st' \<Longrightarrow> work_ok st' = work_ok st"
  using more_stratum [of st st'] by (simp add: work_ok_def mined_def extranonce_count_def)

lemma tel_more [simp]:
  "machine.more (tel_event E s st) = machine.more st" "machine.more (tel_detail E ev st) = machine.more st"
  "machine.more (tel_mining E b st) = machine.more st" "machine.more (snd (tel_job E jid st)) = machine.more st"
  "machine.more (snd (get_ticks E st)) = machine.more st" "machine.more (snd (reg_read E a st)) = machine.more st"
  "machine.more (st\<lparr>m_dev := d\<rparr>) = machine.more st" "machine.more (log_event x st) = machine.more st"
  by (simp_all add: tel_event_def tel_detail_def tel_mining_def tel_job_def get_ticks_def reg_read_def Xil_In32_def log_event_def
      split_def Let_def)

lemmas frame = session_wf_more session_inv_more work_ok_more

lemma frame_simps [simp]:
  "session_inv (tel_event E s st) = session_inv st" "work_ok (tel_event E s st) = work_ok st"
  "session_inv (tel_detail E ev st) = session_inv st" "work_ok (tel_detail E ev st) = work_ok st"
  "session_inv (snd (get_ticks E st)) = session_inv st" "work_ok (snd (get_ticks E st)) = work_ok st"
  "session_inv (snd (reg_read E a st)) = session_inv st" "work_ok (snd (reg_read E a st)) = work_ok st"
  "session_inv (snd (send_line E bs st)) = session_inv st" "work_ok (snd (send_line E bs st)) = work_ok st"
  "session_inv (reg_write E a v st) = session_inv st" "work_ok (reg_write E a v st) = work_ok st"
  "session_inv (st\<lparr>m_dev := d\<rparr>) = session_inv st" "work_ok (st\<lparr>m_dev := d\<rparr>) = work_ok st"
  "session_inv (log_event x st) = session_inv st" "work_ok (log_event x st) = work_ok st"
  by (rule frame; simp)+

text \<open>The work does not depend on the bookkeeping of shares and ranges, nor on the nonce in the header.\<close>

lemma extranonce_count_frame [simp]:
  "extranonce_count (st\<lparr>ss_pending_target := t\<rparr>) = extranonce_count st" "extranonce_count (st\<lparr>ss_pending := p\<rparr>) = extranonce_count st"
  "extranonce_count (st\<lparr>ss_next_id := n\<rparr>) = extranonce_count st" "extranonce_count (st\<lparr>ss_range_start := r\<rparr>) = extranonce_count st"
  "extranonce_count (st\<lparr>ss_header := h\<rparr>) = extranonce_count st"
  by (simp_all add: extranonce_count_def)

lemma work_ok_frame [simp]:
  "work_ok (st\<lparr>ss_pending_target := t\<rparr>) = work_ok st" "work_ok (st\<lparr>ss_pending := p\<rparr>) = work_ok st"
  "work_ok (st\<lparr>ss_next_id := n\<rparr>) = work_ok st" "work_ok (st\<lparr>ss_range_start := r\<rparr>) = work_ok st"
  "take 76 h = take 76 (ss_header st) \<Longrightarrow> work_ok (st\<lparr>ss_header := h\<rparr>) = work_ok st"
  by (simp_all add: work_ok_def mined_def)

lemma work_ok_idle: "\<not> ss_running st \<Longrightarrow> work_ok st"
  by (simp add: work_ok_def)

lemma session_inv_stop: "session_inv st \<Longrightarrow> session_inv (stop E st)"
  by (simp add: session_inv_def session_wf_def)

section \<open>Starting work\<close>

lemma build_header_cases:
  assumes wf: "session_wf st"
  obtains
    (exhausted) "ss_extra_exhausted st" "build_header E st = (-1, st)"
  | (bad_time) "build_header E st = (-1, st\<lparr>ss_extra2_hex := memcpy_at (ss_extra2_hex st) 0 (hex_text (extranonce2 st) @ [0])\<rparr>)"
  | (ok) time e wrapped d where
      "\<not> ss_extra_exhausted st" "hex_decode (take 8 (job_time (ss_job st))) (replicate 4 0) 4 = (Some 4, time)"
      "extra2_incr (ss_extra2_size st) (ss_extra2 st) = (e, wrapped)"
      "build_header E st = (0, st\<lparr>m_dev := d,
         m_trace := m_trace st @ work_events (job_header (ss_job st) (take (ss_extra1_size st) (ss_extra1 st)) (extranonce2 st) time)
           (job_target (ss_job st)),
         ss_extra2_hex := memcpy_at (ss_extra2_hex st) 0 (hex_text (extranonce2 st) @ [0]),
         ss_header := job_header (ss_job st) (take (ss_extra1_size st) (ss_extra1 st)) (extranonce2 st) time,
         ss_extra2 := e, ss_extra_exhausted := wrapped, ss_range_start := 0, ss_running := True\<rparr>)"
proof -
  obtain k time where t: "hex_decode (take 8 (job_time (ss_job st))) (replicate 4 0) 4 = (k, time)" by fastforce
  obtain e wrapped where i: "extra2_incr (ss_extra2_size st) (ss_extra2 st) = (e, wrapped)" by fastforce
  consider "ss_extra_exhausted st" | "\<not> ss_extra_exhausted st" "k \<noteq> Some 4" | "\<not> ss_extra_exhausted st" "k = Some 4" by blast
  then show thesis
  proof cases
    case 1
    then show thesis by (intro exhausted) (simp_all add: build_header_def)
  next
    case 2
    have "hex_encode (extranonce2 st) (ss_extra2_hex st) = memcpy_at (ss_extra2_hex st) 0 (hex_text (extranonce2 st) @ [0])"
      using wf by (intro hex_encode_text) (simp add: session_wf_def)
    with 2 t show thesis by (intro bad_time) (simp add: build_header_def Let_def)
  next
    case 3
    with t have "hex_decode (take 8 (job_time (ss_job st))) (replicate 4 0) 4 = (Some 4, time)" by simp
    from build_header_ok [OF wf 3(1) this i, of E] ok [OF 3(1) this i] show thesis by blast
  qed
qed

lemma length_job_header:
  "job_wf j \<Longrightarrow> length time = 4 \<Longrightarrow> length (job_header j e1 e2 time) = 80"
  by (simp add: job_header_def header_spec_def job_wf_def)

lemma build_header_keeps:
  assumes inv: "session_inv st" and use: "ss_have_job st" "ss_authorized st" "build_header E st = (rc, st')"
  shows "session_inv st'" and "rc = 0 \<Longrightarrow> work_ok st'" and "ss_pending_target st' = ss_pending_target st"
proof -
  have wf: "session_wf st" using inv by (simp add: session_inv_def)
  have hexlen: "length (memcpy_at (ss_extra2_hex st) 0 (hex_text (extranonce2 st) @ [0])) = 33"
    using wf by (simp add: session_wf_def)
  from wf have "session_inv st' \<and> (rc = 0 \<longrightarrow> work_ok st') \<and> ss_pending_target st' = ss_pending_target st"
  proof (cases rule: build_header_cases [where E = E])
    case exhausted
    then show ?thesis using inv use by simp
  next
    case bad_time
    then show ?thesis using inv use hexlen by (auto simp: session_inv_def session_wf_def)
  next
    case (ok time e wrapped d)
    have "length time = 4"
      using ok(2) hex_loop_length [of "take 8 (job_time (ss_job st))" 0 "replicate 4 0"]
      by (auto simp: hex_decode_def split: if_splits prod.splits)
    then have hdr: "length (job_header (ss_job st) (take (ss_extra1_size st) (ss_extra1 st)) (extranonce2 st) time) = 80"
      using wf by (intro length_job_header) (simp_all add: session_wf_def)
    have size: "ss_extra2_size st \<le> length (ss_extra2 st)" "ss_extra2_size st \<noteq> 0"
      using inv use by (simp_all add: session_inv_def session_wf_def)
    note e = extra2_incr_count [OF size(1) ok(3)]
    have "be_val (extranonce2 st) < 256 ^ ss_extra2_size st" using be_val_less [of "extranonce2 st"] size by simp
    then have "Suc (be_val (extranonce2 st)) = 256 ^ ss_extra2_size st \<or> Suc (be_val (extranonce2 st)) < 256 ^ ss_extra2_size st"
      by linarith
    then have "mined st' (extranonce2 st) time"
      using ok use e size by (auto simp: mined_def extranonce_count_def memcpy_at_def cstr_append_nul hex_text_no_nul)
    moreover have "session_inv st'"
      using ok use inv e hexlen hdr size by (auto simp: session_inv_def session_wf_def)
    ultimately show ?thesis using ok use by (auto simp: work_ok_def)
  qed
  then show "session_inv st'" and "rc = 0 \<Longrightarrow> work_ok st'" and "ss_pending_target st' = ss_pending_target st" by simp_all
qed

section \<open>Messages\<close>

text \<open>
  What every handler does: the invariant survives whatever the outcome (an error ends the session), and the work stays
  consistent when the handler returns 0.
\<close>

definition keeps :: "'d session \<Rightarrow> int \<times> 'd session \<Rightarrow> bool" where
  "keeps st r \<longleftrightarrow> (session_inv st \<and> work_ok st \<longrightarrow> session_inv (snd r) \<and> (fst r = 0 \<longrightarrow> work_ok (snd r)))"

lemma keeps_refl [simp]: "keeps st (rc, st)"
  by (simp add: keeps_def)

lemma hex_decode_length: "length (snd (hex_decode s out cap)) = length out"
  by (simp add: hex_decode_def hex_loop_length split_def)

lemma hex_decode_bound: "fst (hex_decode s out cap) = Some k \<Longrightarrow> k \<le> cap"
  by (auto simp: hex_decode_def split_def split: if_splits)

lemma json_hex_length [simp]: "length (snd (json_hex E s q out cap)) = length out"
  by (auto simp: json_hex_def hex_decode_length [symmetric] split: json_found.splits option.splits prod.splits)
     (metis hex_decode_length snd_conv)+

lemma json_hex_bound: "fst (json_hex E s q out cap) \<le> int cap"
  by (auto simp: json_hex_def split: json_found.split option.split prod.split dest!: hex_decode_bound [OF arg_cong [where f = fst, THEN trans]])

lemma json_hex_result: "json_hex E s q out cap = (k, v) \<Longrightarrow> length v = length out \<and> k \<le> int cap"
  using json_hex_length [of E s q out cap] json_hex_bound [of E s q out cap] by simp

lemma json_string_result: "json_string f s q out cap = (rc, v) \<Longrightarrow> cap \<le> length out \<Longrightarrow> length v = length out"
  using json_string_length [of cap out f s q] by simp

text \<open>The rules that walk through the reading of the job's fields, one construct at a time.\<close>

definition job_read :: "'d session \<Rightarrow> int \<times> 'd session \<Rightarrow> bool" where
  "job_read st r \<longleftrightarrow> (\<exists>j. snd r = st\<lparr>ss_job := j\<rparr> \<and> job_wf j \<and> (fst r = 0 \<longrightarrow> job_nb j = 0))"

lemma job_readI:
  "(\<And>j. j = t \<Longrightarrow> job_read st (b j)) \<Longrightarrow> job_read st (let j = t :: pool_job in b j)"
  "(\<And>k v. length v = length out \<Longrightarrow> k \<le> int cap \<Longrightarrow> job_read st (f k v)) \<Longrightarrow>
     job_read st (let (k, v) = json_hex E s q out cap in f k v)"
  "cap \<le> length out' \<Longrightarrow> (\<And>rc v. length v = length out' \<Longrightarrow> job_read st (f rc v)) \<Longrightarrow>
     job_read st (let (rc, v) = json_string g s q out' cap in f rc v)"
  "(c \<Longrightarrow> job_read st r) \<Longrightarrow> (\<not> c \<Longrightarrow> job_read st r') \<Longrightarrow> job_read st (if c then r else r')"
  "(\<And>v t. job_read st (h v t)) \<Longrightarrow> job_read st r \<Longrightarrow> job_read st r' \<Longrightarrow> job_read st (case_json_found h r r' q')"
  "job_wf j \<Longrightarrow> job_read st (-1, st\<lparr>ss_job := j\<rparr>)"
  "job_wf j \<Longrightarrow> job_nb j = 0 \<Longrightarrow> job_read st (0, st\<lparr>ss_job := j\<rparr>)"
  by (auto simp: job_read_def Let_def split: prod.split json_found.split dest!: json_hex_result json_string_result)

lemma notify_fields_job: "job_wf (ss_job st) \<Longrightarrow> job_read st (notify_fields E s st)"
  unfolding notify_fields_def by (intro job_readI) (simp_all add: job_wf_def nat_le_iff)

lemma notify_branches_job:
  "job_wf (ss_job st) \<Longrightarrow> job_nb (ss_job st) = i \<Longrightarrow> i + left \<le> 33 \<Longrightarrow>
   \<exists>j. snd (notify_branches E s left i st) = st\<lparr>ss_job := j\<rparr> \<and> job_wf j"
proof (induction E s left i st rule: notify_branches.induct)
  case (1 E s i st)
  then show ?case by (intro exI [of _ "ss_job st"]) simp
next
  case (2 E s left i st)
  show ?case
  proof (cases "env_search E s (ascii ''params[4]['' @ dec_text i @ ascii '']'')")
    case (JSONSuccess v t)
    obtain k b where b: "hex_decode v (job_branches (ss_job st) ! i) 32 = (k, b)" by fastforce
    let ?j = "(ss_job st)\<lparr>job_branches := (job_branches (ss_job st))[i := b]\<rparr>"
    show ?thesis
    proof (cases "t \<noteq> JSONString \<or> i = 32")
      case True
      then show ?thesis using JSONSuccess 2(2) by (intro exI [of _ "ss_job st"]) auto
    next
      case False
      have "length b = length (job_branches (ss_job st) ! i)" using hex_decode_length [of v _ 32] b by (metis snd_conv)
      moreover have "i < 32" using 2(3,4) 2(2) False by (simp add: job_wf_def)
      ultimately have j: "job_wf ?j"
        using 2(2) by (auto simp: job_wf_def list_all_length nth_list_update)
      show ?thesis
      proof (cases "k = Some 32")
        case True
        have "job_wf (?j\<lparr>job_nb := job_nb ?j + 1\<rparr>)" using j 2(3) \<open>i < 32\<close> by (simp add: job_wf_def)
        with 2(1) [OF JSONSuccess _ b [symmetric] refl] False True 2(3,4) JSONSuccess b show ?thesis
          by (auto simp: Let_def)
      next
        case bad: False
        then show ?thesis using JSONSuccess False b j by (intro exI [of _ ?j]) (simp add: Let_def)
      qed
    qed
  qed (use 2(2) in \<open>auto intro: exI [of _ "ss_job st"]\<close>)
qed

lemma session_inv_job: "session_inv st \<Longrightarrow> job_wf j \<Longrightarrow> session_inv (st\<lparr>ss_job := j\<rparr>)"
  by (simp add: session_inv_def session_wf_def)

lemma session_inv_jobD: "session_inv st \<Longrightarrow> job_wf (ss_job st)"
  by (simp add: session_inv_def session_wf_def)

text \<open>A job is refused, or becomes the current one with mining stopped; then the work is built if the session is authorized.\<close>

lemma notify_job_cases:
  assumes "session_inv st" "ss_subscribed st"
  obtains (failed) j where "job_wf j" "notify_job E s st = (-1, (stop E st)\<lparr>ss_have_job := False, ss_job := j\<rparr>)"
  | (accepted) j d t where "job_wf j"
      "notify_job E s st = (let st1 = (stop E st)\<lparr>ss_have_job := True, m_dev := d, m_trace := t, ss_job := j\<rparr>
         in if ss_authorized st then build_header E st1 else (0, st1))"
proof -
  define st1 where "st1 = (stop E st)\<lparr>ss_have_job := False\<rparr>"
  have wf1: "job_wf (ss_job st1)" using session_inv_jobD [OF assms(1)] by (simp add: st1_def)
  obtain rc2 st2 where f: "notify_fields E s st1 = (rc2, st2)" by fastforce
  from notify_fields_job [OF wf1, of E s] obtain j where
    j: "st2 = st1\<lparr>ss_job := j\<rparr>" "job_wf j" "rc2 = 0 \<Longrightarrow> job_nb j = 0" by (auto simp: job_read_def f)
  show thesis
  proof (cases "rc2 = 0")
    case False
    then show thesis using assms(2) f j by (intro failed [of j]) (simp_all add: notify_job_def Let_def st1_def)
  next
    case rc2: True
    obtain rc3 st3 where b: "notify_branches E s 33 0 st2 = (rc3, st3)" by fastforce
    have "job_wf (ss_job st2)" "job_nb (ss_job st2) = 0" using j rc2 by simp_all
    from notify_branches_job [OF this, of 33 E s] obtain j' where
      j': "st3 = st2\<lparr>ss_job := j'\<rparr>" "job_wf j'" by (auto simp: b)
    show thesis
    proof (cases "rc3 = 0")
      case False
      then show thesis using assms(2) f b rc2 j j' by (intro failed [of j']) (simp_all add: notify_job_def Let_def st1_def)
    next
      case rc3: True
      define st4 where "st4 = st3\<lparr>ss_job := j'\<lparr>job_target := ss_pending_target st3\<rparr>, ss_have_job := True\<rparr>"
      obtain n d where n: "env_job E (cstr (job_id (ss_job st4))) (m_dev st4) = (n, d)" by fastforce
      have "job_wf (j'\<lparr>job_target := ss_pending_target st, job_number := n\<rparr>)"
        using j'(2) assms(1) by (simp add: job_wf_def session_inv_def session_wf_def)
      then show thesis
        using assms(2) f b rc2 rc3 n j j'
        by (intro accepted [where j = "j'\<lparr>job_target := ss_pending_target st, job_number := n\<rparr>" and d = d and
            t = "m_trace (stop E st) @ [Job (cstr (job_id (ss_job st4)))]"])
          (simp_all add: notify_job_def Let_def st1_def st4_def tel_job_def log_event_def)
    qed
  qed
qed

lemma notify_job_keeps: "keeps st (notify_job E s st)"
proof (cases "ss_subscribed st \<and> session_inv st")
  case False
  then show ?thesis by (auto simp: keeps_def notify_job_def)
next
  case True
  then have "session_inv st" "ss_subscribed st" by simp_all
  then show ?thesis
  proof (cases rule: notify_job_cases [where E = E and s = s])
    case (failed j)
    then show ?thesis using True by (simp add: keeps_def session_inv_def session_wf_def)
  next
    case (accepted j d t)
    define st1 where "st1 = (stop E st)\<lparr>ss_have_job := True, m_dev := d, m_trace := t, ss_job := j\<rparr>"
    have st1: "session_inv st1" "ss_have_job st1" "\<not> ss_running st1" "ss_authorized st1 = ss_authorized st"
      using True accepted(1) by (simp_all add: st1_def session_inv_def session_wf_def)
    have "notify_job E s st = (if ss_authorized st then build_header E st1 else (0, st1))"
      using accepted(2) by (simp only: st1_def Let_def)
    then show ?thesis using st1 build_header_keeps(1,2) [OF st1(1,2), of E]
      by (simp add: keeps_def work_ok_idle) (metis prod.collapse)
  qed
qed

lemma bitcoin_target_length: "bitcoin_target v = Some t \<Longrightarrow> length t = 8"
  using bitcoin_target_complete bitcoin_target_sound by (metis option.inject)

lemma set_difficulty_keeps: "keeps st (set_difficulty E s st)"
proof -
  have "bitcoin_target v = Some t \<Longrightarrow> session_inv st \<Longrightarrow> session_inv (st\<lparr>ss_pending_target := t\<rparr>)" for v t
    by (simp add: session_inv_def session_wf_def bitcoin_target_length)
  then show ?thesis
    by (auto simp: keeps_def set_difficulty_def split: json_found.split option.split)
qed

lemma set_extranonce_keeps: "keeps st (set_extranonce E s st)"
proof -
  obtain k v where h: "json_hex E s ''params[0]'' (ss_extra1 st) 32 = (k, v)" by fastforce
  note res = json_hex_result [OF h]
  have e1: "session_inv st \<Longrightarrow> session_inv (st\<lparr>ss_extra1 := v\<rparr>)"
    using res by (simp add: session_inv_def session_wf_def)
  have "session_inv ((stop E (st\<lparr>ss_extra1 := v\<rparr>))\<lparr>ss_have_job := False, ss_extra1_size := nat k, ss_extra2_size := unat count,
      ss_extra2 := replicate 16 0, ss_extra_exhausted := False\<rparr>)" (is "session_inv (?s count)")
    if "session_inv st" "count \<noteq> 0" "count \<le> 16" for count :: u32
  proof -
    have "unat count \<noteq> 0" "unat count \<le> 16" using that(2,3) by (simp_all add: word_le_nat_alt unat_eq_0)
    then show ?thesis using that(1) res by (simp add: session_inv_def session_wf_def nat_le_iff)
  qed
  moreover have "work_ok (?s count)" for count by (simp add: work_ok_idle)
  ultimately show ?thesis
    using h e1 by (auto simp: keeps_def set_extranonce_def Let_def not_less split: option.split)
qed

lemma notification_keeps: "keeps st (notification E s st)"
  by (simp add: notification_def split_def Let_def set_difficulty_keeps set_extranonce_keeps notify_job_keeps)

lemma reply_subscribe_keeps: "keeps st (reply_subscribe E s st)"
proof (cases "ss_subscribed st \<or> \<not> session_inv st")
  case True
  then show ?thesis by (auto simp: keeps_def reply_subscribe_def)
next
  case False
  then have idle: "\<not> ss_running st" by (auto simp: session_inv_def)
  obtain k v where h: "json_hex E s ''result[1]'' (ss_extra1 st) 32 = (k, v)" by fastforce
  note res = json_hex_result [OF h]
  have e1: "session_inv (st\<lparr>ss_extra1 := v\<rparr>)"
    using res False by (auto simp: session_inv_def session_wf_def)
  have "session_inv (st\<lparr>ss_extra1 := v, ss_extra1_size := nat k, ss_extra2_size := unat count, ss_subscribed := True\<rparr>)"
    if "count \<noteq> 0" "count \<le> 16" for count :: u32
  proof -
    have "unat count \<noteq> 0" "unat count \<le> 16" using that by (simp_all add: word_le_nat_alt unat_eq_0)
    then show ?thesis using False res by (simp add: session_inv_def session_wf_def nat_le_iff)
  qed
  moreover have "work_ok (st\<lparr>ss_extra1 := v, ss_extra1_size := nat k, ss_extra2_size := unat count, ss_subscribed := True\<rparr>)"
    for count :: u32 using idle by (simp add: work_ok_idle)
  ultimately show ?thesis
    using False h e1 idle by (auto simp: keeps_def reply_subscribe_def Let_def not_less split_def split: option.split)
qed

lemma reply_authorize_keeps: "keeps st (reply_authorize E s st)"
proof (cases "ss_subscribed st \<and> \<not> ss_authorized st \<and> session_inv st \<and> json_true (env_search E) s ''result''")
  case False
  then show ?thesis by (auto simp: keeps_def reply_authorize_def)
next
  case True
  define st1 where "st1 = tel_event E ''pool_authorized'' (st\<lparr>ss_authorized := True\<rparr>)"
  have inv1: "session_inv st1" "\<not> ss_running st1" "ss_authorized st1"
    using True by (auto simp: st1_def session_inv_def session_wf_def)
  let ?t = "ascii ''{\"id\":3,\"method\":\"mining.suggest_difficulty\",\"params\":[0.0001]}'' @ [0x0A]"
  obtain rc st2 where s2: "send_line E ?t st1 = (rc, st2)" by fastforce
  have more: "machine.more st2 = machine.more st1" using send_line_more [of E ?t st1] s2 by (simp only: snd_conv)
  have inv2: "session_inv st2" "\<not> ss_running st2" "ss_authorized st2"
    using inv1 session_inv_more [OF more] more_stratum [OF more] by simp_all
  have "reply_authorize E s st = (if rc \<noteq> 0 then (-1, st2) else if ss_have_job st2 then build_header E st2 else (0, st2))"
    using True s2 by (simp add: reply_authorize_def Let_def st1_def del: ascii_Cons)
  then show ?thesis
    using inv2 build_header_keeps(1,2) [OF inv2(1) _ inv2(3), of E]
    by (simp add: keeps_def work_ok_idle) (metis prod.collapse)
qed

section \<open>Shares in flight\<close>

lemma ids_ok_free: "ids_ok ps n \<Longrightarrow> length ps = 8 \<Longrightarrow> i < 8 \<Longrightarrow> pd_id p = 0 \<Longrightarrow> ids_ok (ps[i := p]) n"
  by (auto simp: ids_ok_def nth_list_update)

lemma ids_ok_same: "ids_ok ps n \<Longrightarrow> length ps = 8 \<Longrightarrow> i < 8 \<Longrightarrow> pd_id p = pd_id (ps ! i) \<Longrightarrow> ids_ok (ps[i := p]) n"
  by (auto simp: ids_ok_def nth_list_update)

lemma u32_succ: "(n :: u32) + 1 = 0 \<or> n < n + 1"
proof (cases "1 + n = 0")
  case False
  from unatSuc [OF this] show ?thesis by (simp add: word_less_nat_alt add.commute)
qed (simp add: add.commute)

lemma ids_ok_next: "ids_ok ps n \<Longrightarrow> 4 \<le> n \<Longrightarrow> ids_ok ps (n + 1)"
proof -
  assume ok: "ids_ok ps n" and n: "4 \<le> n"
  have "n + 1 = 0 \<or> n < n + 1" by (rule u32_succ)
  then have "n + 1 = 0 \<or> 4 \<le> n + 1 \<and> (\<forall>x. x < n \<longrightarrow> x < n + 1)" using n by force
  moreover have "n \<noteq> 0" using n by auto
  ultimately show ?thesis using ok by (fastforce simp: ids_ok_def)
qed

lemma ids_ok_add:
  assumes "ids_ok ps n" "length ps = 8" "i < 8" "4 \<le> n" "pd_id p = n"
  shows "ids_ok (ps[i := p]) (n + 1)"
proof -
  have n: "n \<noteq> 0" using assms(4) by auto
  have "n + 1 = 0 \<or> n < n + 1" by (rule u32_succ)
  moreover have "\<forall>j<8. pd_id (ps ! j) \<noteq> n" using assms(1) n by (force simp: ids_ok_def)
  ultimately show ?thesis using ids_ok_next [OF assms(1,4)] assms by (auto simp: ids_ok_def nth_list_update)
qed

lemma session_inv_pending:
  "session_inv st \<Longrightarrow> length ps = 8 \<Longrightarrow> ids_ok ps n \<Longrightarrow> session_inv (st\<lparr>ss_pending := ps, ss_next_id := n\<rparr>)"
  by (simp add: session_inv_def session_wf_def)

lemma session_inv_pendingD: "session_inv st \<Longrightarrow> length (ss_pending st) = 8 \<and> ids_ok (ss_pending st) (ss_next_id st)"
  by (simp add: session_inv_def session_wf_def)

lemma set_upt_8: "set [0..<8] \<subseteq> {..<8 :: nat}"
  by auto

lemma reply_share_keeps:
  "set is \<subseteq> {..<8} \<Longrightarrow> session_inv st \<Longrightarrow> session_inv (reply_share E s rid is st) \<and> work_ok (reply_share E s rid is st) = work_ok st"
proof (induction "is" arbitrary: st)
  case (Cons i "is")
  then have i: "i < 8" "set is \<subseteq> {..<8}" by simp_all
  note pend = session_inv_pendingD [OF Cons.prems(2)]
  have "session_inv (st\<lparr>ss_pending := (ss_pending st)[i := p]\<rparr>)" if "pd_id p = 0" for p
    using session_inv_pending [OF Cons.prems(2) _ ids_ok_free [of "ss_pending st" "ss_next_id st" i p]] pend i that by simp
  then show ?case using Cons i by (simp add: Let_def)
qed simp

lemma reply_keeps: "keeps st (reply E s st)"
  using reply_share_keeps [of "[0..<8]" st E s, OF set_upt_8]
  by (auto simp: reply_def reply_subscribe_keeps reply_authorize_keeps keeps_def [of st "(0, x)" for x] split: option.split
      simp del: upt_rec_numeral)

lemma handle_line_keeps: "keeps st (handle_line E s st)"
  by (auto simp: handle_line_def notification_keeps reply_keeps split: json_found.split)

section \<open>Results\<close>

lemma submit_share_keeps:
  assumes "session_inv st"
  shows "session_inv (snd (submit_share E nonce st)) \<and> work_ok (snd (submit_share E nonce st)) = work_ok st \<and>
    ss_running (snd (submit_share E nonce st)) = ss_running st"
proof -
  have wf: "session_wf st" using assms by (simp add: session_inv_def)
  note pend = session_inv_pendingD [OF assms]
  have h: "take 76 (nonce_header st nonce) = take 76 (ss_header st)" "length (nonce_header st nonce) = 80"
    using wf by (simp_all add: nonce_header_def session_wf_def)
  have inv1: "session_inv (st\<lparr>ss_header := nonce_header st nonce\<rparr>)" (is "session_inv ?st1")
    using assms h by (simp add: session_inv_def session_wf_def)
  have work1: "work_ok ?st1 = work_ok st" using h by simp
  have upd: "session_inv (?st1\<lparr>ss_next_id := n, m_dev := d, m_trace := t\<rparr>) = session_inv (?st1\<lparr>ss_next_id := n\<rparr>)"
    "work_ok (?st1\<lparr>ss_next_id := n, m_dev := d, m_trace := t\<rparr>) = work_ok (?st1\<lparr>ss_next_id := n\<rparr>)" for n d t
    by (rule frame; simp)+
  have updp: "session_inv (?st1\<lparr>ss_next_id := n, m_dev := d, m_trace := t, ss_pending := p\<rparr>) = session_inv (?st1\<lparr>ss_pending := p, ss_next_id := n\<rparr>)"
    "work_ok (?st1\<lparr>ss_next_id := n, m_dev := d, m_trace := t, ss_pending := p\<rparr>) = work_ok (?st1\<lparr>ss_pending := p, ss_next_id := n\<rparr>)" for n d t p
    by (rule frame; cases st; simp)+
  from wf show ?thesis
  proof (cases rule: submit_share_cases [where E = E and nonce = nonce])
    case (failed ps d)
    then have "session_inv (?st1\<lparr>ss_next_id := ss_next_id st + 1\<rparr>)"
      using inv1 ids_ok_next [of "ss_pending st" "ss_next_id st"] pend by (simp add: session_inv_def session_wf_def)
    then show ?thesis using failed upd work1 by simp
  next
    case (sent slot ps now d)
    then show ?thesis
      using session_inv_pending [OF inv1 _ ids_ok_add [of "ss_pending st" "ss_next_id st" slot]] pend updp work1
      by simp
  qed (use inv1 work1 in simp_all)
qed

lemma drain_results_keeps:
  "session_inv st \<Longrightarrow> session_inv (snd (drain_results E k st)) \<and> work_ok (snd (drain_results E k st)) = work_ok st \<and>
     ss_running (snd (drain_results E k st)) = ss_running st"
proof (induction k arbitrary: st)
  case (Suc k)
  define st1 where "st1 = snd (reg_read E 0x98 st)"
  define st2 where "st2 = reg_write E 0x98 1 (snd (reg_read E 0x90 st1))"
  let ?r = "submit_share E (fst (reg_read E 0x90 st1)) st2"
  have st2: "session_inv st2" "work_ok st2 = work_ok st" "ss_running st2 = ss_running st"
    using Suc.prems by (simp_all add: st1_def st2_def)
  note sub = submit_share_keeps [OF st2(1), of E "fst (reg_read E 0x90 st1)"]
  have "snd (drain_results E (Suc k) st) =
    (if fst (reg_read E 0x98 st) AND 1 = 0 then st1 else if fst ?r \<noteq> 0 then snd ?r else snd (drain_results E k (snd ?r)))"
    by (simp add: st1_def st2_def split_def Let_def)
  then show ?case using Suc.prems Suc.IH [of "snd ?r"] sub st2 by (simp add: st1_def)
qed simp

lemma session_inv_range: "session_inv (st\<lparr>ss_range_start := r\<rparr>) = session_inv st"
  by (simp add: session_inv_def session_wf_def)

lemma start_range_keeps:
  "session_inv st \<Longrightarrow> work_ok st \<Longrightarrow> ss_running st \<Longrightarrow> session_inv (start_range E st) \<and> work_ok (start_range E st)"
proof -
  have "extranonce_count (start_range E st) = extranonce_count st" by (simp add: extranonce_count_def)
  then show "session_inv st \<Longrightarrow> work_ok st \<Longrightarrow> ss_running st \<Longrightarrow> session_inv (start_range E st) \<and> work_ok (start_range E st)"
    by (simp add: session_inv_def session_wf_def work_ok_def mined_def)
qed

lemma service_results_keeps: "keeps st (service_results E st)"
proof (cases "ss_running st \<and> session_inv st \<and> work_ok st")
  case False
  then show ?thesis by (auto simp: keeps_def service_results_def)
next
  case True
  define st1 where "st1 = snd (reg_read E 4 st)"
  define st2 where "st2 = snd (drain_results E 16 st1)"
  define st3 where "st3 = snd (reg_read E 0x98 (snd (reg_read E 4 st2)))"
  define st4 where "st4 = st3\<lparr>ss_range_start := ss_range_start st3 + RANGE\<rparr>"
  have st1: "session_inv st1" "work_ok st1" "ss_running st1" using True by (simp_all add: st1_def)
  then have st2: "session_inv st2" "work_ok st2" "ss_running st2" using drain_results_keeps [of st1 E 16] by (simp_all add: st2_def)
  then have st4: "session_inv st4" "work_ok st4" "ss_running st4" by (simp_all add: st3_def st4_def session_inv_range)
  have flags: "ss_have_job (stop E st4)" "ss_authorized (stop E st4)" using st4 by (simp_all add: session_inv_def)
  have "keeps st (build_header E (stop E st4))"
    using build_header_keeps(1,2) [OF session_inv_stop [OF st4(1)] flags] by (auto simp: keeps_def) (metis prod.collapse)+
  moreover have "keeps st (0, start_range E st4)" using start_range_keeps [OF st4] by (simp add: keeps_def)
  moreover have "service_results E st =
    (if fst (reg_read E 4 st) AND 8 \<noteq> 0 then (-1, tel_event E ''result_fifo_overflow'' st1)
     else if fst (drain_results E 16 st1) \<noteq> 0 then (fst (drain_results E 16 st1), st2)
     else if fst (reg_read E 4 st2) AND 4 = 0 then (0, snd (reg_read E 4 st2))
     else if fst (reg_read E 0x98 (snd (reg_read E 4 st2))) AND 1 \<noteq> 0 then (0, st3)
     else if ss_range_start st4 = 0 then build_header E (stop E st4) else (0, start_range E st4))"
    using True by (simp add: service_results_def split_def Let_def st1_def st2_def st3_def st4_def)
  moreover have "keeps st (rc, s)" if "session_inv s" "work_ok s" for rc s using that by (simp add: keeps_def)
  ultimately show ?thesis using st1 st2 by (simp add: st3_def)
qed

section \<open>The task\<close>

lemma session_rx_keeps:
  "session_inv st \<Longrightarrow> work_ok st \<Longrightarrow> length line \<le> LINE_MAX \<Longrightarrow>
   session_rx E chunk line last_rx st = (bad, line', last_rx', st') \<Longrightarrow>
   session_inv st' \<and> length line' \<le> LINE_MAX \<and> (\<not> bad \<longrightarrow> work_ok st')"
proof (induction chunk arbitrary: line last_rx st)
  case (Cons c chunk)
  let ?r = "if line = [] then (0, st) else handle_line E line st"
  have "keeps st ?r" by (simp add: handle_line_keeps)
  then have r: "session_inv (snd ?r)" "fst ?r = 0 \<Longrightarrow> work_ok (snd ?r)" using Cons.prems by (simp_all add: keeps_def)
  show ?case
  proof (cases "c = 0x0A")
    case True
    show ?thesis
    proof (cases "fst ?r = 0")
      case False
      then show ?thesis using Cons.prems True r by (auto simp: split_def Let_def split: if_splits)
    next
      case rc: True
      then have "session_rx E chunk [] (fst (get_ticks E (snd ?r))) (snd (get_ticks E (snd ?r))) = (bad, line', last_rx', st')"
        using Cons.prems True by (simp add: split_def Let_def)
      from Cons.IH [OF _ _ _ this] r rc show ?thesis by simp
    qed
  next
    case False
    then show ?thesis using Cons.prems Cons.IH [of st "line @ [c]"] by (auto split: if_splits)
  qed
qed simp

lemma session_timeouts_keeps:
  "set is \<subseteq> {..<8} \<Longrightarrow> session_inv st \<Longrightarrow>
   session_inv (snd (session_timeouts E now is bad st)) \<and> work_ok (snd (session_timeouts E now is bad st)) = work_ok st"
proof (induction "is" arbitrary: bad st)
  case (Cons i "is")
  then have i: "i < 8" "set is \<subseteq> {..<8}" by simp_all
  note pend = session_inv_pendingD [OF Cons.prems(2)]
  have "session_inv (st\<lparr>ss_pending := (ss_pending st)[i := p]\<rparr>)" if "pd_id p = pd_id (ss_pending st ! i)" for p
    using session_inv_pending [OF Cons.prems(2) _ ids_ok_same [of "ss_pending st" "ss_next_id st" i p]] pend i that by simp
  then show ?case using Cons i by (simp add: Let_def)
qed simp

lemma session_receive_keeps:
  assumes "session_inv st" "work_ok st" "length line \<le> LINE_MAX" "session_receive E started line last_rx st = (r, st')"
  shows "session_inv st' \<and> (\<forall>l t now. r = Some (l, t, now) \<longrightarrow> work_ok st' \<and> length l \<le> LINE_MAX)"
proof -
  obtain n chunk d where rx: "env_recv E 512 (m_dev st) = ((n, chunk), d)" by (metis prod.exhaust)
  obtain bad l t s where s: "session_rx E (take (nat n) chunk) line last_rx (st\<lparr>m_dev := d\<rparr>) = (bad, l, t, s)"
    by (metis prod.exhaust)
  from session_rx_keeps [OF _ _ assms(3) s] assms(1,2)
  have "session_inv s" "length l \<le> LINE_MAX" "\<not> bad \<Longrightarrow> work_ok s" by simp_all
  then show ?thesis
    using assms rx s by (auto simp: session_receive_def Let_def split_def split: if_splits)
qed

lemma session_service_keeps:
  assumes "session_inv st" "work_ok st" "session_service E now st = (ok, st')"
  shows "session_inv st' \<and> (ok \<longrightarrow> work_ok st')"
proof -
  obtain rc s where s: "service_results E st = (rc, s)" by fastforce
  have k: "session_inv s" "rc = 0 \<Longrightarrow> work_ok s" using service_results_keeps [of st E] assms s by (simp_all add: keeps_def)
  from session_timeouts_keeps [OF set_upt_8 k(1), of E now False] k assms(3) s show ?thesis
    by (auto simp: session_service_def split_def Let_def simp del: upt_rec_numeral split: if_splits)
qed

lemma session_end_keeps: "session_inv st \<Longrightarrow> session_inv (session_end E st) \<and> \<not> ss_running (session_end E st)"
proof -
  assume "session_inv st"
  then have "session_inv ((stop E st)\<lparr>ss_have_job := False\<rparr>)" by (simp add: session_inv_def session_wf_def)
  moreover have "machine.more (session_end E st) = machine.more ((stop E st)\<lparr>ss_have_job := False\<rparr>)"
    by (simp add: session_end_def Let_def)
  ultimately show ?thesis using session_inv_more [of "(stop E st)\<lparr>ss_have_job := False\<rparr>" "session_end E st"]
    more_stratum [of "session_end E st" "(stop E st)\<lparr>ss_have_job := False\<rparr>"] by simp
qed

lemma session_reset_keeps: "session_wf st \<Longrightarrow> session_inv (session_reset st) \<and> \<not> ss_running (session_reset st)"
  by (simp add: session_reset_def session_inv_def session_wf_def ids_ok_def bitcoin_target_length split: option.split)

text \<open>The invariant at each control point.\<close>

fun task_inv :: "task_point \<times> 'd session \<Rightarrow> bool" where
  "task_inv (Connecting, st) \<longleftrightarrow> session_inv st \<and> \<not> ss_running st"
| "task_inv (Receiving g t0 line t1, st) \<longleftrightarrow> session_inv st \<and> work_ok st \<and> length line \<le> LINE_MAX"
| "task_inv (Serving g t0 line t1 now, st) \<longleftrightarrow> session_inv st \<and> work_ok st \<and> length line \<le> LINE_MAX"

lemma task_inv_session: "task_inv (pt, st) \<Longrightarrow> session_inv st \<and> work_ok st"
  by (cases pt) (simp_all add: work_ok_idle)

lemma session_open_keeps: "session_wf st \<Longrightarrow> task_inv (session_open E g address st)"
proof -
  assume wf: "session_wf st"
  define st1 where "st1 = session_reset (st\<lparr>m_dev := env_setsockopt E ''FREERTOS_SO_RCVTIMEO'' 300
      (env_setsockopt E ''FREERTOS_SO_SNDTIMEO'' 300 (m_dev st))\<rparr>)"
  have st1: "session_inv st1" "\<not> ss_running st1"
    using session_reset_keeps [of "st\<lparr>m_dev := d\<rparr>" for d] wf session_wf_more [of st "st\<lparr>m_dev := d\<rparr>" for d] by (simp_all add: st1_def)
  obtain rc d where c: "env_connect E address (ms_port (ss_session st1)) (m_dev st1) = (rc, d)" by fastforce
  define st2 where "st2 = st1\<lparr>m_dev := d\<rparr>"
  have st2: "session_inv st2" "\<not> ss_running st2" using st1 by (simp_all add: st2_def)
  obtain rc' st3 where s: "send_line E subscribe_text st2 = (rc', st3)" by fastforce
  have "machine.more st3 = machine.more st2" using send_line_more [of E subscribe_text st2] s by simp
  then have st3: "session_inv st3" "\<not> ss_running st3" using st2 session_inv_more more_stratum by (metis, metis)
  let ?st4 = "tel_event E ''pool_connected'' (st3\<lparr>m_dev := env_setsockopt E ''FREERTOS_SO_RCVTIMEO'' 10 (m_dev st3)\<rparr>)"
  have "session_open E g address st = (if rc \<noteq> 0 then (Connecting, session_end E st2)
      else if rc' \<noteq> 0 then (Connecting, session_end E st3)
      else (Receiving g (fst (get_ticks E ?st4)) [] (fst (get_ticks E ?st4)), snd (get_ticks E ?st4)))"
    using c s by (simp add: session_open_def Let_def split_def st1_def st2_def)
  then show ?thesis
    using st2 st3 session_end_keeps [OF st2(1), of E] session_end_keeps [OF st3(1), of E] by (simp add: work_ok_idle)
qed

lemma session_connect_keeps:
  assumes "\<And>d. settings_wf (fst (fst (env_settings E d)))" "session_inv st" "\<not> ss_running st"
  shows "task_inv (session_connect E st)"
proof -
  obtain s g d where q: "env_settings E (m_dev st) = ((s, g), d)" by (metis prod.exhaust)
  have "settings_wf s" using assms(1) [of "m_dev st"] q by simp
  then have st1: "session_inv (st\<lparr>ss_session := s, m_dev := d\<rparr>)" for d
    using assms(2) by (simp add: session_inv_def session_wf_def)
  then have wf: "session_wf (st\<lparr>ss_session := s, m_dev := d\<rparr>)" for d by (simp add: session_inv_def)
  show ?thesis
    using st1 assms(3) session_open_keeps [OF wf]
    by (simp add: session_connect_def q Let_def delay_ticks_def split: prod.split)
qed

lemma stratum_step_keeps:
  assumes "\<And>d. settings_wf (fst (fst (env_settings E d)))" "task_inv c"
  shows "task_inv (stratum_step E c)"
proof (cases "(E, c)" rule: stratum_step.cases)
  case (1 E' st)
  then show ?thesis using assms(2) session_connect_keeps [OF assms(1)] by simp
next
  case (2 E' g t0 line t1 st)
  obtain r s where r: "session_receive E t0 line t1 st = (r, s)" by fastforce
  have "session_inv st" "work_ok st" "length line \<le> LINE_MAX" using assms(2) 2 by simp_all
  from session_receive_keeps [OF this r] this 2 r session_end_keeps show ?thesis
    by (auto split: option.split)
next
  case (3 E' g t0 line t1 now st)
  obtain ok s where r: "session_service E now st = (ok, s)" by fastforce
  have "session_inv st" "work_ok st" "length line \<le> LINE_MAX" using assms(2) 3 by simp_all
  from session_service_keeps [OF this(1,2) r] this 3 r session_end_keeps show ?thesis
    by (auto split: bool.split)
qed

text \<open>The states the task can reach.\<close>

inductive reachable :: "'d stratum_env \<Rightarrow> 'd \<Rightarrow> task_point \<times> 'd session \<Rightarrow> bool" for E d where
  boot: "reachable E d (stratum_boot E d)"
| step: "reachable E d c \<Longrightarrow> reachable E d (stratum_step E c)"

lemma stratum_boot_inv: "task_inv (stratum_boot E d)"
proof -
  have "session_inv (stratum_init d)"
    by (simp add: session_inv_def session_wf_def job_wf_def settings_wf_def stratum_init_def ids_ok_def list_all_iff)
  then show ?thesis by (simp add: stratum_boot_def session_inv_stop)
qed

lemma reachable_inv:
  assumes "\<And>d. settings_wf (fst (fst (env_settings E d)))" "reachable E d c"
  shows "task_inv c"
  using assms(2) by induction (simp_all add: stratum_boot_inv stratum_step_keeps assms(1))

section \<open>Properties\<close>

text \<open>
  C24. In every state the task can reach, whatever the pool, the network and the
  hardware do: mining only runs with a job, after authorization, after subscription, inside a connection; the line buffer
  and all arrays keep their bounds; the ids of the shares in flight are distinct, at least 4, and below the
  next one (until the ids are used up); and while mining runs, the header in the hardware is that of the current job for the
  extranonce and the time that a submission would quote. New messages never leave a stale header
  behind the quoted text.
\<close>

theorem session_protocol:
  assumes "\<And>d. settings_wf (fst (fst (env_settings E d)))" and "reachable E d (pt, st)"
  shows "session_wf st \<and> (pt \<noteq> Connecting \<longrightarrow> length (rx_line pt) \<le> LINE_MAX) \<and>
    (ss_running st \<longrightarrow> pt \<noteq> Connecting \<and> ss_have_job st \<and> ss_authorized st \<and> ss_subscribed st \<and> 0 < ss_extra2_size st \<and>
      (\<exists>e time. mined st e time)) \<and>
    (\<forall>i<8. pd_id (ss_pending st ! i) \<noteq> 0 \<longrightarrow>
       4 \<le> pd_id (ss_pending st ! i) \<and> (ss_next_id st = 0 \<or> pd_id (ss_pending st ! i) < ss_next_id st) \<and>
       (\<forall>j<8. j \<noteq> i \<longrightarrow> pd_id (ss_pending st ! j) \<noteq> pd_id (ss_pending st ! i)))"
proof -
  from reachable_inv [OF assms] have inv: "task_inv (pt, st)" .
  from task_inv_session [OF this] have "session_inv st" "work_ok st" by simp_all
  then show ?thesis using inv by (cases pt) (auto simp: session_inv_def ids_ok_def work_ok_def)
qed

lemma silent_settings: "settings_wf (fst (fst (env_settings silent_env d)))"
  by (simp add: silent_env_def settings_wf_def)

theorem session_protocol_witness:
  "reachable silent_env () (stratum_boot silent_env ()) \<and> session_wf (snd (stratum_boot silent_env ()))"
  using session_protocol [OF silent_settings, of "()" "fst (stratum_boot silent_env ())" "snd (stratum_boot silent_env ())"] reachable.boot [of silent_env "()"]
  by simp

text \<open>
  C25. A share submitted from a state of that invariant, after any number of results drained before it, is the
  share the pool will compute: the text quotes the job id, the extranonce, the time and the nonce of a
  header whose double hash meets the target, and that header is the consensus header of the current job with
  that extranonce.
\<close>

theorem submitted_work_consistent:
  assumes inv: "session_inv st" "work_ok st" "ss_running st"
    and sub: "submit_share E nonce (snd (drain_results E k st)) = (0, st')"
  defines "st1 \<equiv> snd (drain_results E k st)"
  shows "\<exists>e time ps. length e = ss_extra2_size st1 \<and>
    m_trace st' = m_trace st1 @ map Send ps @ [Detail (ascii ''solution_submitted'')] \<and>
    concat ps = ascii ''{\"id\":'' @ dec_text (unat (ss_next_id st1)) @ ascii '',\"method\":\"mining.submit\",\"params\":[\"''
      @ cstr (ms_worker (ss_session st1)) @ ascii ''\",\"'' @ cstr (job_id (ss_job st1)) @ ascii ''\",\"'' @ hex_text e
      @ ascii ''\",\"'' @ cstr (job_time (ss_job st1)) @ ascii ''\",\"'' @ hex8_text (bitcoin_swap32 nonce) @ ascii ''\"]}'' @ [0x0A] \<and>
    hex_decode (take 8 (job_time (ss_job st1))) (replicate 4 0) 4 = (Some 4, time) \<and>
    be_val (rev (hash256 (take 76 (job_header (ss_job st1) (take (ss_extra1_size st1) (ss_extra1 st1)) e time) @ store_be32 nonce)))
      \<le> big_val (rev (job_target (ss_job st1)))"
proof -
  from drain_results_keeps [of st E k] inv have st1: "session_wf st1" "work_ok st1" "ss_running st1"
    by (simp_all add: st1_def session_inv_def)
  then obtain e time where m: "mined st1 e time" by (auto simp: work_ok_def)
  have sub': "submit_share E nonce st1 = (0, st')" using sub by (simp add: st1_def)
  from st1(1) show ?thesis
  proof (cases rule: submit_share_cases [where E = E and nonce = nonce])
    case (sent slot ps now d')
    then have "m_trace st' = m_trace st1 @ map Send ps @ [Detail (ascii ''solution_submitted'')]" using sub' by auto
    with sent(1,5) m show ?thesis
      unfolding mined_def submit_text_def hash_value_def nonce_header_def by metis
  qed (use sub' in simp_all)
qed

lemma blank_session_inv: "session_inv blank_session"
  using blank_session_wf by (simp add: session_inv_def) (simp add: blank_session_def ids_ok_def)

definition mining_session :: "unit session" where
  "mining_session = snd (build_header silent_env blank_session)"

lemma mining_session_facts:
  "session_inv mining_session" "work_ok mining_session" "ss_running mining_session"
  "job_target (ss_job mining_session) = replicate 8 0xffffffff" "ss_next_id mining_session = 4"
  "pd_id (ss_pending mining_session ! 0) = 0" "ss_extra2_size mining_session = 2"
proof -
  have f: "ss_have_job blank_session" "ss_authorized blank_session" "\<not> ss_extra_exhausted blank_session"
    "job_target (ss_job blank_session) = replicate 8 0xffffffff" "ss_next_id blank_session = 4"
    "pd_id (ss_pending blank_session ! 0) = 0" "ss_extra2_size blank_session = 2"
    by (simp_all add: blank_session_def blank_job_def)
  obtain time where t: "hex_decode (take 8 (job_time (ss_job blank_session))) (replicate 4 0) 4 = (Some 4, time)"
    using blank_time by (metis prod.collapse)
  obtain e wrapped where i: "extra2_incr (ss_extra2_size blank_session) (ss_extra2 blank_session) = (e, wrapped)" by fastforce
  from blank_session_wf f(3) t i obtain d where
    b: "build_header silent_env blank_session = (0, mining_session)" "ss_running mining_session"
      "ss_job mining_session = ss_job blank_session" "ss_next_id mining_session = ss_next_id blank_session"
      "ss_pending mining_session = ss_pending blank_session" "ss_extra2_size mining_session = ss_extra2_size blank_session"
    by (rule build_header_ok [where E = silent_env]) (simp add: mining_session_def)
  from build_header_keeps [OF blank_session_inv f(1,2) b(1)] b f
  show "session_inv mining_session" "work_ok mining_session" "ss_running mining_session"
    "job_target (ss_job mining_session) = replicate 8 0xffffffff" "ss_next_id mining_session = 4"
    "pd_id (ss_pending mining_session ! 0) = 0" "ss_extra2_size mining_session = 2" by simp_all
qed

theorem submitted_work_consistent_witness:
  "session_inv mining_session \<and> work_ok mining_session \<and> ss_running mining_session \<and>
   (\<exists>e time st'. submit_share silent_env 0 mining_session = (0, st') \<and> length (e :: bytes) = 2 \<and>
      be_val (rev (hash256 (take 76 (job_header (ss_job mining_session) (take (ss_extra1_size mining_session) (ss_extra1 mining_session))
        e time) @ store_be32 0))) \<le> big_val (rev (job_target (ss_job mining_session))))"
proof -
  note m = mining_session_facts
  have "session_wf mining_session" using m(1) by (simp add: session_inv_def)
  from silent_share_ok [OF this m(4) _ m(6), of 0] m(5) obtain st' where
    s: "submit_share silent_env 0 mining_session = (0, st')" by (metis order.refl prod.collapse)
  moreover have "snd (drain_results silent_env 0 mining_session) = mining_session" by simp
  ultimately show ?thesis
    using submitted_work_consistent [OF m(1-3), of silent_env 0 0 st'] m by metis
qed

end
