(* ===== verification/Stratum_Fresh.thy ===== *)
theory Stratum_Fresh
  imports Stratum_Session
begin

text \<open>
  Work is never repeated. While a connection lasts and as long as the pool does not assign a new extranonce space, the extranonce counter of
  \<open>stratum.c\<close> only grows, the hardware is only restarted for a header with a new extranonce, and the nonce ranges of one
  header are searched in ascending order, each once.
\<close>

section \<open>Progress of the search\<close>

text \<open>The nonce ranges start at multiples of \<open>RANGE\<close>.\<close>

definition aligned :: "'d session \<Rightarrow> bool" where
  "aligned st \<longleftrightarrow> unat (ss_range_start st) mod 2 ^ 24 = 0"

text \<open>The same header (but for the nonce), for the same job, quoted with the same extranonce.\<close>

definition same_work :: "'d session \<Rightarrow> 'd session \<Rightarrow> bool" where
  "same_work st st' \<longleftrightarrow> ss_job st' = ss_job st \<and> ss_extra2_hex st' = ss_extra2_hex st \<and>
     take 76 (ss_header st') = take 76 (ss_header st)"

text \<open>
  A later state of the search in the same extranonce space: unless a new extranonce was taken, what runs was running
  before, and has not moved back.
\<close>

definition later :: "'d session \<Rightarrow> 'd session \<Rightarrow> bool" where
  "later st st' \<longleftrightarrow> (ss_subscribed st \<longrightarrow>
     ss_subscribed st' \<and> ss_extra1 st' = ss_extra1 st \<and> ss_extra1_size st' = ss_extra1_size st \<and> ss_extra2_size st' = ss_extra2_size st \<and>
     extranonce_count st \<le> extranonce_count st' \<and>
     (ss_running st' \<and> extranonce_count st' = extranonce_count st \<longrightarrow>
        ss_running st \<and> same_work st st' \<and> ss_range_start st \<le> ss_range_start st'))"

lemma later_refl [simp]: "later st st"
  by (simp add: later_def same_work_def)

lemma later_trans [trans]: "later st st' \<Longrightarrow> later st' st'' \<Longrightarrow> later st st''"
  unfolding later_def same_work_def by fastforce

lemma later_more: "machine.more st = machine.more st' \<Longrightarrow> later st st'"
  using more_stratum [of st st'] by (simp add: later_def same_work_def extranonce_count_def)

lemma aligned_more: "machine.more st = machine.more st' \<Longrightarrow> aligned st' = aligned st"
  using more_stratum [of st st'] by (simp add: aligned_def)

text \<open>The bookkeeping of shares does not count, and a stopped search may do anything but change the extranonce.\<close>

lemma later_book [simp]:
  "later st (st\<lparr>ss_pending_target := t\<rparr>)" "later st (st\<lparr>ss_pending := p\<rparr>)" "later st (st\<lparr>ss_pending := p, ss_next_id := n\<rparr>)"
  "later st (st\<lparr>ss_next_id := n\<rparr>)" "take 76 h = take 76 (ss_header st) \<Longrightarrow> later st (st\<lparr>ss_header := h\<rparr>)"
  by (simp_all add: later_def same_work_def extranonce_count_def)

lemma later_idle:
  assumes "\<not> ss_running st'" "ss_subscribed st' = ss_subscribed st" "ss_extra1 st' = ss_extra1 st" "ss_extra1_size st' = ss_extra1_size st"
    "ss_extra2_size st' = ss_extra2_size st" "ss_extra2 st' = ss_extra2 st" "ss_extra_exhausted st' = ss_extra_exhausted st"
  shows "later st st'"
  using assms by (simp add: later_def extranonce_count_def)

text \<open>A handler moves the search forward when it returns 0; an error ends the connection.\<close>

definition moves :: "'d session \<Rightarrow> int \<times> 'd session \<Rightarrow> bool" where
  "moves st r \<longleftrightarrow> (session_inv st \<and> aligned st \<longrightarrow> aligned (snd r) \<and> (fst r = 0 \<longrightarrow> later st (snd r)))"

lemma moves_refl [simp]: "moves st (rc, st)"
  by (simp add: moves_def)

lemma moves_error: "(aligned st \<Longrightarrow> aligned st') \<Longrightarrow> moves st (-1, st')"
  by (simp add: moves_def)

lemma moves_trans: "moves st' r \<Longrightarrow> later st st' \<Longrightarrow> (session_inv st \<Longrightarrow> session_inv st') \<Longrightarrow> (aligned st \<Longrightarrow> aligned st') \<Longrightarrow> moves st r"
  unfolding moves_def using later_trans by blast

lemma build_header_moves:
  assumes "session_inv st" "aligned st" "ss_have_job st" "ss_authorized st"
  shows "moves st (build_header E st)"
proof -
  have wf: "session_wf st" using assms(1) by (simp add: session_inv_def)
  then show ?thesis
  proof (cases rule: build_header_cases [where E = E])
    case exhausted
    then show ?thesis by simp
  next
    case bad_time
    then show ?thesis by (simp add: moves_def aligned_def)
  next
    case (ok time e wrapped d)
    obtain st' where st': "build_header E st = (0, st')" using ok by blast
    from build_header_keeps(2) [OF assms(1,3,4) st'] ok st' obtain x t where m: "mined st' x t" by (auto simp: work_ok_def)
    have size: "ss_extra2_size st \<le> length (ss_extra2 st)" "ss_extra2_size st \<noteq> 0"
      using assms by (simp_all add: session_inv_def session_wf_def)
    note c = extra2_incr_count [OF size(1) ok(3)]
    have "be_val (extranonce2 st) < 256 ^ ss_extra2_size st" using be_val_less [of "extranonce2 st"] size by simp
    then have "Suc (be_val (extranonce2 st)) = 256 ^ ss_extra2_size st \<or> Suc (be_val (extranonce2 st)) < 256 ^ ss_extra2_size st"
      by linarith
    then have "extranonce_count st' = Suc (extranonce_count st)" using ok st' c size by (auto simp: extranonce_count_def)
    then show ?thesis using ok st' by (auto simp: moves_def later_def aligned_def)
  qed
qed

section \<open>Messages\<close>

text \<open>
  The message that assigns a new extranonce space. The lines that a chunk completes, given the beginning of a line received before;
  a control point at which the lines that will be received next hold no such message.
\<close>

definition assigns_space :: "'d stratum_env \<Rightarrow> bytes \<Rightarrow> bool" where
  "assigns_space E s \<longleftrightarrow> env_search E s (ascii ''method'') = JSONSuccess (ascii ''mining.set_extranonce'') JSONString"

fun chunk_lines :: "bytes \<Rightarrow> bytes \<Rightarrow> bytes list" where
  "chunk_lines line [] = []"
| "chunk_lines line (c # chunk) = (if c = 0x0A then line # chunk_lines [] chunk else chunk_lines (line @ [c]) chunk)"

definition received_lines :: "'d stratum_env \<Rightarrow> task_point \<times> 'd session \<Rightarrow> bytes list" where
  "received_lines E c =
     (case c of (Receiving g t0 line t1, st) \<Rightarrow> (let ((n, chunk), d) = env_recv E 512 (m_dev st) in chunk_lines line (take (nat n) chunk))
      | _ \<Rightarrow> [])"

definition keeps_space :: "'d stratum_env \<Rightarrow> task_point \<times> 'd session \<Rightarrow> bool" where
  "keeps_space E c \<longleftrightarrow> list_all (\<lambda>s. s \<noteq> [] \<longrightarrow> \<not> assigns_space E s) (received_lines E c)"

lemma later_tel [simp]:
  "later st (tel_event E s st') = later st st'" "later st (tel_detail E ev st') = later st st'"
  "later st (snd (get_ticks E st')) = later st st'" "later st (snd (reg_read E a st')) = later st st'"
  "later st (snd (send_line E bs st')) = later st st'" "later st (reg_write E a v st') = later st st'"
  "later st (st'\<lparr>m_dev := d\<rparr>) = later st st'" "later st (log_event x st') = later st st'"
  by (simp_all add: later_def same_work_def extranonce_count_def log_event_def)

lemma aligned_tel [simp]:
  "aligned (tel_event E s st) = aligned st" "aligned (tel_detail E ev st) = aligned st" "aligned (snd (get_ticks E st)) = aligned st"
  "aligned (snd (reg_read E a st)) = aligned st" "aligned (snd (send_line E bs st)) = aligned st" "aligned (reg_write E a v st) = aligned st"
  "aligned (st\<lparr>m_dev := d\<rparr>) = aligned st" "aligned (log_event x st) = aligned st" "aligned (stop E st) = aligned st"
  "aligned (st\<lparr>ss_pending_target := t\<rparr>) = aligned st" "aligned (st\<lparr>ss_pending := p\<rparr>) = aligned st"
  "aligned (st\<lparr>ss_next_id := n\<rparr>) = aligned st" "aligned (st\<lparr>ss_header := h\<rparr>) = aligned st" "aligned (start_range E st) = aligned st"
  by (simp_all add: aligned_def log_event_def)

lemma notify_job_moves: "moves st (notify_job E s st)"
proof (cases "ss_subscribed st \<and> session_inv st \<and> aligned st")
  case False
  then show ?thesis by (auto simp: moves_def notify_job_def)
next
  case True
  then have "session_inv st" "ss_subscribed st" by simp_all
  then show ?thesis
  proof (cases rule: notify_job_cases [where E = E and s = s])
    case (failed j)
    then show ?thesis by (simp add: moves_def aligned_def)
  next
    case (accepted j d t)
    define st1 where "st1 = (stop E st)\<lparr>ss_have_job := True, m_dev := d, m_trace := t, ss_job := j\<rparr>"
    have st1: "session_inv st1" "aligned st1" "ss_have_job st1" "ss_authorized st1 = ss_authorized st"
      using True accepted(1) by (simp_all add: st1_def session_inv_def session_wf_def aligned_def)
    have l: "later st st1" by (rule later_idle) (simp_all add: st1_def)
    have "notify_job E s st = (if ss_authorized st then build_header E st1 else (0, st1))"
      using accepted(2) by (simp only: st1_def Let_def)
    moreover have "moves st (build_header E st1)" if "ss_authorized st"
      using build_header_moves [OF st1(1,2,3), of E] that l st1 by (intro moves_trans [OF _ l]) simp_all
    ultimately show ?thesis using l st1 by (simp add: moves_def)
  qed
qed

lemma set_difficulty_moves: "moves st (set_difficulty E s st)"
  by (auto simp: moves_def set_difficulty_def split: json_found.split option.split)

lemma set_extranonce_aligned: "aligned st \<Longrightarrow> aligned (snd (set_extranonce E s st))"
  by (simp add: set_extranonce_def aligned_def Let_def split_def split: option.split)

lemma notification_moves:
  assumes "\<not> assigns_space E s"
  shows "moves st (notification E s st)"
proof -
  obtain rc buf where m: "json_string (env_search E) s ''method'' (replicate 64 0) 64 = (rc, buf)" by fastforce
  have "cstr buf \<noteq> ascii ''mining.set_extranonce''" if "rc = 0"
    using json_string_stored [OF m [unfolded that]] assms unfolding assigns_space_def by fastforce
  then show ?thesis using m set_difficulty_moves notify_job_moves by (auto simp: notification_def Let_def simp del: ascii_Cons)
qed

lemma reply_subscribe_moves: "moves st (reply_subscribe E s st)"
  by (auto simp: moves_def later_def reply_subscribe_def Let_def split_def aligned_def split: option.split)

lemma reply_authorize_moves: "moves st (reply_authorize E s st)"
proof (cases "ss_subscribed st \<and> \<not> ss_authorized st \<and> session_inv st \<and> aligned st \<and> json_true (env_search E) s ''result''")
  case False
  then show ?thesis by (auto simp: moves_def reply_authorize_def)
next
  case True
  define st1 where "st1 = tel_event E ''pool_authorized'' (st\<lparr>ss_authorized := True\<rparr>)"
  let ?t = "ascii ''{\"id\":3,\"method\":\"mining.suggest_difficulty\",\"params\":[0.0001]}'' @ [0x0A]"
  define st2 where "st2 = snd (send_line E ?t st1)"
  have st2: "session_inv st2" "aligned st2" "ss_authorized st2" "later st st2"
    using True by (auto simp: st1_def st2_def session_inv_def session_wf_def aligned_def intro: later_idle simp del: ascii_Cons)
  have "reply_authorize E s st = (if fst (send_line E ?t st1) \<noteq> 0 then (-1, st2) else if ss_have_job st2 then build_header E st2 else (0, st2))"
    using True by (simp add: reply_authorize_def Let_def split_def st1_def st2_def del: ascii_Cons)
  moreover have "moves st (build_header E st2)" if "ss_have_job st2"
    using build_header_moves [OF st2(1,2) that st2(3), of E] st2 by (intro moves_trans [OF _ st2(4)]) simp_all
  ultimately show ?thesis using st2 by (simp add: moves_def)
qed

lemma reply_share_later: "later st (reply_share E s rid is st) \<and> aligned (reply_share E s rid is st) = aligned st"
  by (induction "is" arbitrary: st) (simp_all add: Let_def)

lemma notification_aligned:
  assumes "session_inv st" "aligned st"
  shows "aligned (snd (notification E s st))"
proof -
  have "moves st (notify_job E s st)" "moves st (set_difficulty E s st)" by (rule notify_job_moves set_difficulty_moves)+
  then show ?thesis using assms by (simp add: moves_def notification_def set_extranonce_aligned Let_def split_def del: ascii_Cons)
qed

lemma handle_line_moves: "\<not> assigns_space E s \<Longrightarrow> moves st (handle_line E s st)"
  using reply_share_later [of st E s _ "[0..<8]"]
  by (auto simp: handle_line_def reply_def notification_moves reply_subscribe_moves reply_authorize_moves moves_def [of st "(0, x)" for x]
    split: json_found.split option.split simp del: upt_rec_numeral)

lemma handle_line_aligned:
  assumes "session_inv st" "aligned st"
  shows "aligned (snd (handle_line E s st))"
proof (cases "assigns_space E s")
  case True
  then show ?thesis using assms(2) notification_aligned [OF assms, of E s] by (simp add: handle_line_def assigns_space_def)
next
  case False
  then show ?thesis using handle_line_moves [OF False, of st] assms by (simp add: moves_def)
qed

section \<open>Results of the hardware\<close>

lemma submit_share_later:
  assumes "session_wf st"
  shows "later st (snd (submit_share E nonce st)) \<and> aligned (snd (submit_share E nonce st)) = aligned st"
proof -
  have h: "take 76 (nonce_header st nonce) = take 76 (ss_header st)" using assms by (simp add: nonce_header_def session_wf_def)
  from assms show ?thesis
    by (cases rule: submit_share_cases [where E = E and nonce = nonce])
      (simp_all add: later_def same_work_def extranonce_count_def aligned_def h)
qed

lemma drain_results_later:
  "session_inv st \<Longrightarrow> later st (snd (drain_results E k st)) \<and> aligned (snd (drain_results E k st)) = aligned st"
proof (induction k arbitrary: st)
  case (Suc k)
  define st2 where "st2 = reg_write E 0x98 1 (snd (reg_read E 0x90 (snd (reg_read E 0x98 st))))"
  let ?r = "submit_share E (fst (reg_read E 0x90 (snd (reg_read E 0x98 st)))) st2"
  have st2: "session_inv st2" "later st st2" "aligned st2 = aligned st" using Suc.prems by (simp_all add: st2_def)
  then have "session_wf st2" by (simp add: session_inv_def)
  note sub = submit_share_later [OF this, of E "fst (reg_read E 0x90 (snd (reg_read E 0x98 st)))"]
  have inv: "session_inv (snd ?r)" using submit_share_keeps [OF st2(1)] by blast
  have "snd (drain_results E (Suc k) st) =
    (if fst (reg_read E 0x98 st) AND 1 = 0 then snd (reg_read E 0x98 st) else if fst ?r \<noteq> 0 then snd ?r else snd (drain_results E k (snd ?r)))"
    by (simp add: st2_def split_def Let_def)
  moreover have "later st (snd ?r)" "aligned (snd ?r) = aligned st" using sub st2 later_trans [of st st2 "snd ?r"] by simp_all
  moreover from this(1) have "later st (snd (drain_results E k (snd ?r)))" using Suc.IH [OF inv] by (blast intro: later_trans)
  ultimately show ?case using Suc.IH [OF inv] by simp
qed simp

lemma next_range:
  assumes "unat r mod 2 ^ 24 = 0"
  shows "unat (r + RANGE) mod 2 ^ 24 = 0" and "r + RANGE \<noteq> 0 \<Longrightarrow> r \<le> r + RANGE"
proof -
  obtain k where k: "unat r = 2 ^ 24 * k" using assms by auto
  then have "k < 256" using unat_u32_less [of r] by simp
  have u: "unat (r + RANGE) = (2 ^ 24 * k + 2 ^ 24) mod 2 ^ 32" using k by (simp add: unat_word_ariths RANGE_def)
  consider "k = 255" | "k < 255" using \<open>k < 256\<close> by linarith
  then have c: "unat (r + RANGE) = 0 \<or> unat (r + RANGE) = 2 ^ 24 * k + 2 ^ 24"
  proof cases
    case 1
    then show ?thesis by (simp add: u)
  next
    case 2
    then show ?thesis by (simp add: u)
  qed
  then show "unat (r + RANGE) mod 2 ^ 24 = 0" by auto
  show "r \<le> r + RANGE" if "r + RANGE \<noteq> 0"
    using c k that by (auto simp: word_le_nat_alt unat_eq_0)
qed

lemma service_results_moves:
  assumes "work_ok st"
  shows "moves st (service_results E st)"
proof (cases "ss_running st \<and> session_inv st \<and> aligned st")
  case False
  then show ?thesis by (auto simp: moves_def service_results_def)
next
  case True
  define st1 where "st1 = snd (reg_read E 4 st)"
  define st2 where "st2 = snd (drain_results E 16 st1)"
  define st3 where "st3 = snd (reg_read E 0x98 (snd (reg_read E 4 st2)))"
  define st4 where "st4 = st3\<lparr>ss_range_start := ss_range_start st3 + RANGE\<rparr>"
  have st1: "session_inv st1" "aligned st1" "later st st1" "ss_running st1" using True by (simp_all add: st1_def)
  then have st2: "session_inv st2" "aligned st2" "later st st2" "ss_running st2"
    using drain_results_later [OF st1(1), of E 16] drain_results_keeps [OF st1(1), of E 16] later_trans [of st st1] by (simp_all add: st2_def)
  then have st3: "session_inv st3" "aligned st3" "later st st3" "ss_running st3" by (simp_all add: st3_def)
  note rng = next_range [OF st3(2) [unfolded aligned_def]]
  have st4: "session_inv st4" "aligned st4" "ss_running st4"
    using st3 rng(1) by (simp_all add: st4_def session_inv_range aligned_def)
  have start: "later st3 (start_range E st4)" if "ss_range_start st4 \<noteq> 0"
    using rng(2) that st3(4) by (simp add: st4_def later_def same_work_def extranonce_count_def)
  have stopped: "session_inv (stop E st4)" "aligned (stop E st4)" "ss_have_job (stop E st4)" "ss_authorized (stop E st4)"
    using session_inv_stop [OF st4(1)] st4 by (simp_all add: session_inv_def)
  have "later st3 (stop E st4)" by (rule later_idle) (simp_all add: st4_def)
  then have build: "moves st (build_header E (stop E st4))"
    using stopped(1,2) by (intro moves_trans [OF build_header_moves [OF stopped] later_trans [OF st3(3)]])
  have "service_results E st =
    (if fst (reg_read E 4 st) AND 8 \<noteq> 0 then (-1, tel_event E ''result_fifo_overflow'' st1)
     else if fst (drain_results E 16 st1) \<noteq> 0 then (fst (drain_results E 16 st1), st2)
     else if fst (reg_read E 4 st2) AND 4 = 0 then (0, snd (reg_read E 4 st2))
     else if fst (reg_read E 0x98 (snd (reg_read E 4 st2))) AND 1 \<noteq> 0 then (0, st3)
     else if ss_range_start st4 = 0 then build_header E (stop E st4) else (0, start_range E st4))"
    using True by (simp add: service_results_def split_def Let_def st1_def st2_def st3_def st4_def)
  then show ?thesis
    using build start later_trans [OF st3(3)] st1 st2 st3 st4 by (simp add: moves_def)
qed

section \<open>The task\<close>

lemma session_rx_later:
  "session_inv st \<Longrightarrow> work_ok st \<Longrightarrow> aligned st \<Longrightarrow> session_rx E chunk line last_rx st = (bad, line', last_rx', st') \<Longrightarrow>
    aligned st' \<and> (\<not> bad \<and> list_all (\<lambda>s. s \<noteq> [] \<longrightarrow> \<not> assigns_space E s) (chunk_lines line chunk) \<longrightarrow> later st st')"
proof (induction chunk arbitrary: line last_rx st)
  case (Cons c chunk)
  let ?r = "if line = [] then (0, st) else handle_line E line st"
  have "keeps st ?r" by (simp add: handle_line_keeps)
  then have r: "aligned (snd ?r)" "session_inv (snd ?r)" "fst ?r = 0 \<Longrightarrow> work_ok (snd ?r)"
    using Cons.prems handle_line_aligned [OF Cons.prems(1,3), of E line] by (simp_all add: keeps_def)
  have l: "later st (snd ?r)" if "fst ?r = 0" "line \<noteq> [] \<longrightarrow> \<not> assigns_space E line"
    using that handle_line_moves [of E line st] Cons.prems by (auto simp: moves_def)
  show ?case
  proof (cases "c = 0x0A")
    case True
    show ?thesis
    proof (cases "fst ?r = 0")
      case False
      then show ?thesis using Cons.prems True r by (auto simp: split_def Let_def split: if_splits)
    next
      case rc: True
      then have "session_rx E chunk [] (fst (get_ticks E (snd ?r))) (snd (get_ticks E (snd ?r))) = (bad, line', last_rx', st')"
        using Cons.prems True by (simp add: split_def Let_def)
      from Cons.IH [OF _ _ _ this] have "aligned st' \<and> (\<not> bad \<and> list_all (\<lambda>s. s \<noteq> [] \<longrightarrow> \<not> assigns_space E s) (chunk_lines [] chunk) \<longrightarrow>
          later (snd (get_ticks E (snd ?r))) st')" using r rc by simp
      moreover have "later st (snd (get_ticks E (snd ?r)))" if "line \<noteq> [] \<longrightarrow> \<not> assigns_space E line" using l [OF rc that] by simp
      moreover have "chunk_lines line (c # chunk) = line # chunk_lines [] chunk" using True by simp
      ultimately show ?thesis using later_trans [of st "snd (get_ticks E (snd ?r))" st'] by (simp only: list.pred_inject) blast
    qed
  next
    case False
    then show ?thesis using Cons.prems Cons.IH [of st "line @ [c]"] by (auto split: if_splits)
  qed
qed simp

lemma session_receive_later:
  assumes "session_inv st" "work_ok st" "aligned st" "session_receive E started line last_rx st = (r, st')"
  shows "aligned st' \<and> (r \<noteq> None \<and> keeps_space E (Receiving g started line last_rx, st) \<longrightarrow> later st st')"
proof -
  obtain n chunk d where rx: "env_recv E 512 (m_dev st) = ((n, chunk), d)" by (metis prod.exhaust)
  obtain bad l t s where s: "session_rx E (take (nat n) chunk) line last_rx (st\<lparr>m_dev := d\<rparr>) = (bad, l, t, s)"
    by (metis prod.exhaust)
  let ?k = "keeps_space E (Receiving g started line last_rx, st)"
  have k: "?k = list_all (\<lambda>s. s \<noteq> [] \<longrightarrow> \<not> assigns_space E s) (chunk_lines line (take (nat n) chunk))"
    by (simp add: keeps_space_def received_lines_def rx)
  from session_rx_later [OF _ _ _ s] assms(1-3) have "aligned s" "\<not> bad \<Longrightarrow> ?k \<Longrightarrow> later (st\<lparr>m_dev := d\<rparr>) s" unfolding k by simp_all
  moreover have "later st (st\<lparr>m_dev := d\<rparr>)" by simp
  ultimately have "aligned s" "\<not> bad \<Longrightarrow> ?k \<Longrightarrow> later st s" using later_trans by blast+
  then show ?thesis using assms rx s by (auto simp: session_receive_def Let_def split_def split: if_splits)
qed

lemma session_timeouts_later:
  "later st (snd (session_timeouts E now is bad st)) \<and> aligned (snd (session_timeouts E now is bad st)) = aligned st"
proof (induction "is" arbitrary: bad st)
  case (Cons i "is")
  obtain b s where s: "session_timeouts E now (i # is) bad st = session_timeouts E now is b s" "later st s" "aligned s = aligned st"
  proof (cases "pd_id (ss_pending st ! i) \<noteq> 0 \<and> 3000 < now - pd_sent (ss_pending st ! i)")
    case True
    have "later st (tel_detail E ev (st\<lparr>ss_pending := p\<rparr>))" "aligned (tel_detail E ev (st\<lparr>ss_pending := p\<rparr>)) = aligned st" for ev p
      by simp_all
    with True that [of True] show thesis by (simp add: Let_def)
  next
    case False
    with that [of bad st] show thesis by simp
  qed
  from Cons.IH [of s b] s(2,3) show ?case unfolding s(1) by (blast intro: later_trans)
qed simp

lemma session_service_later:
  assumes "session_inv st" "work_ok st" "aligned st" "session_service E now st = (ok, st')"
  shows "aligned st' \<and> (ok \<longrightarrow> later st st')"
proof -
  obtain rc s where s: "service_results E st = (rc, s)" by fastforce
  have m: "aligned s" "rc = 0 \<Longrightarrow> later st s" using service_results_moves [OF assms(2), of E] assms s by (simp_all add: moves_def)
  note t = session_timeouts_later [of s E now "[0..<8]" False]
  have "later st (snd (session_timeouts E now [0..<8] False s))" if "rc = 0" using t m(2) [OF that] by (blast intro: later_trans)
  with t m assms(4) s show ?thesis
    by (auto simp: session_service_def split_def Let_def simp del: upt_rec_numeral split: if_splits)
qed

lemma session_end_aligned: "aligned (session_end E st) = aligned st"
  by (simp add: session_end_def Let_def aligned_def log_event_def)

lemma session_connect_aligned: "aligned st \<Longrightarrow> aligned (snd (session_connect E st))"
  by (simp add: session_connect_def session_open_def Let_def split_def delay_ticks_def session_end_aligned session_reset_def)
    (simp add: aligned_def)

lemma stratum_step_later:
  assumes "task_inv c" "aligned (snd c)"
  shows "aligned (snd (stratum_step E c)) \<and> (keeps_space E c \<and> fst c \<noteq> Connecting \<and> fst (stratum_step E c) \<noteq> Connecting \<longrightarrow> later (snd c) (snd (stratum_step E c)))"
proof (cases "(E, c)" rule: stratum_step.cases)
  case (1 E' st)
  then show ?thesis using assms(2) session_connect_aligned by simp
next
  case (2 E' g t0 line t1 st)
  obtain r s where r: "session_receive E t0 line t1 st = (r, s)" by fastforce
  have "session_inv st" "work_ok st" "aligned st" using assms 2 by simp_all
  from session_receive_later [OF this r, of g] this 2 r show ?thesis
    by (auto simp: session_end_aligned split: option.split)
next
  case (3 E' g t0 line t1 now st)
  obtain ok s where r: "session_service E now st = (ok, s)" by fastforce
  have "session_inv st" "work_ok st" "aligned st" using assms 3 by simp_all
  from session_service_later [OF this r] 3 r show ?thesis
    by (auto simp: session_end_aligned split: bool.split)
qed

end
