(* ===== verification/Stratum_Notify.thy ===== *)
theory Stratum_Notify
  imports Stratum_Fresh
begin

text \<open>
  What a \<open>mining.notify\<close> message does, from its JSON fields to the hardware: the job that is stored is the message, and in an
  authorized session the header that is mined is the consensus header of its fields.
\<close>

section \<open>Well-formed messages\<close>

text \<open>A field that holds the hexadecimal text of some bytes.\<close>

definition hex_field :: "'d stratum_env \<Rightarrow> bytes \<Rightarrow> bytes \<Rightarrow> bytes \<Rightarrow> bool" where
  "hex_field E s q b \<longleftrightarrow> (\<exists>v. env_search E s q = JSONSuccess v JSONString \<and> hex_valid v \<and> length v = 2 * length b \<and> hex_value v = b)"

definition text_field :: "'d stratum_env \<Rightarrow> bytes \<Rightarrow> string \<Rightarrow> bytes \<Rightarrow> bool" where
  "text_field E s q v \<longleftrightarrow> env_search E s (ascii q) = JSONSuccess v JSONString \<and> list_all printable v"

definition branch_query :: "nat \<Rightarrow> bytes" where
  "branch_query i = ascii ''params[4]['' @ dec_text i @ ascii '']''"

record work_message =
  wm_id :: bytes
  wm_prev :: bytes
  wm_coin1 :: bytes
  wm_coin2 :: bytes
  wm_branches :: "bytes list"
  wm_version :: bytes
  wm_bits :: bytes
  wm_time :: bytes

text \<open>The parameters of a \<open>mining.notify\<close> message in their order, within the sizes that \<open>pool_job\<close> can hold.\<close>

definition notify_message :: "'d stratum_env \<Rightarrow> bytes \<Rightarrow> work_message \<Rightarrow> bool" where
  "notify_message E s w \<longleftrightarrow> env_validate E s \<and> text_field E s ''method'' (ascii ''mining.notify'') \<and>
     text_field E s ''params[0]'' (wm_id w) \<and> wm_id w \<noteq> [] \<and> length (wm_id w) < 128 \<and>
     hex_field E s (ascii ''params[1]'') (wm_prev w) \<and> length (wm_prev w) = 32 \<and>
     hex_field E s (ascii ''params[2]'') (wm_coin1 w) \<and> length (wm_coin1 w) \<le> 4096 \<and>
     hex_field E s (ascii ''params[3]'') (wm_coin2 w) \<and> length (wm_coin2 w) \<le> 4096 \<and>
     (\<exists>v. env_search E s (ascii ''params[4]'') = JSONSuccess v JSONArray) \<and> length (wm_branches w) \<le> 32 \<and>
     (\<forall>i<length (wm_branches w). hex_field E s (branch_query i) (wm_branches w ! i) \<and> length (wm_branches w ! i) = 32) \<and>
     env_search E s (branch_query (length (wm_branches w))) = JSONNotFound \<and>
     hex_field E s (ascii ''params[5]'') (wm_version w) \<and> length (wm_version w) = 4 \<and>
     hex_field E s (ascii ''params[6]'') (wm_bits w) \<and> length (wm_bits w) = 4 \<and>
     text_field E s ''params[7]'' (wm_time w) \<and> hex_valid (wm_time w) \<and> length (wm_time w) = 8 \<and>
     (\<exists>v t. env_search E s (ascii ''params[8]'') = JSONSuccess v t \<and> (t = JSONTrue \<or> t = JSONFalse))"

section \<open>Reading the fields\<close>

lemma hex_decode_field:
  assumes "hex_valid v" "length v = 2 * length b" "hex_value v = b" "length b \<le> cap" "cap \<le> length out"
  shows "hex_decode v out cap = (Some (length b), memcpy_at out 0 b)"
proof -
  have "hex_loop v (2 * 0) out = (True, memcpy_at out 0 b)" using hex_loop_valid [OF assms(1), of 0 out] assms(2-5) by simp
  then show ?thesis using assms(2,4) by (simp add: hex_decode_def)
qed

lemma json_hex_field:
  assumes "hex_field E s (ascii q) b" "length b \<le> cap" "cap \<le> length out"
  shows "json_hex E s q out cap = (int (length b), memcpy_at out 0 b)"
proof -
  from assms(1) obtain v where v: "env_search E s (ascii q) = JSONSuccess v JSONString" "hex_valid v" "length v = 2 * length b" "hex_value v = b"
    unfolding hex_field_def by blast
  show ?thesis using hex_decode_field [OF v(2-4) assms(2,3)] v(1) by (simp add: json_hex_def)
qed

lemma json_text_field:
  assumes "text_field E s q v" "length v < cap" "cap \<le> length out"
  shows "json_string (env_search E) s q out cap = (0, v @ 0 # drop (length v + 1) out)"
proof -
  obtain rc buf where r: "json_string (env_search E) s q out cap = (rc, buf)" by fastforce
  with assms have "rc = 0" by (simp add: json_string_def text_field_def json_char_ok_printable)
  from json_string_stored [OF r [unfolded this] assms(3)] r this assms(1) show ?thesis by (auto simp: text_field_def)
qed

lemma memcpy_whole: "length b = length out \<Longrightarrow> memcpy_at out 0 b = b"
  by (simp add: memcpy_at_def)

text \<open>The job after the scalar fields.\<close>

definition read_job :: "work_message \<Rightarrow> pool_job \<Rightarrow> pool_job" where
  "read_job w j = j\<lparr>job_id := wm_id w @ 0 # drop (length (wm_id w) + 1) (job_id j), job_prev := wm_prev w,
     job_coin1 := memcpy_at (job_coin1 j) 0 (wm_coin1 w), job_coin2 := memcpy_at (job_coin2 j) 0 (wm_coin2 w),
     job_version := wm_version w, job_bits := wm_bits w, job_time := wm_time w @ [0],
     job_n1 := length (wm_coin1 w), job_n2 := length (wm_coin2 w), job_nb := 0\<rparr>"

lemma text_field_nul: "text_field E s q v \<Longrightarrow> 0 \<notin> set v"
  by (auto simp: text_field_def list_all_iff printable_def)

lemma notify_fields_exact:
  assumes msg: "notify_message E s w" and wf: "job_wf (ss_job st)"
  shows "notify_fields E s st = (0, st\<lparr>ss_job := read_job w (ss_job st)\<rparr>)"
proof -
  let ?j = "ss_job st"
  note m = msg [unfolded notify_message_def] and len = wf [unfolded job_wf_def]
  have f0: "text_field E s ''params[0]'' (wm_id w)" "length (wm_id w) < 128" "wm_id w \<noteq> []" "length (job_id ?j) = 128" using m len by simp_all
  have jid: "json_string (env_search E) s ''params[0]'' (job_id ?j) 128 = (0, wm_id w @ 0 # drop (length (wm_id w) + 1) (job_id ?j))"
    by (rule json_text_field [OF f0(1,2)]) (simp add: f0)
  have nul: "(wm_id w @ 0 # drop (length (wm_id w) + 1) (job_id ?j)) ! 0 \<noteq> 0"
    using text_field_nul [OF f0(1)] f0(3) by (cases "wm_id w") auto
  have time: "json_string (env_search E) s ''params[7]'' (job_time ?j) 9 = (0, wm_time w @ [0])" "cstr (wm_time w @ [0]) = wm_time w"
    using m len json_text_field [of E s "''params[7]''" "wm_time w" 9 "job_time ?j"] text_field_nul [of E s "''params[7]''" "wm_time w"]
    by (simp_all add: cstr_append_nul)
  have hex: "json_hex E s ''params[1]'' (job_prev ?j) 32 = (32, wm_prev w)"
    "json_hex E s ''params[2]'' (job_coin1 ?j) 4096 = (int (length (wm_coin1 w)), memcpy_at (job_coin1 ?j) 0 (wm_coin1 w))"
    "json_hex E s ''params[3]'' (job_coin2 ?j) 4096 = (int (length (wm_coin2 w)), memcpy_at (job_coin2 ?j) 0 (wm_coin2 w))"
    "json_hex E s ''params[5]'' (job_version ?j) 4 = (4, wm_version w)" "json_hex E s ''params[6]'' (job_bits ?j) 4 = (4, wm_bits w)"
    using m len json_hex_field [of E s "''params[1]''" "wm_prev w" 32 "job_prev ?j"] json_hex_field [of E s "''params[2]''" "wm_coin1 w" 4096 "job_coin1 ?j"]
      json_hex_field [of E s "''params[3]''" "wm_coin2 w" 4096 "job_coin2 ?j"] json_hex_field [of E s "''params[5]''" "wm_version w" 4 "job_version ?j"]
      json_hex_field [of E s "''params[6]''" "wm_bits w" 4 "job_bits ?j"] by (simp_all add: memcpy_whole del: ascii_Cons)
  obtain v4 v8 t8 where arr: "env_search E s (ascii ''params[4]'') = JSONSuccess v4 JSONArray"
    "env_search E s (ascii ''params[8]'') = JSONSuccess v8 t8" "t8 = JSONTrue \<or> t8 = JSONFalse" using m by blast
  have "length (wm_time w) = 8" using m by blast
  then show ?thesis
    using jid nul time hex arr by (auto simp: notify_fields_def Let_def read_job_def simp del: ascii_Cons)
qed

lemma notify_branches_exact:
  assumes "\<forall>k<length bs. hex_field E s (branch_query (i + k)) (bs ! k) \<and> length (bs ! k) = 32"
    and "env_search E s (branch_query (i + length bs)) = JSONNotFound" "i + length bs \<le> 32" "length bs < left"
    and "length (job_branches (ss_job st)) = 32" "list_all (\<lambda>b. length b = 32) (job_branches (ss_job st))" "job_nb (ss_job st) = i"
  shows "notify_branches E s left i st =
    (0, st\<lparr>ss_job := (ss_job st)\<lparr>job_branches := memcpy_at (job_branches (ss_job st)) i bs, job_nb := i + length bs\<rparr>\<rparr>)"
  using assms
proof (induction bs arbitrary: i left st)
  case Nil
  then show ?case by (cases left) (simp_all add: branch_query_def memcpy_at_def)
next
  case (Cons b bs)
  obtain l where l: "left = Suc l" using Cons.prems(4) by (cases left) auto
  from Cons.prems(1) have b: "hex_field E s (branch_query i) b" "length b = 32" by (metis add_0_right length_greater_0_conv list.discI nth_Cons_0)+
  then obtain v where v: "env_search E s (branch_query i) = JSONSuccess v JSONString" "hex_valid v" "length v = 2 * length b" "hex_value v = b"
    by (auto simp: hex_field_def)
  have i: "i < 32" using Cons.prems(3) by simp
  then have "length (job_branches (ss_job st) ! i) = 32" using Cons.prems(5,6) by (simp add: list_all_length)
  then have d: "hex_decode v (job_branches (ss_job st) ! i) 32 = (Some 32, b)"
    using hex_decode_field [OF v(2-4), of 32] b(2) by (simp add: memcpy_whole)
  let ?st = "st\<lparr>ss_job := (ss_job st)\<lparr>job_branches := (job_branches (ss_job st))[i := b], job_nb := Suc i\<rparr>\<rparr>"
  have "notify_branches E s left i st = notify_branches E s l (Suc i) ?st"
    using v(1) d i Cons.prems(7) by (simp add: l branch_query_def)
  also have "\<dots> = (0, ?st\<lparr>ss_job := (ss_job ?st)\<lparr>job_branches := memcpy_at (job_branches (ss_job ?st)) (Suc i) bs, job_nb := Suc i + length bs\<rparr>\<rparr>)"
  proof (rule Cons.IH)
    show "\<forall>k<length bs. hex_field E s (branch_query (Suc i + k)) (bs ! k) \<and> length (bs ! k) = 32"
      using Cons.prems(1) by (metis Suc_less_eq add_Suc_shift length_Cons nth_Cons_Suc)
    show "list_all (\<lambda>b. length b = 32) (job_branches (ss_job ?st))"
      using Cons.prems(5,6) b(2) i by (auto simp: list_all_length nth_list_update)
  qed (use Cons.prems l in simp_all)
  finally have run: "notify_branches E s left i st = \<dots>" .
  have "memcpy_at ((job_branches (ss_job st))[i := b]) (Suc i) bs = memcpy_at (job_branches (ss_job st)) i (b # bs)"
    using i Cons.prems(5) by (simp add: memcpy_at_def take_Suc_conv_app_nth)
  then show ?case by (simp add: run)
qed

text \<open>The job of a message: its fields, the target in force, and a number.\<close>

definition message_job :: "work_message \<Rightarrow> u32 list \<Rightarrow> pool_job \<Rightarrow> bool" where
  "message_job w target j \<longleftrightarrow> cstr (job_id j) = wm_id w \<and> cstr (job_time j) = wm_time w \<and> job_prev j = wm_prev w \<and>
     take (job_n1 j) (job_coin1 j) = wm_coin1 w \<and> take (job_n2 j) (job_coin2 j) = wm_coin2 w \<and>
     take (job_nb j) (job_branches j) = wm_branches w \<and> job_version j = wm_version w \<and> job_bits j = wm_bits w \<and> job_target j = target"

lemma notify_job_exact:
  assumes msg: "notify_message E s w" and inv: "session_inv st" "ss_subscribed st"
  obtains j d t where "message_job w (ss_pending_target st) j" "job_wf j" "job_time j = wm_time w @ [0]"
    "notify_job E s st = (let st1 = (stop E st)\<lparr>ss_have_job := True, m_dev := d, m_trace := t, ss_job := j\<rparr>
       in if ss_authorized st then build_header E st1 else (0, st1))"
proof -
  note m = msg [unfolded notify_message_def]
  have wf: "job_wf (ss_job st)" by (rule session_inv_jobD [OF inv(1)])
  note len = wf [unfolded job_wf_def]
  let ?st1 = "(stop E st)\<lparr>ss_have_job := False\<rparr>" let ?r = "read_job w (ss_job st)"
  define j where "j = ?r\<lparr>job_branches := memcpy_at (job_branches (ss_job st)) 0 (wm_branches w), job_nb := length (wm_branches w)\<rparr>"
  have f: "notify_fields E s ?st1 = (0, ?st1\<lparr>ss_job := ?r\<rparr>)" using notify_fields_exact [OF msg, of ?st1] wf by simp
  have b: "notify_branches E s 33 0 (?st1\<lparr>ss_job := ?r\<rparr>) = (0, ?st1\<lparr>ss_job := j\<rparr>)"
    using notify_branches_exact [of "wm_branches w" E s 0 33 "?st1\<lparr>ss_job := ?r\<rparr>"] m len by (simp add: j_def read_job_def del: ascii_Cons)
  let ?j4 = "j\<lparr>job_target := ss_pending_target st\<rparr>" let ?st4 = "?st1\<lparr>ss_job := ?j4, ss_have_job := True\<rparr>"
  obtain n d where n: "env_job E (cstr (job_id ?j4)) (m_dev ?st4) = (n, d)" by fastforce
  have nul: "0 \<notin> set (wm_id w)" "0 \<notin> set (wm_time w)" using m text_field_nul by blast+
  have br: "length (memcpy_at (job_branches (ss_job st)) 0 (wm_branches w)) = 32"
    "list_all (\<lambda>b. length b = 32) (memcpy_at (job_branches (ss_job st)) 0 (wm_branches w))"
    using m len by (auto simp: memcpy_at_def list_all_length nth_append)
  have "job_wf (?j4\<lparr>job_number := n\<rparr>)"
    using m len br inv(1) by (simp add: job_wf_def j_def read_job_def session_inv_def session_wf_def)
  moreover have "message_job w (ss_pending_target st) (?j4\<lparr>job_number := n\<rparr>)" "job_time (?j4\<lparr>job_number := n\<rparr>) = wm_time w @ [0]"
    using nul by (simp_all add: message_job_def j_def read_job_def memcpy_at_def cstr_append_nul)
  moreover have "notify_job E s st = (let st1 = (stop E st)\<lparr>ss_have_job := True, m_dev := d,
      m_trace := m_trace (stop E st) @ [Job (cstr (job_id ?j4))], ss_job := ?j4\<lparr>job_number := n\<rparr>\<rparr>
      in if ss_authorized st then build_header E st1 else (0, st1))"
    using inv(2) f b n by (simp add: notify_job_def Let_def tel_job_def log_event_def)
  ultimately show thesis using that by blast
qed

lemma notify_dispatch:
  assumes "notify_message E s w"
  shows "handle_line E s st = notify_job E s st"
proof -
  note m = assms [unfolded notify_message_def]
  have tf: "text_field E s ''method'' (ascii ''mining.notify'')" using m by blast
  have "json_string (env_search E) s ''method'' (replicate 64 0) 64 = (0, ascii ''mining.notify'' @ 0 # drop 14 (replicate 64 0))"
    using json_text_field [OF tf, of 64 "replicate 64 0"] by simp
  moreover have "cstr (ascii ''mining.notify'' @ 0 # drop 14 (replicate 64 0)) = ascii ''mining.notify''"
    by (rule cstr_append_nul [OF text_field_nul [OF tf]])
  moreover have "env_search E s (ascii ''method'') = JSONSuccess (ascii ''mining.notify'') JSONString" using tf by (simp add: text_field_def)
  ultimately show ?thesis using m by (simp add: handle_line_def notification_def)
qed

text \<open>The messages that are refused: before the subscription, and when an authorized session has no extranonce left.\<close>

lemma notify_refused:
  assumes "notify_message E s w" "session_inv st"
  shows "\<not> ss_subscribed st \<Longrightarrow> handle_line E s st = (-1, st)"
    and "ss_subscribed st \<Longrightarrow> ss_authorized st \<and> ss_extra_exhausted st \<Longrightarrow> \<exists>st'. handle_line E s st = (-1, st') \<and> \<not> ss_running st'"
proof -
  show "\<not> ss_subscribed st \<Longrightarrow> handle_line E s st = (-1, st)" by (simp add: notify_dispatch [OF assms(1)] notify_job_def)
  assume sub: "ss_subscribed st" and ex: "ss_authorized st \<and> ss_extra_exhausted st"
  obtain j d t where "notify_job E s st = (let st1 = (stop E st)\<lparr>ss_have_job := True, m_dev := d, m_trace := t, ss_job := j\<rparr>
       in if ss_authorized st then build_header E st1 else (0, st1))" by (rule notify_job_exact [OF assms sub])
  with ex show "\<exists>st'. handle_line E s st = (-1, st') \<and> \<not> ss_running st'"
    by (simp add: notify_dispatch [OF assms(1)] build_header_def Let_def)
qed

lemma notify_line:
  assumes msg: "notify_message E s w" and inv: "session_inv st" "ss_subscribed st" "\<not> (ss_authorized st \<and> ss_extra_exhausted st)"
  shows "\<exists>st'. handle_line E s st = (0, st') \<and> ss_pending st' = ss_pending st \<and> ss_have_job st' \<and> message_job w (ss_pending_target st) (ss_job st') \<and>
    ss_running st' = ss_authorized st \<and>
    (ss_authorized st \<longrightarrow> cstr (ss_extra2_hex st') = hex_text (extranonce2 st) \<and> ss_range_start st' = 0 \<and>
       ss_header st' = header_spec (wm_version w) (wm_prev w)
         (merkle_root (wm_coin1 w @ take (ss_extra1_size st) (ss_extra1 st) @ extranonce2 st @ wm_coin2 w) (wm_branches w))
         (hex_value (wm_time w)) (wm_bits w))"
proof -
  note m = msg [unfolded notify_message_def]
  obtain j d t where j: "message_job w (ss_pending_target st) j" "job_wf j" "job_time j = wm_time w @ [0]"
    "notify_job E s st = (let st1 = (stop E st)\<lparr>ss_have_job := True, m_dev := d, m_trace := t, ss_job := j\<rparr>
       in if ss_authorized st then build_header E st1 else (0, st1))" by (rule notify_job_exact [OF msg inv(1,2)])
  define st1 where "st1 = (stop E st)\<lparr>ss_have_job := True, m_dev := d, m_trace := t, ss_job := j\<rparr>"
  have st1: "session_wf st1" using inv j(2) by (simp add: st1_def session_inv_def session_wf_def)
  have h: "handle_line E s st = (if ss_authorized st then build_header E st1 else (0, st1))"
    using j(4) by (simp add: notify_dispatch [OF msg] st1_def Let_def)
  show ?thesis
  proof (cases "ss_authorized st")
    case False
    then show ?thesis using h j(1) by (simp add: st1_def)
  next
    case True
    have ex: "\<not> ss_extra_exhausted st1" using inv(3) True by (simp add: st1_def)
    have time: "hex_decode (take 8 (job_time (ss_job st1))) (replicate 4 0) 4 = (Some 4, hex_value (wm_time w))"
      using m j(3) hex_decode_field [of "wm_time w" "hex_value (wm_time w)" 4 "replicate 4 0"] by (simp add: st1_def memcpy_whole)
    obtain e wrapped where i: "extra2_incr (ss_extra2_size st1) (ss_extra2 st1) = (e, wrapped)" by fastforce
    obtain d' t' where b: "build_header E st1 = (0, st1\<lparr>m_dev := d', m_trace := t',
        ss_extra2_hex := memcpy_at (ss_extra2_hex st1) 0 (hex_text (extranonce2 st1) @ [0]),
        ss_header := job_header (ss_job st1) (take (ss_extra1_size st1) (ss_extra1 st1)) (extranonce2 st1) (hex_value (wm_time w)),
        ss_extra2 := e, ss_extra_exhausted := wrapped, ss_range_start := 0, ss_running := True\<rparr>)"
      by (rule build_header_ok [OF st1 ex time i, of E]) blast
    have "cstr (memcpy_at (ss_extra2_hex st1) 0 (hex_text (extranonce2 st1) @ [0])) = hex_text (extranonce2 st)"
      by (simp add: memcpy_at_def cstr_append_nul hex_text_no_nul st1_def)
    then show ?thesis using True h b j(1) by (simp add: st1_def job_header_def message_job_def)
  qed
qed

lemma notify_runs:
  assumes "notify_message E s w" "session_inv st" "ss_subscribed st" "\<not> ss_extra_exhausted st" "ss_authorized st"
  shows "\<exists>st'. handle_line E s st = (0, st') \<and> ss_running st' \<and> ss_pending st' = ss_pending st"
  using notify_line [OF assms(1-3)] assms(4,5) by blast

section \<open>A scripted pool\<close>

text \<open>
  A pool that sends three lines of one character: \<open>1\<close> is the reply to the subscription, \<open>2\<close> the authorization and \<open>3\<close> a job. The
  device state counts the lines received.
\<close>

definition pool_work :: work_message where
  "pool_work = \<lparr>wm_id = ascii ''j1'', wm_prev = replicate 32 0, wm_coin1 = [1], wm_coin2 = [2], wm_branches = [replicate 32 3],
     wm_version = [0x20, 0, 0, 0], wm_bits = [0x1d, 0, 0xff, 0xff], wm_time = ascii ''4d49e5da''\<rparr>"

definition pool_fields :: "((bytes \<times> bytes) \<times> json_found) list" where
  "pool_fields =
    [(([0x31], ascii ''id''), JSONSuccess (ascii ''1'') JSONNumber), (([0x31], ascii ''result[1]''), JSONSuccess (hex_text [7]) JSONString),
     (([0x31], ascii ''result[2]''), JSONSuccess (ascii ''2'') JSONNumber),
     (([0x32], ascii ''id''), JSONSuccess (ascii ''2'') JSONNumber), (([0x32], ascii ''result''), JSONSuccess (ascii ''true'') JSONTrue),
     (([0x33], ascii ''method''), JSONSuccess (ascii ''mining.notify'') JSONString),
     (([0x33], ascii ''params[0]''), JSONSuccess (wm_id pool_work) JSONString),
     (([0x33], ascii ''params[1]''), JSONSuccess (hex_text (wm_prev pool_work)) JSONString),
     (([0x33], ascii ''params[2]''), JSONSuccess (hex_text (wm_coin1 pool_work)) JSONString),
     (([0x33], ascii ''params[3]''), JSONSuccess (hex_text (wm_coin2 pool_work)) JSONString),
     (([0x33], ascii ''params[4]''), JSONSuccess [] JSONArray),
     (([0x33], branch_query 0), JSONSuccess (hex_text (replicate 32 3)) JSONString),
     (([0x33], ascii ''params[5]''), JSONSuccess (hex_text (wm_version pool_work)) JSONString),
     (([0x33], ascii ''params[6]''), JSONSuccess (hex_text (wm_bits pool_work)) JSONString),
     (([0x33], ascii ''params[7]''), JSONSuccess (wm_time pool_work) JSONString),
     (([0x33], ascii ''params[8]''), JSONSuccess (ascii ''true'') JSONTrue)]"

definition pool_settings :: miner_settings where
  "pool_settings = \<lparr>ms_mac = replicate 6 2, ms_port = 3333, ms_host = ascii ''p'' @ replicate 95 0, ms_worker = ascii ''w'' @ replicate 127 0,
     ms_password = replicate 64 0\<rparr>"

definition pool_env :: "nat stratum_env" where
  "pool_env = \<lparr>bsp_in32 = \<lambda>a d. (0, d), bsp_out32 = \<lambda>a v d. d, bsp_in8 = \<lambda>a d. (0, d), bsp_out8 = \<lambda>a v d. d,
     bsp_printf = \<lambda>f args d. d, env_validate = \<lambda>s. True,
     env_search = \<lambda>s q. case map_of pool_fields (s, q) of None \<Rightarrow> JSONNotFound | Some r \<Rightarrow> r,
     env_send = \<lambda>s d. (int (length s), d),
     env_recv = \<lambda>n d. (if d < 3 then (2, [0x31 + of_nat d, 0x0A]) else (0, []), Suc d), env_ewouldblock = 11, env_ticks = \<lambda>d. (0, d),
     env_settings = \<lambda>d. ((pool_settings, 0), d), env_network_up = \<lambda>d. True, env_generation = \<lambda>d. 0,
     env_gethostbyname = \<lambda>s d. (1, d), env_socket = \<lambda>d. (True, d), env_setsockopt = \<lambda>s n d. d, env_connect = \<lambda>a p d. (0, d),
     env_close = \<lambda>d. d, env_delay = \<lambda>n d. d, env_event = \<lambda>s d. d, env_detail = \<lambda>e d. d, env_job = \<lambda>s d. (1, d), env_mining = \<lambda>b d. d\<rparr>"

lemma hex_field_text: "env_search E s q = JSONSuccess (hex_text b) JSONString \<Longrightarrow> hex_field E s q b"
  using hex_text_valid [of b] by (auto simp: hex_field_def hex_value_text)

lemma pool_hex:
  "env_search pool_env [0x33] (ascii ''params[1]'') = JSONSuccess (hex_text (wm_prev pool_work)) JSONString"
  "env_search pool_env [0x33] (ascii ''params[2]'') = JSONSuccess (hex_text (wm_coin1 pool_work)) JSONString"
  "env_search pool_env [0x33] (ascii ''params[3]'') = JSONSuccess (hex_text (wm_coin2 pool_work)) JSONString"
  "env_search pool_env [0x33] (ascii ''params[5]'') = JSONSuccess (hex_text (wm_version pool_work)) JSONString"
  "env_search pool_env [0x33] (ascii ''params[6]'') = JSONSuccess (hex_text (wm_bits pool_work)) JSONString"
  "env_search pool_env [0x33] (branch_query 0) = JSONSuccess (hex_text (replicate 32 3)) JSONString"
  "env_search pool_env [0x33] (branch_query 1) = JSONNotFound"
  "env_search pool_env [0x33] (ascii ''params[4]'') = JSONSuccess [] JSONArray"
  "env_search pool_env [0x33] (ascii ''params[8]'') = JSONSuccess (ascii ''true'') JSONTrue"
  by (simp_all add: pool_env_def pool_fields_def branch_query_def dec_text.simps)

lemma pool_text:
  "text_field pool_env [0x33] ''method'' (ascii ''mining.notify'')" "text_field pool_env [0x33] ''params[0]'' (wm_id pool_work)"
  "text_field pool_env [0x33] ''params[7]'' (wm_time pool_work)"
  by (simp_all add: text_field_def pool_env_def pool_fields_def pool_work_def printable_def branch_query_def dec_text.simps)

lemma pool_notify: "notify_message pool_env [0x33] pool_work"
proof -
  have "env_validate pool_env [0x33]" by (simp add: pool_env_def)
  moreover have "wm_branches pool_work = [replicate 32 3]" "length (wm_prev pool_work) = 32" "length (wm_coin1 pool_work) \<le> 4096"
    "length (wm_coin2 pool_work) \<le> 4096" "length (wm_version pool_work) = 4" "length (wm_bits pool_work) = 4" "length (wm_time pool_work) = 8"
    "wm_id pool_work \<noteq> []" "length (wm_id pool_work) < 128" "hex_valid (wm_time pool_work)"
    by (simp_all add: pool_work_def hex_digit_def)
  ultimately show ?thesis
    unfolding notify_message_def using pool_text pool_hex pool_hex(1-6) [THEN hex_field_text] by (simp del: ascii_Cons)
qed

section \<open>Properties\<close>

text \<open>
  C7. A well-formed \<open>mining.notify\<close> message is accepted exactly in a subscribed session that is not authorized with its extranonces used
  up. Then the stored job is the message: identifier,
  previous hash, both parts of the coinbase, the branches, version, bits and time, with the difficulty in force. Mining runs
  afterwards exactly when the session is authorized, and then on the consensus header made of the fields of the
  message, the extranonces and the Merkle root of the coinbase along the branches, under the extranonce that shares will quote.
  A message that is refused leaves the miner stopped, and one before the subscription changes nothing.
\<close>

theorem notify_exact:
  assumes msg: "notify_message E s w" and inv: "session_inv st"
  shows "\<exists>rc st'. handle_line E s st = (rc, st') \<and>
    (rc = 0 \<longleftrightarrow> ss_subscribed st \<and> \<not> (ss_authorized st \<and> ss_extra_exhausted st)) \<and>
    (rc = 0 \<longrightarrow> ss_have_job st' \<and> message_job w (ss_pending_target st) (ss_job st') \<and> ss_running st' = ss_authorized st \<and>
      (ss_authorized st \<longrightarrow> cstr (ss_extra2_hex st') = hex_text (extranonce2 st) \<and> ss_range_start st' = 0 \<and>
         ss_header st' = header_spec (wm_version w) (wm_prev w)
           (merkle_root (wm_coin1 w @ take (ss_extra1_size st) (ss_extra1 st) @ extranonce2 st @ wm_coin2 w) (wm_branches w))
           (hex_value (wm_time w)) (wm_bits w))) \<and>
    (rc \<noteq> 0 \<longrightarrow> rc = -1 \<and> \<not> ss_running st' \<and> (\<not> ss_subscribed st \<longrightarrow> st' = st))"
proof -
  consider "\<not> ss_subscribed st" | "ss_subscribed st" "ss_authorized st \<and> ss_extra_exhausted st"
    | "ss_subscribed st" "\<not> (ss_authorized st \<and> ss_extra_exhausted st)" by blast
  then show ?thesis
  proof cases
    case 1
    then have "\<not> ss_running st" using inv by (auto simp: session_inv_def)
    then show ?thesis using notify_refused(1) [OF assms 1] 1 by simp
  next
    case 2
    then show ?thesis using notify_refused(2) [OF assms 2] by auto
  next
    case 3
    from notify_line [OF assms 3] obtain st' where st': "handle_line E s st = (0, st')" "ss_have_job st'"
      "message_job w (ss_pending_target st) (ss_job st')" "ss_running st' = ss_authorized st"
      "ss_authorized st \<longrightarrow> cstr (ss_extra2_hex st') = hex_text (extranonce2 st) \<and> ss_range_start st' = 0 \<and>
         ss_header st' = header_spec (wm_version w) (wm_prev w)
           (merkle_root (wm_coin1 w @ take (ss_extra1_size st) (ss_extra1 st) @ extranonce2 st @ wm_coin2 w) (wm_branches w))
           (hex_value (wm_time w)) (wm_bits w)" by blast
    show ?thesis by (intro exI [of _ 0] exI [of _ st']) (use st' 3 in simp)
  qed
qed

definition pool_session :: "nat session" where
  "pool_session = (stratum_init 0)\<lparr>ss_subscribed := True, ss_authorized := True, ss_extra1_size := 1, ss_extra2_size := 2, ss_next_id := 4\<rparr>"

lemma pool_session_inv: "session_inv pool_session"
  by (simp add: pool_session_def session_inv_def session_wf_def job_wf_def settings_wf_def stratum_init_def ids_ok_def list_all_iff)

theorem notify_exact_witness:
  "\<exists>st'. handle_line pool_env [0x33] pool_session = (0, st') \<and> ss_running st' \<and> cstr (job_id (ss_job st')) = ascii ''j1'' \<and>
     cstr (ss_extra2_hex st') = ascii ''0000''"
proof -
  have "ss_subscribed pool_session" "\<not> ss_extra_exhausted pool_session" "ss_authorized pool_session" "extranonce2 pool_session = [0, 0]"
    by (simp_all add: pool_session_def stratum_init_def numeral_2_eq_2)
  moreover have "hex_text [0, 0] = ascii ''0000''" by (simp add: hex_text_def hex_chars_def)
  moreover have "wm_id pool_work = ascii ''j1''" by (simp add: pool_work_def)
  moreover obtain rc st' where "handle_line pool_env [0x33] pool_session = (rc, st')"
    "rc = 0 \<longleftrightarrow> ss_subscribed pool_session \<and> \<not> (ss_authorized pool_session \<and> ss_extra_exhausted pool_session)"
    "rc = 0 \<Longrightarrow> message_job pool_work (ss_pending_target pool_session) (ss_job st') \<and> ss_running st' = ss_authorized pool_session \<and>
       (ss_authorized pool_session \<longrightarrow> cstr (ss_extra2_hex st') = hex_text (extranonce2 pool_session))"
    using notify_exact [OF pool_notify pool_session_inv] by blast
  ultimately show ?thesis by (simp add: message_job_def del: ascii_Cons)
qed

end
