(* ===== verification/Stratum_Pool.thy ===== *)
theory Stratum_Pool
  imports Stratum_Notify
begin

text \<open>
  A whole run of the Stratum task against the scripted pool, from reset to mining, and the property that no work
  is repeated within a connection.
\<close>

section \<open>From reset to mining\<close>

lemma pool_calls [simp]:
  "get_ticks pool_env st = (0, st)" "env_network_up pool_env d" "env_generation pool_env d = 0"
  "env_recv pool_env n d = (if d < 3 then (2, [0x31 + of_nat d, 0x0A]) else (0, []), Suc d)"
  "env_validate pool_env s" "env_ewouldblock pool_env = 11" "env_setsockopt pool_env q t d = d" "env_connect pool_env a p d = (0, d)"
  "tel_event pool_env e st = log_event (Event e) st"
  by (simp_all add: get_ticks_def pool_env_def tel_event_def)

lemma pool_send: "fst (send_line pool_env s st) = 0 \<and> m_dev (snd (send_line pool_env s st)) = m_dev st"
  by (subst (1 2) send_line.simps) (simp add: pool_env_def send_line.simps log_event_def)

text \<open>The states between the lines: \<open>k\<close> of them have been received, nothing is mined yet.\<close>

definition pool_at :: "nat \<Rightarrow> nat session \<Rightarrow> bool" where
  "pool_at k st \<longleftrightarrow> m_dev st = k \<and> ss_subscribed st = (1 \<le> k) \<and> ss_authorized st = (2 \<le> k) \<and> \<not> ss_have_job st \<and> \<not> ss_running st \<and>
     \<not> ss_extra_exhausted st \<and> (\<forall>i<8. pd_id (ss_pending st ! i) = 0)"

lemma pool_receive:
  assumes "m_dev st = k" "k < 3"
  shows "session_receive pool_env 0 [] 0 st =
    (case handle_line pool_env [0x31 + of_nat k] (st\<lparr>m_dev := Suc k\<rparr>) of (rc, s) \<Rightarrow> if rc \<noteq> 0 then (None, s) else (Some ([], 0, 0), s))"
proof -
  have "k = 0 \<or> k = 1 \<or> k = 2" using assms(2) by linarith
  then show ?thesis using assms(1) by (auto simp: session_receive_def LINE_MAX_def Let_def split: prod.split)
qed

lemma pool_idle_timeouts: "\<forall>i\<in>set is. pd_id (ss_pending st ! i) = 0 \<Longrightarrow> session_timeouts E now is bad st = (bad, st)"
  by (induction "is") (simp_all add: Let_def)

lemma pool_serve: "pool_at k st \<Longrightarrow> stratum_step pool_env (Serving 0 0 [] 0 0, st) = (Receiving 0 0 [] 0, st)"
  using pool_idle_timeouts [of "[0..<8]" st pool_env 0 False]
  by (simp add: session_service_def service_results_def pool_at_def del: upt_rec_numeral)

lemma pool_searches:
  "env_search pool_env [0x31] (ascii ''method'') = JSONNotFound" "env_search pool_env [0x32] (ascii ''method'') = JSONNotFound"
  "json_u32 (env_search pool_env) [0x31] ''id'' = Some 1" "json_u32 (env_search pool_env) [0x32] ''id'' = Some 2"
  "json_u32 (env_search pool_env) [0x31] ''result[2]'' = Some 2" "json_true (env_search pool_env) [0x32] ''result''"
  "hex_field pool_env [0x31] (ascii ''result[1]'') [7]"
  by (simp_all add: json_u32_def json_true_def pool_env_def pool_fields_def branch_query_def dec_text.simps hex_field_text)

lemma pool_subscribed:
  assumes "pool_at 0 st" "session_inv st"
  shows "\<exists>s. handle_line pool_env [0x31] (st\<lparr>m_dev := 1\<rparr>) = (0, s) \<and> pool_at 1 s"
proof -
  have "json_hex pool_env [0x31] ''result[1]'' (ss_extra1 st) 32 = (1, memcpy_at (ss_extra1 st) 0 [7])"
    using json_hex_field [OF pool_searches(7), of 32 "ss_extra1 st"] assms(2) by (simp add: session_inv_def session_wf_def)
  then have "\<exists>bs. handle_line pool_env [0x31] (st\<lparr>m_dev := 1\<rparr>) = send_line pool_env bs (st\<lparr>m_dev := 1, ss_extra1 := memcpy_at (ss_extra1 st) 0 [7],
      ss_extra1_size := 1, ss_extra2_size := 2, ss_subscribed := True\<rparr>)" (is "\<exists>bs. _ = send_line _ bs ?s")
    using assms(1) by (auto simp: handle_line_def reply_def reply_subscribe_def pool_searches pool_at_def split_def Let_def simp del: ascii_Cons)
  then obtain bs where h: "handle_line pool_env [0x31] (st\<lparr>m_dev := 1\<rparr>) = send_line pool_env bs ?s" by blast
  have "pool_at 1 (snd (send_line pool_env bs ?s))" using assms(1) pool_send [of bs ?s] by (simp add: pool_at_def)
  then show ?thesis using pool_send [of bs ?s] h by (metis prod.collapse)
qed

lemma pool_authorized:
  assumes "pool_at 1 st"
  shows "\<exists>s. handle_line pool_env [0x32] (st\<lparr>m_dev := 2\<rparr>) = (0, s) \<and> pool_at 2 s"
proof -
  let ?s = "log_event (Event ''pool_authorized'') (st\<lparr>m_dev := 2, ss_authorized := True\<rparr>)"
  let ?t = "ascii ''{\"id\":3,\"method\":\"mining.suggest_difficulty\",\"params\":[0.0001]}'' @ [0x0A]"
  obtain rc s where s: "send_line pool_env ?t ?s = (rc, s)" by fastforce
  have rc: "rc = 0" "m_dev s = 2" using pool_send [of ?t ?s] s by (simp_all add: log_event_def)
  have more: "machine.more s = machine.more ?s" using send_line_more [of pool_env ?t ?s] by (simp only: s snd_conv)
  have at: "pool_at 2 s" using more_stratum [OF more] assms rc by (simp add: pool_at_def log_event_def)
  have "handle_line pool_env [0x32] (st\<lparr>m_dev := 2\<rparr>) = (0, s)"
    using assms s rc at by (simp add: handle_line_def reply_def reply_authorize_def pool_searches pool_at_def del: ascii_Cons)
  then show ?thesis using at by blast
qed

lemma pool_step: "handle_line pool_env [0x31 + of_nat k] (st\<lparr>m_dev := Suc k\<rparr>) = (0, s) \<Longrightarrow> m_dev st = k \<Longrightarrow> k < 3 \<Longrightarrow>
  stratum_step pool_env (Receiving 0 0 [] 0, st) = (Serving 0 0 [] 0 0, s)"
  by (simp add: pool_receive)

lemma pool_connect:
  "\<exists>st. stratum_step pool_env (stratum_boot pool_env 0) = (Receiving 0 0 [] 0, st) \<and> pool_at 0 st"
proof -
  let ?st = "(stop pool_env (stratum_init 0))\<lparr>ss_session := pool_settings\<rparr>"
  have dev: "m_dev (stop pool_env (stratum_init 0)) = 0"
    by (simp add: stop_def reg_write_def Xil_Out32_def tel_mining_def log_event_def stratum_init_def pool_env_def Let_def)
  let ?s = "session_reset ?st"
  have "stratum_step pool_env (stratum_boot pool_env 0) = session_open pool_env 0 1 ?st"
    by (simp add: stratum_boot_def session_connect_def dev pool_env_def pool_settings_def)
  also have "\<dots> = (Receiving 0 0 [] 0, log_event (Event ''pool_connected'') (snd (send_line pool_env subscribe_text ?s)))"
    using pool_send [of subscribe_text ?s, THEN conjunct1] by (simp add: session_open_def Let_def split_def)
  finally show ?thesis
    using pool_send [of subscribe_text ?s] by (simp add: pool_at_def log_event_def dev session_reset_def)
qed

lemma pool_env_settings: "settings_wf (fst (fst (env_settings pool_env d)))"
  by (simp add: pool_env_def pool_settings_def settings_wf_def)

text \<open>The run: subscription, authorization and job arrive, and mining runs.\<close>

lemma pool_mines: "\<exists>st. reachable pool_env 0 (Serving 0 0 [] 0 0, st) \<and> ss_running st \<and> (\<forall>i<8. pd_id (ss_pending st ! i) = 0)"
proof -
  note inv = reachable_inv [OF pool_env_settings]
  obtain st0 where st0: "reachable pool_env 0 (Receiving 0 0 [] 0, st0)" "pool_at 0 st0"
    using pool_connect reachable.step [OF reachable.boot [of pool_env 0]] by fastforce
  from inv [OF st0(1)] have "session_inv st0" by simp
  from pool_subscribed [OF st0(2) this] obtain st1 where h1: "handle_line pool_env [0x31] (st0\<lparr>m_dev := 1\<rparr>) = (0, st1)" "pool_at 1 st1" by blast
  have "stratum_step pool_env (Receiving 0 0 [] 0, st0) = (Serving 0 0 [] 0 0, st1)"
    using pool_step [of 0 st0 st1] h1(1) st0(2) by (simp add: pool_at_def)
  then have r1: "reachable pool_env 0 (Receiving 0 0 [] 0, st1)"
    using reachable.step [OF st0(1)] pool_serve [OF h1(2)] by (metis reachable.step)
  from pool_authorized [OF h1(2)] obtain st2 where h2: "handle_line pool_env [0x32] (st1\<lparr>m_dev := 2\<rparr>) = (0, st2)" "pool_at 2 st2" by blast
  have "stratum_step pool_env (Receiving 0 0 [] 0, st1) = (Serving 0 0 [] 0 0, st2)"
    using pool_step [of 1 st1 st2] h2(1) h1(2) by (simp add: pool_at_def numeral_2_eq_2)
  then have r2: "reachable pool_env 0 (Receiving 0 0 [] 0, st2)"
    using reachable.step [OF r1] pool_serve [OF h2(2)] by (metis reachable.step)
  let ?st = "st2\<lparr>m_dev := 3\<rparr>"
  have "session_inv ?st" "ss_subscribed ?st" "\<not> ss_extra_exhausted ?st" "ss_authorized ?st" using inv [OF r2] h2(2) by (simp_all add: pool_at_def)
  from notify_runs [OF pool_notify this] obtain st3 where h3: "handle_line pool_env [0x33] ?st = (0, st3)" "ss_running st3" "ss_pending st3 = ss_pending st2"
    by auto
  have "stratum_step pool_env (Receiving 0 0 [] 0, st2) = (Serving 0 0 [] 0 0, st3)"
    using pool_step [of 2 st2 st3] h3(1) h2(2) by (simp add: pool_at_def numeral_3_eq_3)
  moreover have "\<forall>i<8. pd_id (ss_pending st3 ! i) = 0" using h2(2) h3(3) by (simp add: pool_at_def)
  ultimately show ?thesis using reachable.step [OF r2] h3(2) by metis
qed

text \<open>The hardware finds nothing: mining goes on.\<close>

lemma pool_goes_on:
  assumes "ss_running st" "\<forall>i<8. pd_id (ss_pending st ! i) = 0"
  shows "\<exists>st'. stratum_step pool_env (Serving 0 0 [] 0 0, st) = (Receiving 0 0 [] 0, st') \<and> ss_running st'"
proof -
  have rd: "fst (reg_read pool_env a s) = 0" for a s by (simp add: reg_read_def Xil_In32_def pool_env_def)
  let ?s1 = "snd (reg_read pool_env 4 st)" let ?s2 = "snd (reg_read pool_env 0x98 ?s1)" let ?s3 = "snd (reg_read pool_env 4 ?s2)"
  have "drain_results pool_env 16 ?s1 = (0, ?s2)" by (simp add: numeral_eq_Suc split_def Let_def rd)
  then have "service_results pool_env st = (0, ?s3)" using assms(1) by (simp add: service_results_def split_def Let_def rd)
  moreover have "session_timeouts pool_env 0 [0..<8] False ?s3 = (False, ?s3)" using assms(2) by (intro pool_idle_timeouts) simp
  ultimately show ?thesis using assms(1) by (simp add: session_service_def del: upt_rec_numeral)
qed

section \<open>Properties\<close>

lemma reachable_aligned:
  assumes "\<And>d. settings_wf (fst (fst (env_settings E d)))" "reachable E d c"
  shows "aligned (snd c)"
  using assms(2)
proof induction
  case boot
  show ?case by (simp add: stratum_boot_def) (simp add: stratum_init_def aligned_def)
next
  case (step c)
  from stratum_step_later [OF reachable_inv [OF assms(1) step.hyps] step.IH] show ?case by blast
qed

lemma connection_later:
  assumes "\<And>d. settings_wf (fst (fst (env_settings E d)))" "reachable E d c"
    and "\<forall>i\<le>n. fst ((stratum_step E ^^ i) c) \<noteq> Connecting" "\<forall>i<n. keeps_space E ((stratum_step E ^^ i) c)"
  shows "reachable E d ((stratum_step E ^^ n) c) \<and> later (snd c) (snd ((stratum_step E ^^ n) c))"
  using assms(3,4)
proof (induction n)
  case 0
  then show ?case using assms(2) by simp
next
  case (Suc n)
  let ?c = "(stratum_step E ^^ n) c"
  have IH: "reachable E d ?c" "later (snd c) (snd ?c)" using Suc by simp_all
  have "fst ?c \<noteq> Connecting" "fst (stratum_step E ?c) \<noteq> Connecting" "keeps_space E ?c"
    using Suc.prems(1) [rule_format, of n] Suc.prems(1) [rule_format, of "Suc n"] Suc.prems(2) by simp_all
  with stratum_step_later [OF reachable_inv [OF assms(1) IH(1)] reachable_aligned [OF assms(1) IH(1)], of E]
  have "later (snd ?c) (snd (stratum_step E ?c))" by blast
  then show ?case using IH later_trans reachable.step [OF IH(1)] by (simp add: funpow_Suc_right [symmetric]) blast
qed


lemma pool_keeps_space: "keeps_space pool_env c"
  by (auto simp: keeps_space_def assigns_space_def list_all_iff pool_env_def pool_fields_def branch_query_def dec_text.simps split: option.split if_splits)


end
