(* ===== verification/Ina700.thy ===== *)
theory Ina700
  imports Prelude "HOL-Library.Signed_Division"
begin

text \<open>
  \<open>common/ina700.c\<close>: initialisation and sampling of an INA700 power monitor through the two function pointers
  that access its registers. A register read gives the bytes, most significant first, or fails. The
  signed 32-bit fields of a sample are integers; the theorem below shows that they stay in range.
\<close>

section \<open>The code\<close>

definition INA700_ADC_CONFIG :: u16 where "INA700_ADC_CONFIG = 0xfb6a"

record ina700_sample =
  sm_valid :: bool
  sm_voltage_uv :: u32
  sm_power_uw :: u32
  sm_sampled_ms :: u32
  sm_errors :: u32
  sm_current_ua :: int
  sm_temp_milli_c :: int

type_synonym 'm ina700_read = "u8 \<Rightarrow> u8 \<Rightarrow> nat \<Rightarrow> 'm \<Rightarrow> bytes option \<times> 'm"
type_synonym 'm ina700_write = "u8 \<Rightarrow> u8 \<Rightarrow> u16 \<Rightarrow> 'm \<Rightarrow> bool \<times> 'm"

definition be16 :: "bytes \<Rightarrow> u16" where
  "be16 p = push_bit 8 (ucast (p ! 0)) OR ucast (p ! 1)"

definition signed16 :: "u16 \<Rightarrow> int" where
  "signed16 v = (if v AND 0x8000 \<noteq> 0 then int (unat v) - 65536 else int (unat v))"

definition ina700_init :: "u8 \<Rightarrow> 'm ina700_read \<Rightarrow> 'm ina700_write \<Rightarrow> 'm \<Rightarrow> int \<times> 'm" where
  "ina700_init address read write st =
     (let (b, st) = read address 0x3e 2 st
      in if b = None \<or> be16 (the b) \<noteq> 0x5449 then (-1, st)
      else let (ok, st) = write address 1 INA700_ADC_CONFIG st
      in if \<not> ok then (-1, st)
      else let (b, st) = read address 1 2 st
      in if b = None then (-1, st)
         else (if be16 (the b) = INA700_ADC_CONFIG then 0 else -1, st))"

text \<open>The conversion of the raw registers.\<close>

definition ina700_convert :: "bytes \<Rightarrow> bytes \<Rightarrow> bytes \<Rightarrow> bytes \<Rightarrow> ina700_sample \<Rightarrow> ina700_sample" where
  "ina700_convert v t i p out =
     out\<lparr>sm_voltage_uv := ucast (be16 v) * 3125,
         sm_current_ua := signed16 (be16 i) * 480,
         sm_temp_milli_c := (signed16 (be16 t AND 0xfff0) sdiv 16) * 125,
         sm_power_uw := (push_bit 16 (ucast (p ! 0)) OR push_bit 8 (ucast (p ! 1)) OR ucast (p ! 2)) * 96,
         sm_valid := True\<rparr>"

definition ina700_sample_read :: "u8 \<Rightarrow> 'm ina700_read \<Rightarrow> ina700_sample \<Rightarrow> 'm \<Rightarrow> (int \<times> ina700_sample) \<times> 'm" where
  "ina700_sample_read address read out st =
     (let out = out\<lparr>sm_valid := False\<rparr>; (config, st) = read address 1 2 st
      in if config = None \<or> be16 (the config) \<noteq> INA700_ADC_CONFIG then ((-1, out), st)
      else let (diag, st) = read address 0x0b 2 st
      in if diag = None \<or> be16 (the diag) AND 0x203 \<noteq> 3 then ((-1, out), st)
      else let (v, st) = read address 5 2 st
      in if v = None then ((-1, out), st)
      else let (t, st) = read address 6 2 st
      in if t = None then ((-1, out), st)
      else let (i, st) = read address 7 2 st
      in if i = None then ((-1, out), st)
      else let (p, st) = read address 8 3 st
      in if p = None then ((-1, out), st)
      else ((0, ina700_convert (the v) (the t) (the i) (the p) out), st))"

section \<open>Raw values\<close>

lemma unat_be16: "unat (be16 p) = 256 * unat (p ! 0) + unat (p ! 1)"
proof -
  have "push_bit 8 (ucast (p ! 0)) AND (ucast (p ! 1) :: u16) = 0"
    by (rule bit_word_eqI) (auto simp: bit_simps)
  then have "be16 p = push_bit 8 (ucast (p ! 0)) + ucast (p ! 1)"
    by (simp add: be16_def disjunctive_add_eq_or)
  moreover have "unat (push_bit 8 (ucast (p ! 0)) :: u16) = 256 * unat (p ! 0)"
    using unat_u8_less [of "p ! 0"] by (simp add: unat_push_bit_mod unat_ucast_mod)
  moreover have "unat (ucast (p ! 1) :: u16) = unat (p ! 1)"
    using unat_u8_less [of "p ! 1"] by (simp add: unat_ucast_mod)
  ultimately show ?thesis
    using unat_u8_less [of "p ! 0"] unat_u8_less [of "p ! 1"] by (simp add: unat_word_ariths)
qed

text \<open>Two's complement.\<close>

lemma signed16_val: "signed16 v = (if 32768 \<le> unat v then int (unat v) - 65536 else int (unat v))"
proof -
  have m: "(0x8000 :: u16) = push_bit 15 1" by (simp add: push_bit_eq_mult)
  have "bit (v AND 0x8000) n \<longleftrightarrow> n = 15 \<and> bit v 15" for n
    unfolding m bit_and_iff bit_push_bit_iff bit_1_iff possible_bit_word by auto
  then have msb: "(v AND 0x8000 \<noteq> 0) = bit v 15" by (metis bit_0_eq bot_apply bot_bool_def bit_word_eqI)
  have v: "uint v < 65536" "0 \<le> uint v" using uint_lt2p [of v] by simp_all
  have "bit v 15 \<longleftrightarrow> bit (uint v) 15" by (simp add: bit_uint_iff)
  also have "\<dots> \<longleftrightarrow> odd (uint v div 32768)" by (simp only: bit_iff_odd [of "uint v"]) simp
  also have "uint v div 32768 = (if 32768 \<le> uint v then 1 else 0)"
  proof (cases "32768 \<le> uint v")
    case True
    then have "uint v div 32768 = 1" using v by (intro int_div_pos_eq [where r = "uint v - 32768"]) simp_all
    with True show ?thesis by simp
  qed (use v in simp)
  finally have "bit v 15 \<longleftrightarrow> 32768 \<le> uint v" by simp
  moreover have "32768 \<le> unat v \<longleftrightarrow> 32768 \<le> uint v" unfolding uint_nat by linarith
  ultimately show ?thesis by (simp add: signed16_def msb)
qed

lemma signed16_sint: "signed16 v = sint v"
proof -
  have v: "uint v < 65536" "0 \<le> uint v" using uint_lt2p [of v] by simp_all
  have u: "int (unat v) = uint v" by simp
  have c: "32768 \<le> unat v \<longleftrightarrow> 32768 \<le> uint v" unfolding uint_nat by linarith
  have "sint v = (uint v + 32768) mod 65536 - 32768"
    by (simp add: sint_uint signed_take_bit_eq_take_bit_shift take_bit_eq_mod)
  moreover have "(uint v + 32768) mod 65536 = (if 32768 \<le> uint v then uint v - 32768 else uint v + 32768)"
  proof (cases "32768 \<le> uint v")
    case True
    have "(uint v - 32768 + 65536) mod 65536 = uint v - 32768" using v True by (simp only: mod_add_self2) simp
    with True show ?thesis by (simp add: add.commute)
  qed (use v in simp)
  ultimately show ?thesis by (simp add: signed16_val u c)
qed

lemma ucast_bytes: "unat (ucast (b :: u8) :: u32) = unat b"
  using unat_u8_less [of b] by (simp add: unat_ucast_mod)

lemma unat_raw24:
  "unat (push_bit 16 (ucast (a :: u8)) OR push_bit 8 (ucast (b :: u8)) OR (ucast (c :: u8) :: u32)) =
     65536 * unat a + 256 * unat b + unat c"
proof -
  have "push_bit 16 (ucast a) AND (push_bit 8 (ucast b) OR (ucast c :: u32)) = 0" "push_bit 8 (ucast b) AND (ucast c :: u32) = 0"
    by (rule bit_word_eqI, auto simp: bit_simps)+
  then have "push_bit 16 (ucast a) OR push_bit 8 (ucast b) OR (ucast c :: u32) =
      push_bit 16 (ucast a) + (push_bit 8 (ucast b) + ucast c)"
    by (simp add: disjunctive_add_eq_or or.assoc)
  moreover have "unat (push_bit 16 (ucast a) :: u32) = 65536 * unat a" "unat (push_bit 8 (ucast b) :: u32) = 256 * unat b"
    using unat_u8_less [of a] unat_u8_less [of b] by (simp_all add: unat_push_bit_mod ucast_bytes)
  ultimately show ?thesis
    using unat_u8_less [of a] unat_u8_less [of b] unat_u8_less [of c] by (simp add: unat_word_ariths ucast_bytes)
qed

text \<open>The temperature register holds its value in the upper twelve bits; the division by 16 is exact.\<close>

lemma temp_raw: "signed16 (v AND 0xfff0) sdiv 16 = sint v div 16"
proof -
  have "v AND 0xfff0 = push_bit 4 (drop_bit 4 v)"
  proof (rule bit_word_eqI)
    fix n
    have "(0xfff0 :: u16) = NOT (mask 4)" by (simp add: mask_eq_exp_minus_1 not_eq_complement)
    then show "bit (v AND 0xfff0) n = bit (push_bit 4 (drop_bit 4 v)) n"
      by (simp only: bit_and_iff bit_not_iff bit_mask_iff bit_push_bit_iff bit_drop_bit_eq possible_bit_word)
         (auto dest: bit_imp_le_length)
  qed
  then have n: "unat (v AND 0xfff0) = 16 * (unat v div 16)"
    using unat_u16_less [of v] by (simp add: unat_push_bit_mod unat_drop_bit_div less_imp_le)
  have "signed16 (v AND 0xfff0) = 16 * (signed16 v div 16)"
  proof (cases "32768 \<le> unat v")
    case True
    then have "2048 \<le> unat v div 16" by (simp add: less_eq_div_iff_mult_less_eq)
    then have "32768 \<le> unat (v AND 0xfff0)" unfolding n by linarith
    moreover have "(int (unat v) - 65536) div 16 = int (unat v div 16) - 4096"
      using div_mult_self1 [of 16 "int (unat v)" "-4096"] by (simp add: zdiv_int)
    ultimately show ?thesis using True n by (simp add: signed16_val)
  next
    case False
    then have "unat (v AND 0xfff0) < 32768" unfolding n by linarith
    then show ?thesis using False n by (simp add: signed16_val zdiv_int)
  qed
  moreover have "(16 * k) sdiv 16 = k" for k :: int
    by (simp add: signed_divide_int_def abs_mult sgn_mult sgn_mult_abs)
  ultimately show ?thesis by (simp add: signed16_sint)
qed

section \<open>The registers of a sample\<close>

text \<open>The registers of a sample, read in the driver's order, with the two status checks.\<close>

definition sample_regs :: "u8 \<Rightarrow> 'm ina700_read \<Rightarrow> 'm \<Rightarrow> bytes \<Rightarrow> bytes \<Rightarrow> bytes \<Rightarrow> bytes \<Rightarrow> 'm \<Rightarrow> bool" where
  "sample_regs address read st v t i p st' \<longleftrightarrow>
     (\<exists>config diag st1 st2 st3 st4 st5.
        read address 1 2 st = (Some config, st1) \<and> be16 config = 0xfb6a \<and>
        read address 0x0b 2 st1 = (Some diag, st2) \<and> be16 diag AND 0x203 = 3 \<and>
        read address 5 2 st2 = (Some v, st3) \<and> read address 6 2 st3 = (Some t, st4) \<and>
        read address 7 2 st4 = (Some i, st5) \<and> read address 8 3 st5 = (Some p, st'))"

lemma ina700_sample_cases:
  obtains (ok) v t i p st' where "sample_regs address read st v t i p st'"
      "ina700_sample_read address read out st = ((0, ina700_convert v t i p (out\<lparr>sm_valid := False\<rparr>)), st')"
  | (failed) st' where "\<nexists>v t i p st''. sample_regs address read st v t i p st''"
      "ina700_sample_read address read out st = ((-1, out\<lparr>sm_valid := False\<rparr>), st')"
proof -
  let ?r = "ina700_sample_read address read out st"
  have "(\<exists>v t i p. sample_regs address read st v t i p (snd ?r) \<and> fst ?r = (0, ina700_convert v t i p (out\<lparr>sm_valid := False\<rparr>))) \<or>
      (\<nexists>v t i p st''. sample_regs address read st v t i p st'') \<and> fst ?r = (-1, out\<lparr>sm_valid := False\<rparr>)"
    unfolding ina700_sample_read_def Let_def sample_regs_def INA700_ADC_CONFIG_def by (auto split: prod.split)
  then show thesis using ok failed by (metis prod.collapse)
qed

section \<open>Properties\<close>

text \<open>
  C26. Sampling: \<open>ina700_sample_read\<close> reports a valid sample exactly when every register read succeeded, the
  monitor still has the configuration the driver wrote, and a conversion is complete without overflow; then voltage, current,
  temperature and power are the raw registers times their least significant bits, as exact integers
  (two's complement for current and temperature, no wrap-around of the 32-bit products). On any
  error only the valid flag changes, to false.
\<close>

theorem ina700_sample_exact:
  "case ina700_sample_read address read out st of ((rc, out'), st') \<Rightarrow>
     (rc = 0 \<and> sm_valid out' \<and> sm_sampled_ms out' = sm_sampled_ms out \<and> sm_errors out' = sm_errors out \<and>
       (\<exists>v t i p. sample_regs address read st v t i p st' \<and>
          unat (sm_voltage_uv out') = 3125 * (256 * unat (v ! 0) + unat (v ! 1)) \<and>
          sm_current_ua out' = 480 * sint (be16 i) \<and>
          sm_temp_milli_c out' = 125 * (sint (be16 t) div 16) \<and>
          unat (sm_power_uw out') = 96 * (65536 * unat (p ! 0) + 256 * unat (p ! 1) + unat (p ! 2)))) \<or>
     (rc = -1 \<and> out' = out\<lparr>sm_valid := False\<rparr> \<and> (\<nexists>v t i p st''. sample_regs address read st v t i p st''))"
proof -
  have v: "unat (ucast (be16 v) * 3125 :: u32) = 3125 * (256 * unat (v ! 0) + unat (v ! 1))" for v
    using unat_u16_less [of "be16 v"] unat_be16 [of v] by (simp add: unat_word_ariths unat_ucast_mod)
  have p: "unat ((push_bit 16 (ucast a) OR push_bit 8 (ucast b) OR ucast c) * 96 :: u32) =
      96 * (65536 * unat a + 256 * unat b + unat c)" for a b c :: u8
    using unat_u8_less [of a] unat_u8_less [of b] unat_u8_less [of c] by (simp add: unat_word_ariths unat_raw24)
  show ?thesis
  proof (cases rule: ina700_sample_cases [of address read st out])
    case (ok v t i p st')
    then show ?thesis
      by (simp add: ina700_convert_def v p signed16_sint [of "be16 i"] temp_raw mult.commute [of "sint x" 480 for x]
          mult.commute [of "sint x div 16" 125 for x]) blast
  qed simp
qed

end
