(* ===== verification/Miner_Protocol.thy ===== *)
theory Miner_Protocol
  imports Stratum Ina700
begin

text \<open>
  \<open>common/miner_protocol.c\<close>: the configuration command, the configuration readback, the hash rate and the telemetry
  messages. A function that prints with \<open>snprintf\<close> is given by its text and the buffer operation of \<open>Cformat\<close>;
  a string argument is the contents of its array up to the first NUL.
\<close>

section \<open>State\<close>

record miner_stats =
  ts_job_id :: bytes
  ts_jobs :: u32
  ts_submitted :: u32
  ts_accepted :: u32
  ts_rejected :: u32
  ts_invalid :: u32
  ts_dropped :: u32
  ts_hashrate_hps :: u32
  ts_sample_ms :: u32
  ts_engines :: u32
  ts_hw_version :: u32
  ts_bootloader_version :: u32
  ts_hashes_total :: u64
  ts_connected :: bool
  ts_authorized :: bool
  ts_mining :: bool
  ts_hashrate_valid :: bool
  ts_power :: "ina700_sample list"

text \<open>Zero-initialised statistics.\<close>

definition ina700_sample_zero :: ina700_sample where
  "ina700_sample_zero = \<lparr>sm_valid = False, sm_voltage_uv = 0, sm_power_uw = 0, sm_sampled_ms = 0, sm_errors = 0,
     sm_current_ua = 0, sm_temp_milli_c = 0\<rparr>"

definition miner_stats_zero :: miner_stats where
  "miner_stats_zero = \<lparr>ts_job_id = replicate 128 0, ts_jobs = 0, ts_submitted = 0, ts_accepted = 0, ts_rejected = 0,
     ts_invalid = 0, ts_dropped = 0, ts_hashrate_hps = 0, ts_sample_ms = 0, ts_engines = 0, ts_hw_version = 0,
     ts_bootloader_version = 0, ts_hashes_total = 0, ts_connected = False, ts_authorized = False, ts_mining = False,
     ts_hashrate_valid = False, ts_power = replicate 2 ina700_sample_zero\<rparr>"

definition MINER_TELEMETRY_MAX :: nat where "MINER_TELEMETRY_MAX = 3072"
definition APPLICATION_VERSION :: bytes where "APPLICATION_VERSION = ascii ''1.1.0''"

section \<open>The configuration command\<close>

text \<open>The digit of a MAC address, and its six groups; the array may be partly written when the text is wrong.\<close>

definition mac_digit :: "u8 \<Rightarrow> int" where
  "mac_digit c =
     (if 0x30 \<le> c \<and> c \<le> 0x39 then uint c - 0x30
      else if 0x61 \<le> c \<and> c \<le> 0x66 then uint c - 0x61 + 10
      else if 0x41 \<le> c \<and> c \<le> 0x46 then uint c - 0x41 + 10
      else -1)"

fun parse_mac_loop :: "bytes \<Rightarrow> nat list \<Rightarrow> bytes \<Rightarrow> bool \<times> bytes" where
  "parse_mac_loop s [] mac = (True, mac)"
| "parse_mac_loop s (i # is) mac =
     (let v = mac_digit (s ! (3 * i))
      in if v < 0 then (False, mac)
      else let value = (of_int v :: u32); v = mac_digit (s ! (3 * i + 1))
      in if v < 0 then (False, mac)
      else let value = value * 16 + of_int v; mac = mac[i := ucast value]
      in if i < 5 \<and> s ! (3 * i + 2) \<noteq> 0x3A then (False, mac) else parse_mac_loop s is mac)"

definition parse_mac :: "bytes \<Rightarrow> bytes \<Rightarrow> bool \<times> bytes" where
  "parse_mac s mac = (if length (cstr s) \<noteq> 17 then (False, mac) else parse_mac_loop s [0..<6] mac)"

text \<open>Omission preserves the stored password; an explicit one, also the empty string, replaces it.\<close>

definition config_password :: "json_search \<Rightarrow> bytes \<Rightarrow> bytes \<Rightarrow> int \<times> bytes" where
  "config_password search line password =
     (case search line (ascii ''password'') of
        JSONNotFound \<Rightarrow> (0, password)
      | JSONOther \<Rightarrow> (-1, password)
      | JSONSuccess _ _ \<Rightarrow> json_string search line ''password'' password 64)"

text \<open>The error text, if any, and the settings built so far.\<close>

definition miner_config_parse ::
  "(bytes \<Rightarrow> bool) \<Rightarrow> json_search \<Rightarrow> bytes \<Rightarrow> miner_settings \<Rightarrow> miner_settings \<Rightarrow> string option \<times> miner_settings" where
  "miner_config_parse validate search line current nxt =
     (if \<not> validate line then (Some ''invalid JSON request'', nxt)
      else let (rc, command) = json_string search line ''command'' (replicate 24 0) 24
      in if rc \<noteq> 0 then (Some ''invalid JSON request'', nxt)
      else if cstr command \<noteq> ascii ''configure'' then (Some ''unsupported command'', nxt)
      else let nxt = current; (rc, mac) = json_string search line ''mac'' (replicate 18 0) 18
      in if rc \<noteq> 0 then (Some ''invalid fields'', nxt)
      else let (ok, m) = parse_mac mac (ms_mac nxt); nxt = nxt\<lparr>ms_mac := m\<rparr>
      in if \<not> ok then (Some ''invalid fields'', nxt)
      else let (rc, h) = json_string search line ''host'' (ms_host nxt) 96; nxt = nxt\<lparr>ms_host := h\<rparr>
      in if rc \<noteq> 0 then (Some ''invalid fields'', nxt)
      else let (rc, w) = json_string search line ''worker'' (ms_worker nxt) 128; nxt = nxt\<lparr>ms_worker := w\<rparr>
      in if rc \<noteq> 0 then (Some ''invalid fields'', nxt)
      else case json_u32 search line ''port'' of
        None \<Rightarrow> (Some ''invalid fields'', nxt)
      | Some port \<Rightarrow>
     (if 65535 < port then (Some ''invalid fields'', nxt)
      else let (rc, p) = config_password search line (ms_password nxt); nxt = nxt\<lparr>ms_password := p\<rparr>
      in if rc \<noteq> 0 then (Some ''invalid password'', nxt)
      else let nxt = nxt\<lparr>ms_port := ucast port\<rparr>
      in (if settings_valid nxt then None else Some ''invalid settings'', nxt)))"

section \<open>Texts\<close>

definition bool_text :: "bool \<Rightarrow> bytes" where
  "bool_text b = (if b then ascii ''true'' else ascii ''false'')"

definition mac_text :: "bytes \<Rightarrow> bytes" where
  "mac_text mac = hex2_text (mac ! 0) @ ascii '':'' @ hex2_text (mac ! 1) @ ascii '':'' @ hex2_text (mac ! 2) @ ascii '':''
     @ hex2_text (mac ! 3) @ ascii '':'' @ hex2_text (mac ! 4) @ ascii '':'' @ hex2_text (mac ! 5)"

definition config_text :: "miner_settings \<Rightarrow> bool \<Rightarrow> bytes \<Rightarrow> bytes" where
  "config_text s from_store active =
     ascii ''{\"ok\":true,\"stored\":'' @ bool_text from_store @ ascii '',\"mac\":\"'' @ mac_text (ms_mac s)
     @ ascii ''\",\"active_mac\":\"'' @ mac_text active @ ascii ''\",\"host\":\"'' @ cstr (ms_host s) @ ascii ''\",\"port\":''
     @ dec_text (unat (ms_port s)) @ ascii '',\"worker\":\"'' @ cstr (ms_worker s) @ ascii ''\",\"password_set\":''
     @ bool_text (ms_password s ! 0 \<noteq> 0) @ ascii ''}'' @ [0x0A]"

definition miner_config_json :: "bytes \<Rightarrow> nat \<Rightarrow> miner_settings \<Rightarrow> bool \<Rightarrow> bytes \<Rightarrow> int \<times> bytes" where
  "miner_config_json out cap s from_store active =
     (if \<not> settings_valid s then (-1, out) else snprintf_to out cap (config_text s from_store active))"

definition miner_hashrate :: "u32 \<Rightarrow> u32 \<Rightarrow> u32 \<Rightarrow> u32 \<Rightarrow> u32" where
  "miner_hashrate previous current ticks tick_hz =
     (if ticks \<noteq> 0 then ucast (((ucast (current - previous) :: u64) * ucast tick_hz) div ucast ticks) else 0)"

definition version_text :: "u32 \<Rightarrow> bytes" where
  "version_text version =
     (if version = 0 then ascii ''null''
      else ascii ''\"'' @ dec_text (unat (drop_bit 24 version)) @ ascii ''.'' @ dec_text (unat (drop_bit 16 version AND 255))
        @ ascii ''.'' @ dec_text (unat (version AND 65535)) @ ascii ''\"'')"

definition version_json :: "bytes \<Rightarrow> nat \<Rightarrow> u32 \<Rightarrow> bytes" where
  "version_json out cap version = snd (snprintf_to out cap (version_text version))"

definition details_text :: "miner_event \<Rightarrow> bytes" where
  "details_text e =
     ascii ''\"details\":{\"job_number\":'' @ dec_text (unat (ev_job_number e)) @ ascii '',\"job_id\":\"'' @ cstr (ev_job_id e)
     @ ascii ''\",\"submission\":'' @ (if ev_submission e ! 0 \<noteq> 0 then cstr (ev_submission e) else ascii ''null'')
     @ ascii '',\"hash\":\"'' @ cstr (ev_hash e) @ ascii ''\"}}''"

definition event_text :: "miner_event \<Rightarrow> u32 \<Rightarrow> u32 \<Rightarrow> u32 \<Rightarrow> int \<Rightarrow> bytes \<Rightarrow> bytes" where
  "event_text e seq event_seq uptime centi mac =
     ascii ''{\"protocol\":\"SCU35/1\",\"partial\":true,\"seq\":'' @ dec_text (unat seq) @ ascii '',\"event_seq\":''
     @ dec_text (unat event_seq) @ ascii '',\"event\":\"'' @ cstr (ev_name e) @ ascii ''\",\"mac\":\"'' @ mac_text mac
     @ ascii ''\",\"uptime_ms\":'' @ dec_text (unat uptime) @ ascii '',\"temp_centi\":'' @ int_text centi @ ascii '',''
     @ details_text e"

definition miner_event_json ::
  "bytes \<Rightarrow> nat \<Rightarrow> miner_event \<Rightarrow> u32 \<Rightarrow> u32 \<Rightarrow> u32 \<Rightarrow> int \<Rightarrow> bytes \<Rightarrow> int \<times> bytes" where
  "miner_event_json out cap e seq event_seq uptime centi mac = snprintf_to out cap (event_text e seq event_seq uptime centi mac)"

definition power_text :: "ina700_sample \<Rightarrow> u32 \<Rightarrow> bytes" where
  "power_text s now =
     (let age = now - sm_sampled_ms s
      in if \<not> sm_valid s \<or> 3000 < age then
           ascii ''{\"valid\":false,\"voltage_uv\":null,\"current_ua\":null,\"power_uw\":null,\"temp_milli_c\":null,\"age_ms\":null,\"errors\":''
           @ dec_text (unat (sm_errors s)) @ ascii ''}''
         else
           ascii ''{\"valid\":true,\"voltage_uv\":'' @ dec_text (unat (sm_voltage_uv s)) @ ascii '',\"current_ua\":''
           @ int_text (sm_current_ua s) @ ascii '',\"power_uw\":'' @ dec_text (unat (sm_power_uw s)) @ ascii '',\"temp_milli_c\":''
           @ int_text (sm_temp_milli_c s) @ ascii '',\"age_ms\":'' @ dec_text (unat age) @ ascii '',\"errors\":''
           @ dec_text (unat (sm_errors s)) @ ascii ''}'')"

definition power_json :: "bytes \<Rightarrow> nat \<Rightarrow> ina700_sample \<Rightarrow> u32 \<Rightarrow> bytes" where
  "power_json out cap s now = snd (snprintf_to out cap (power_text s now))"

definition telemetry_text ::
  "miner_stats \<Rightarrow> miner_event \<Rightarrow> u32 \<Rightarrow> u32 \<Rightarrow> u32 \<Rightarrow> int \<Rightarrow> bytes \<Rightarrow> bool \<Rightarrow> bool \<Rightarrow> bytes \<Rightarrow> bytes \<Rightarrow> bytes \<Rightarrow> bytes \<Rightarrow> bytes \<Rightarrow> bytes" where
  "telemetry_text s e seq event_seq uptime centi mac network phy rate hw boot power5 core =
     ascii ''{\"protocol\":\"SCU35/1\",\"seq\":'' @ dec_text (unat seq) @ ascii '',\"event_seq\":'' @ dec_text (unat event_seq)
     @ ascii '',\"event\":\"'' @ cstr (ev_name e) @ ascii ''\",\"mac\":\"'' @ mac_text mac @ ascii ''\",\"uptime_ms\":''
     @ dec_text (unat uptime) @ ascii '',\"temp_centi\":'' @ int_text centi @ ascii '',\"cpu_mhz\":50,\"engines\":''
     @ dec_text (unat (ts_engines s)) @ ascii '',\"hw_version\":'' @ hw @ ascii '',\"bootloader_version\":'' @ boot
     @ ascii '',\"application_version\":\"'' @ APPLICATION_VERSION @ ascii ''\",\"network_up\":'' @ bool_text network
     @ ascii '',\"phy_known\":'' @ bool_text phy @ ascii '',\"reboot_supported\":false,\"config_port\":4029,\"pool_connected\":''
     @ bool_text (ts_connected s) @ ascii '',\"pool_authorized\":'' @ bool_text (ts_authorized s) @ ascii '',\"mining\":''
     @ bool_text (ts_mining s) @ ascii '',\"job_number\":'' @ dec_text (unat (ts_jobs s)) @ ascii '',\"job_id\":\"''
     @ cstr (ts_job_id s) @ ascii ''\",\"shares_submitted\":'' @ dec_text (unat (ts_submitted s)) @ ascii '',\"shares_accepted\":''
     @ dec_text (unat (ts_accepted s)) @ ascii '',\"shares_rejected\":'' @ dec_text (unat (ts_rejected s))
     @ ascii '',\"hardware_errors\":'' @ dec_text (unat (ts_invalid s)) @ ascii '',\"events_dropped\":''
     @ dec_text (unat (ts_dropped s)) @ ascii '',\"hashrate_hps\":'' @ rate
     @ ascii '',\"hashrate_source\":\"hardware_counter\",\"hashrate_sample_ms\":'' @ dec_text (unat (ts_sample_ms s))
     @ ascii '',\"hashes_total\":'' @ dec_text (unat (ts_hashes_total s))
     @ ascii '',\"power\":{\"source\":\"INA700\",\"internal_5v\":'' @ power5 @ ascii '',\"vccint\":'' @ core @ ascii ''},''
     @ details_text e"

definition miner_telemetry_json ::
  "bytes \<Rightarrow> nat \<Rightarrow> miner_stats \<Rightarrow> miner_event \<Rightarrow> u32 \<Rightarrow> u32 \<Rightarrow> u32 \<Rightarrow> int \<Rightarrow> bytes \<Rightarrow> bool \<Rightarrow> bool \<Rightarrow> int \<times> bytes" where
  "miner_telemetry_json out cap s e seq event_seq uptime centi mac network phy =
     (let power5 = power_json (replicate 256 0) 256 (ts_power s ! 0) uptime;
          core = power_json (replicate 256 0) 256 (ts_power s ! 1) uptime;
          hw = version_json (replicate 24 0) 24 (ts_hw_version s);
          boot = version_json (replicate 24 0) 24 (ts_bootloader_version s);
          rate = (if ts_hashrate_valid s then snd (snprintf_to (replicate 24 0) 24 (dec_text (unat (ts_hashrate_hps s))))
                  else strcpy (replicate 24 0) (ascii ''null'' @ [0]))
      in snprintf_to out cap (telemetry_text s e seq event_seq uptime centi mac network phy
           (cstr rate) (cstr hw) (cstr boot) (cstr power5) (cstr core)))"

section \<open>Lengths\<close>

text \<open>Arrays of the event and the statistics that hold NUL-terminated strings, and 32-bit integers.\<close>

definition event_wf :: "miner_event \<Rightarrow> bool" where
  "event_wf e \<longleftrightarrow> length (cstr (ev_name e)) < 64 \<and> length (cstr (ev_job_id e)) < 128 \<and>
     length (cstr (ev_submission e)) < 640 \<and> length (cstr (ev_hash e)) < 65"

definition int32 :: "int \<Rightarrow> bool" where
  "int32 i \<longleftrightarrow> - (2 ^ 31) \<le> i \<and> i < 2 ^ 31"

definition sample_wf :: "ina700_sample \<Rightarrow> bool" where
  "sample_wf s \<longleftrightarrow> int32 (sm_current_ua s) \<and> int32 (sm_temp_milli_c s)"

definition stats_wf :: "miner_stats \<Rightarrow> bool" where
  "stats_wf s \<longleftrightarrow> length (cstr (ts_job_id s)) < 128 \<and> length (ts_power s) = 2 \<and> list_all sample_wf (ts_power s)"

lemma length_bool_text: "length (bool_text b) \<le> 5"
  by (simp add: bool_text_def)

lemma length_mac_text [simp]: "length (mac_text mac) = 17"
  by (simp add: mac_text_def)

lemma length_dec_bound: "n < 10 ^ k \<Longrightarrow> 0 < k \<Longrightarrow> length (dec_text n) \<le> k"
  using length_dec_text [of n "k - 1"] by simp

lemma length_dec_u64: "length (dec_text (unat (x :: u64))) \<le> 20"
  using unsigned_less [of x, where 'a = nat] by (intro length_dec_bound) simp_all

lemma length_int_text: "int32 i \<Longrightarrow> length (int_text i) \<le> 11"
proof -
  assume "int32 i"
  then have "nat (- i) < 10 ^ 10" "nat i < 10 ^ 10" by (auto simp: int32_def)
  then have "length (dec_text (nat (- i))) \<le> 10" "length (dec_text (nat i)) \<le> 10" by (intro length_dec_bound; simp)+
  then show ?thesis by (auto simp: int_text_def)
qed

lemma length_version_text: "length (version_text v) \<le> 15"
proof -
  have "unat (drop_bit 24 v) < 256" using unat_u32_less [of v] by (simp add: unat_drop_bit_div less_mult_imp_div_less)
  then have a: "length (dec_text (unat (drop_bit 24 v))) \<le> 3" by (intro length_dec_bound) simp_all
  have "unat (drop_bit 16 v AND 255) \<le> 255" using word_and_le1 [of "drop_bit 16 v" 255] by (simp add: word_le_nat_alt)
  then have b: "length (dec_text (unat (drop_bit 16 v AND 255))) \<le> 3" by (intro length_dec_bound) simp_all
  have "unat (v AND 65535) \<le> 65535" using word_and_le1 [of v 65535] by (simp add: word_le_nat_alt)
  then have c: "length (dec_text (unat (v AND 65535))) \<le> 5" by (intro length_dec_bound) simp_all
  show ?thesis using a b c by (simp add: version_text_def)
qed

lemma length_power_text: "sample_wf s \<Longrightarrow> length (power_text s now) \<le> 152"
  using length_dec_u32 [of "sm_errors s"] length_dec_u32 [of "sm_voltage_uv s"] length_dec_u32 [of "sm_power_uw s"]
    length_dec_u32 [of "now - sm_sampled_ms s"] length_int_text [of "sm_current_ua s"] length_int_text [of "sm_temp_milli_c s"]
  by (simp add: power_text_def Let_def sample_wf_def)

lemma length_details_text: "event_wf e \<Longrightarrow> length (details_text e) \<le> 902"
  using length_dec_u32 [of "ev_job_number e"] by (simp add: details_text_def event_wf_def)

lemma length_event_text: "event_wf e \<Longrightarrow> int32 centi \<Longrightarrow> length (event_text e seq event_seq uptime centi mac) \<le> 1127"
  using length_dec_u32 [of seq] length_dec_u32 [of event_seq] length_dec_u32 [of uptime] length_int_text [of centi] length_details_text [of e]
  by (simp add: event_text_def event_wf_def)

lemma length_telemetry_text:
  assumes "stats_wf s" "int32 centi" "length rate \<le> 10" "length hw \<le> 15" "length boot \<le> 15" "length power5 \<le> 152" "length core \<le> 152"
  shows "length (telemetry_text s e seq event_seq uptime centi mac network phy rate hw boot power5 core) \<le>
    1217 + length (cstr (ev_name e)) + length (details_text e)"
proof -
  note d = length_dec_u32 [of seq] length_dec_u32 [of event_seq] length_dec_u32 [of uptime] length_dec_u32 [of "ts_engines s"]
    length_dec_u32 [of "ts_jobs s"] length_dec_u32 [of "ts_submitted s"] length_dec_u32 [of "ts_accepted s"]
    length_dec_u32 [of "ts_rejected s"] length_dec_u32 [of "ts_invalid s"] length_dec_u32 [of "ts_dropped s"]
    length_dec_u32 [of "ts_sample_ms s"] length_dec_u64 [of "ts_hashes_total s"] length_int_text [OF assms(2)]
  note b = length_bool_text [of network] length_bool_text [of phy] length_bool_text [of "ts_connected s"]
    length_bool_text [of "ts_authorized s"] length_bool_text [of "ts_mining s"]
  have "length (cstr (ts_job_id s)) \<le> 127" using assms(1) by (simp add: stats_wf_def)
  with d b assms(3-) show ?thesis by (simp add: telemetry_text_def APPLICATION_VERSION_def)
qed

lemma length_rate_text:
  "length (cstr (if valid then snd (snprintf_to (replicate 24 0) 24 (dec_text (unat (x :: u32))))
     else strcpy (replicate 24 0) (ascii ''null'' @ [0]))) \<le> 10"
  using length_dec_u32 [of x] length_cstr_snprintf [of 24 "replicate 24 0" "dec_text (unat x)"]
  by (auto simp: strcpy_def memcpy_at_def cstr_def)

section \<open>The configuration command\<close>

lemma mac_digit_code: "mac_digit c = (case hex_digit c of None \<Rightarrow> -1 | Some v \<Rightarrow> uint v)"
  by (rule all_u8 [where P = "\<lambda>c. mac_digit c = (case hex_digit c of None \<Rightarrow> -1 | Some v \<Rightarrow> uint v)"]) code_simp

lemma mac_byte: "(ucast ((ucast (a :: u8) :: u32) * 16 + ucast (b :: u8)) :: u8) = a * 16 + b"
  using unat_u8_less [of a] unat_u8_less [of b] by (simp add: word_unat_eq_iff unat_ucast_mod unat_word_ariths mod_mod_cancel) (metis mod_add_left_eq)

lemma parse_mac_loop_Cons:
  "parse_mac_loop s (i # is) mac =
     (case hex_digit (s ! (3 * i)) of None \<Rightarrow> (False, mac)
      | Some a \<Rightarrow>
     (case hex_digit (s ! (3 * i + 1)) of None \<Rightarrow> (False, mac)
      | Some b \<Rightarrow>
          let mac = mac[i := a * 16 + b]
          in if i < 5 \<and> s ! (3 * i + 2) \<noteq> 0x3A then (False, mac) else parse_mac_loop s is mac))"
  by (simp add: mac_digit_code mac_byte Let_def split: option.split)

declare parse_mac_loop.simps(2) [simp del] parse_mac_loop_Cons [simp]

lemma parse_mac_loop_ok:
  "parse_mac_loop s is mac = (True, mac') \<Longrightarrow> distinct is \<Longrightarrow> set is \<subseteq> {..<length mac} \<Longrightarrow>
   length mac' = length mac \<and> (\<forall>i. i \<notin> set is \<longrightarrow> mac' ! i = mac ! i) \<and>
   (\<forall>i\<in>set is. \<exists>a b. digit_value (s ! (3 * i)) = Some a \<and> digit_value (s ! (3 * i + 1)) = Some b \<and> mac' ! i = of_nat (16 * a + b) \<and>
      (i < 5 \<longrightarrow> s ! (3 * i + 2) = 0x3A))"
proof (induction "is" arbitrary: mac)
  case (Cons i "is")
  then obtain a b where ab: "hex_digit (s ! (3 * i)) = Some a" "hex_digit (s ! (3 * i + 1)) = Some b"
    "i < 5 \<longrightarrow> s ! (3 * i + 2) = 0x3A" "parse_mac_loop s is (mac[i := a * 16 + b]) = (True, mac')"
    by (auto simp: Let_def split: option.splits if_splits)
  have i: "i < length mac" "i \<notin> set is" "distinct is" "set is \<subseteq> {..<length (mac[i := a * 16 + b])}" using Cons.prems by auto
  have "digit_value (s ! (3 * i)) = Some (unat a)" "digit_value (s ! (3 * i + 1)) = Some (unat b)" "a * 16 + b = of_nat (16 * unat a + unat b)"
    using ab(1,2) by simp_all
  with Cons.IH [OF ab(4) i(3,4)] ab(3) i show ?case by (auto simp del: digit_value_code)
qed simp

lemma parse_mac_length: "length (snd (parse_mac s mac)) = length mac"
proof -
  have "length (snd (parse_mac_loop s is mac)) = length mac" for "is"
    by (induction "is" arbitrary: mac) (simp_all add: Let_def split: option.split)
  then show ?thesis by (simp add: parse_mac_def)
qed

text \<open>The six bytes that a text of six groups of two digits, separated by colons, denotes.\<close>

definition mac_denotes :: "bytes \<Rightarrow> bytes \<Rightarrow> bool" where
  "mac_denotes txt mac \<longleftrightarrow> length txt = 17 \<and> length mac = 6 \<and>
     (\<forall>i<6. \<exists>a b. digit_value (txt ! (3 * i)) = Some a \<and> digit_value (txt ! (3 * i + 1)) = Some b \<and> mac ! i = of_nat (16 * a + b) \<and>
        (i < 5 \<longrightarrow> txt ! (3 * i + 2) = 0x3A))"

lemma parse_mac_denotes:
  assumes "parse_mac (txt @ 0 # rest) mac = (True, mac')" "length txt = 17" "0 \<notin> set txt" "length mac = 6"
  shows "mac_denotes txt mac'"
proof -
  have "parse_mac_loop (txt @ 0 # rest) [0..<6] mac = (True, mac')"
    using assms by (simp add: parse_mac_def cstr_append_nul del: upt_rec_numeral)
  moreover have "set [0..<6] \<subseteq> {..<length mac}" using assms(4) by auto
  ultimately show ?thesis
    using parse_mac_loop_ok [of "txt @ 0 # rest" "[0..<6]" mac mac'] assms(2,4)
    by (simp add: mac_denotes_def nth_append atLeast0LessThan Ball_def del: upt_rec_numeral digit_value_code)
qed

text \<open>What a successful command means, field by field.\<close>

lemma config_parse_fields:
  assumes "miner_config_parse validate search line current nxt0 = (None, nxt)" "settings_wf current"
  obtains mactxt h w port where
    "search line (ascii ''command'') = JSONSuccess (ascii ''configure'') JSONString"
    "search line (ascii ''mac'') = JSONSuccess mactxt JSONString" "mac_denotes mactxt (ms_mac nxt)"
    "search line (ascii ''host'') = JSONSuccess (cstr (ms_host nxt)) JSONString"
    "search line (ascii ''worker'') = JSONSuccess (cstr (ms_worker nxt)) JSONString"
    "json_u32 search line ''port'' = Some port" "unat port = unat (ms_port nxt)"
    "search line (ascii ''password'') = JSONNotFound \<and> ms_password nxt = ms_password current \<or>
     search line (ascii ''password'') = JSONSuccess (cstr (ms_password nxt)) JSONString"
    "settings_valid nxt" "settings_wf nxt"
proof -
  obtain c where c: "json_string search line ''command'' (replicate 24 0) 24 = (0, c)" "cstr c = ascii ''configure''"
    using assms(1) by (auto simp: miner_config_parse_def Let_def split: prod.splits if_splits)
  obtain m where m: "json_string search line ''mac'' (replicate 18 0) 18 = (0, m)"
    using assms(1) c by (auto simp: miner_config_parse_def Let_def split: prod.splits if_splits)
  obtain mac where mac: "parse_mac m (ms_mac current) = (True, mac)"
    using assms(1) c m by (auto simp: miner_config_parse_def Let_def split: prod.splits if_splits)
  obtain h where h: "json_string search line ''host'' (ms_host current) 96 = (0, h)"
    using assms(1) c m mac by (auto simp: miner_config_parse_def Let_def split: prod.splits if_splits)
  obtain w where w: "json_string search line ''worker'' (ms_worker current) 128 = (0, w)"
    using assms(1) c m mac h by (auto simp: miner_config_parse_def Let_def split: prod.splits if_splits)
  obtain port where port: "json_u32 search line ''port'' = Some port" "port \<le> 65535"
    using assms(1) c m mac h w by (auto simp: miner_config_parse_def Let_def split: prod.splits if_splits option.splits)
  obtain p where p: "config_password search line (ms_password current) = (0, p)"
    using assms(1) c m mac h w port by (auto simp: miner_config_parse_def Let_def split: prod.splits if_splits)
  have nxt: "nxt = current\<lparr>ms_mac := mac, ms_host := h, ms_worker := w, ms_password := p, ms_port := ucast port\<rparr>" "settings_valid nxt"
    using assms(1) c m mac h w port p by (auto simp: miner_config_parse_def Let_def split: if_splits)
  note len = assms(2) [unfolded settings_wf_def]
  obtain mt where mt: "search line (ascii ''mac'') = JSONSuccess mt JSONString" "cstr m = mt" "m = mt @ 0 # drop (length mt + 1) (replicate 18 0)"
    using json_string_stored [OF m] by auto
  have "length mt = 17" using mac mt(2) by (auto simp: parse_mac_def split: if_splits)
  then have den: "mac_denotes mt mac"
    using parse_mac_denotes [of mt "drop (length mt + 1) (replicate 18 0)" "ms_mac current" mac] mac mt cstr_no_nul [of m] len by simp
  have found: "search line (ascii q) = JSONSuccess (cstr v) JSONString"
    if "json_string search line q out cap = (0, v)" "cap \<le> length out" for q out cap v
    by (rule json_string_stored [OF that]) simp
  have pw: "(search line (ascii ''password'') = JSONNotFound \<and> p = ms_password current \<or>
      search line (ascii ''password'') = JSONSuccess (cstr p) JSONString) \<and> length p = 64"
  proof (cases "search line (ascii ''password'')")
    case (JSONSuccess v t)
    then have q: "json_string search line ''password'' (ms_password current) 64 = (0, p)" using p by (simp add: config_password_def)
    with found [OF q] json_string_length [of 64 "ms_password current" search line "''password''"] len show ?thesis by simp
  qed (use p len in \<open>simp_all add: config_password_def\<close>)
  have hw: "search line (ascii ''host'') = JSONSuccess (cstr h) JSONString" "search line (ascii ''worker'') = JSONSuccess (cstr w) JSONString"
    "search line (ascii ''command'') = JSONSuccess (ascii ''configure'') JSONString"
    using found [OF h] found [OF w] found [OF c(1)] c(2) len by simp_all
  have lens: "length h = 96" "length w = 128"
    using json_string_length [of 96 "ms_host current" search line "''host''"] h
      json_string_length [of 128 "ms_worker current" search line "''worker''"] w len by auto
  have "unat (ucast port :: u16) = unat port" using port(2) by (simp add: unat_ucast_mod word_le_nat_alt)
  moreover have "settings_wf nxt" using nxt(1) len lens pw den by (simp add: settings_wf_def mac_denotes_def)
  ultimately show thesis
    using that [of mt port] den hw mt(1) port(1) pw nxt by simp
qed

section \<open>Properties\<close>

text \<open>
  C32. A configuration command is accepted only if it is a \<open>configure\<close> command whose fields are all present and well
  formed; then the new settings are exactly what the fields say (the password is kept when the command
  omits it), they pass \<open>settings_valid\<close>, and no string array is overrun.
\<close>

theorem config_parse_sound:
  assumes "settings_wf current" "miner_config_parse validate search line current nxt0 = (None, nxt)"
  shows "settings_valid nxt \<and> settings_wf nxt \<and>
    search line (ascii ''command'') = JSONSuccess (ascii ''configure'') JSONString \<and>
    (\<exists>mactxt. search line (ascii ''mac'') = JSONSuccess mactxt JSONString \<and> mac_denotes mactxt (ms_mac nxt)) \<and>
    search line (ascii ''host'') = JSONSuccess (cstr (ms_host nxt)) JSONString \<and>
    search line (ascii ''worker'') = JSONSuccess (cstr (ms_worker nxt)) JSONString \<and>
    (\<exists>port. json_u32 search line ''port'' = Some port \<and> unat port = unat (ms_port nxt)) \<and>
    (search line (ascii ''password'') = JSONNotFound \<and> ms_password nxt = ms_password current \<or>
     search line (ascii ''password'') = JSONSuccess (cstr (ms_password nxt)) JSONString)"
  by (rule config_parse_fields [OF assms(2,1)]) blast

text \<open>A complete command, for a concrete instance.\<close>

definition demo_fields :: "(bytes \<times> json_found) list" where
  "demo_fields = [(ascii ''command'', JSONSuccess (ascii ''configure'') JSONString),
     (ascii ''mac'', JSONSuccess (ascii ''02:00:00:00:35:aF'') JSONString), (ascii ''host'', JSONSuccess (ascii ''pool'') JSONString),
     (ascii ''worker'', JSONSuccess (ascii ''w.1'') JSONString), (ascii ''port'', JSONSuccess (ascii ''3333'') JSONNumber)]"

definition demo_search :: json_search where
  "demo_search s q = (case map_of demo_fields q of Some r \<Rightarrow> r | None \<Rightarrow> JSONNotFound)"

definition demo_settings :: miner_settings where
  "demo_settings = \<lparr>ms_mac = replicate 6 2, ms_port = 1, ms_host = replicate 96 0, ms_worker = replicate 128 0,
     ms_password = ascii ''x'' @ replicate 63 0\<rparr>"

lemma demo_parse:
  "fst (miner_config_parse (\<lambda>s. True) demo_search [] demo_settings demo_settings) = None"
  "ms_mac (snd (miner_config_parse (\<lambda>s. True) demo_search [] demo_settings demo_settings)) = [2, 0, 0, 0, 0x35, 0xaf]"
  by code_simp+

theorem config_parse_sound_witness:
  "settings_wf demo_settings \<and> settings_valid (snd (miner_config_parse (\<lambda>s. True) demo_search [] demo_settings demo_settings)) \<and>
   ms_password (snd (miner_config_parse (\<lambda>s. True) demo_search [] demo_settings demo_settings)) = ms_password demo_settings"
proof -
  have wf: "settings_wf demo_settings" by (simp add: settings_wf_def demo_settings_def)
  have "demo_search [] (ascii ''password'') = JSONNotFound" by (simp add: demo_search_def demo_fields_def)
  with config_parse_sound [OF wf, of "\<lambda>s. True" demo_search "[]" demo_settings] demo_parse(1) wf show ?thesis
    by (metis (no_types, lifting) json_found.distinct(1) prod.collapse)
qed

text \<open>
  The MAC address that the configuration readback prints is one that the configuration command accepts
  and reads back to the same six bytes.
\<close>

theorem mac_roundtrip:
  assumes "length mac = 6" "length old = 6"
  shows "parse_mac (mac_text mac @ 0 # rest) old = (True, mac)"
proof -
  from assms(1) obtain a b c d e f where mac: "mac = [a, b, c, d, e, f]"
    by (auto simp: numeral_eq_Suc length_Suc_conv)
  from assms(2) obtain a' b' c' d' e' f' where old: "old = [a', b', c', d', e', f']"
    by (auto simp: numeral_eq_Suc length_Suc_conv)
  have two: "hex2_text x = [hex_chars ! (unat x div 16), hex_chars ! (unat x mod 16)]" for x by (simp add: hex2_text_def hex_text_def)
  have dig: "hex_digit (hex_chars ! (unat x div 16)) = Some (of_nat (unat x div 16))"
    "hex_digit (hex_chars ! (unat x mod 16)) = Some (of_nat (unat x mod 16))" for x :: u8
    using unat_u8_less [of x] by (simp_all add: hex_digit_chars less_mult_imp_div_less)
  have val: "of_nat (unat x div 16) * 16 + of_nat (unat x mod 16) = x" for x :: u8
  proof -
    have "of_nat (unat x div 16 * 16 + unat x mod 16) = x" unfolding div_mult_mod_eq by simp
    then show ?thesis by (simp only: of_nat_add of_nat_mult of_nat_numeral)
  qed
  have "0 \<notin> set (mac_text mac)" by (simp add: mac_text_def hex_texts_no_nul)
  then have "cstr (mac_text mac @ 0 # rest) = mac_text mac" by (rule cstr_append_nul)
  moreover have "[0..<6] = [0, 1, 2, 3, 4, 5 :: nat]" by (simp add: upt_rec)
  ultimately show ?thesis
    by (simp add: parse_mac_def mac_text_def two mac old dig val Let_def del: upt_rec_numeral)
qed

theorem mac_roundtrip_witness:
  "parse_mac (ascii ''02:00:5e:10:00:ff'' @ [0]) [9, 9, 9, 9, 9, 9] = (True, [0x02, 0, 0x5e, 0x10, 0, 0xff])"
proof -
  have "mac_text [0x02, 0, 0x5e, 0x10, 0, 0xff] = ascii ''02:00:5e:10:00:ff''"
    by (simp add: mac_text_def hex2_text_def hex_text_def hex_chars_def)
  with mac_roundtrip [of "[0x02, 0, 0x5e, 0x10, 0, 0xff]" "[9, 9, 9, 9, 9, 9]" "[]"] show ?thesis by simp
qed

text \<open>
  The readback never discloses the password: two valid settings that differ only in a password that is set in both (or
  empty in both) produce the same reply, in the same buffer, with the same return code.
\<close>

theorem config_json_hides_password:
  assumes "settings_valid s" "settings_valid (s\<lparr>ms_password := p\<rparr>)" "(p ! 0 = 0) = (ms_password s ! 0 = 0)"
  shows "miner_config_json out cap (s\<lparr>ms_password := p\<rparr>) from_store active = miner_config_json out cap s from_store active"
  using assms by (simp add: miner_config_json_def config_text_def)

theorem config_json_hides_password_witness:
  "miner_config_json [] 0 (demo_settings\<lparr>ms_password := ascii ''secret'' @ replicate 58 0\<rparr>) True (replicate 6 2) =
   miner_config_json [] 0 demo_settings True (replicate 6 2)"
proof (rule config_json_hides_password)
  show "settings_valid demo_settings" "settings_valid (demo_settings\<lparr>ms_password := ascii ''secret'' @ replicate 58 0\<rparr>)"
    by code_simp+
qed (simp add: demo_settings_def)

text \<open>
  The hash rate is exact: the hashes counted between two samples, modulo the wrap-around of the 32-bit
  counter, times the tick rate, divided by the elapsed ticks; the 64-bit product cannot overflow, and the
  result is that quotient whenever it fits 32 bits. With no tick elapsed it is 0.
\<close>

theorem miner_hashrate_exact:
  "unat (miner_hashrate previous current ticks tick_hz) =
     (if ticks = 0 then 0
      else (nat ((int (unat current) - int (unat previous)) mod 2 ^ 32) * unat tick_hz div unat ticks) mod 2 ^ 32)"
proof (cases "ticks = 0")
  case False
  have d: "unat (current - previous) = nat ((int (unat current) - int (unat previous)) mod 2 ^ 32)"
  proof -
    have "uint (current - previous) = (uint current - uint previous) mod 2 ^ 32" using uint_word_ariths(2) [of current previous] by simp
    then have "nat (uint (current - previous)) = nat ((int (unat current) - int (unat previous)) mod 2 ^ 32)" by simp
    then show ?thesis by (simp only: unat_eq_nat_uint)
  qed
  have w: "unat (ucast x :: u64) = unat x" for x :: u32
    using unat_u32_less [of x] by (simp add: unat_ucast_mod)
  have "unat (current - previous) * unat tick_hz < 4294967296 * 4294967296"
    using unat_u32_less [of "current - previous"] unat_u32_less [of tick_hz] by (intro mult_strict_mono) simp_all
  then have m: "unat ((ucast (current - previous) :: u64) * ucast tick_hz) = unat (current - previous) * unat tick_hz"
    by (simp add: unat_word_ariths w)
  have "unat (ucast (((ucast (current - previous) :: u64) * ucast tick_hz) div ucast ticks) :: u32) =
      (unat (current - previous) * unat tick_hz div unat ticks) mod 2 ^ 32"
    by (subst unat_ucast_mod) (simp only: unat_div m w, simp)
  then show ?thesis using False by (simp add: miner_hashrate_def d)
qed (simp add: miner_hashrate_def)

text \<open>
  C36. No telemetry is ever cut: every complete message fits its 3072-byte buffer; a message split in two
  gives parts that each fit one UDP datagram of 1472 bytes (the status part, whose event carries no
  details, and the event part); and the inner buffers (24 and 256 bytes) hold their texts completely.
\<close>

theorem telemetry_fits:
  assumes "stats_wf s" "event_wf e" "int32 centi"
  shows "fst (miner_telemetry_json out MINER_TELEMETRY_MAX s e seq event_seq uptime centi mac network phy) < int MINER_TELEMETRY_MAX \<and>
    fst (miner_event_json out MINER_TELEMETRY_MAX e seq event_seq uptime centi mac) \<le> 1472 \<and>
    fst (miner_telemetry_json out MINER_TELEMETRY_MAX s
      (miner_event_zero\<lparr>ev_name := strcpy (ev_name miner_event_zero) (ascii ''status'' @ [0])\<rparr>)
      seq event_seq uptime centi mac network phy) \<le> 1472 \<and>
    length (version_text v) < 24 \<and> (\<forall>p\<in>set (ts_power s). length (power_text p uptime) < 256)"
proof -
  have pw: "sample_wf (ts_power s ! 0)" "sample_wf (ts_power s ! 1)" "\<forall>p\<in>set (ts_power s). sample_wf p"
    using assms(1) by (auto simp: stats_wf_def list_all_iff)
  have v: "length (cstr (version_json out 24 x)) \<le> 15" for x out
    using length_cstr_snprintf [of 24 out "version_text x"] length_version_text [of x] by (simp add: version_json_def)
  have p: "length (cstr (power_json out 256 x uptime)) \<le> 152" if "sample_wf x" for x out
    using length_cstr_snprintf [of 256 out "power_text x uptime"] length_power_text [OF that, of uptime] by (simp add: power_json_def)
  have t: "fst (miner_telemetry_json out MINER_TELEMETRY_MAX s ev seq event_seq uptime centi mac network phy) \<le>
      int (1217 + length (cstr (ev_name ev)) + length (details_text ev))" for ev
    unfolding miner_telemetry_json_def Let_def fst_snprintf of_nat_le_iff
    by (intro length_telemetry_text assms p pw length_rate_text v)
  let ?st = "miner_event_zero\<lparr>ev_name := strcpy (ev_name miner_event_zero) (ascii ''status'' @ [0])\<rparr>"
  have st: "length (cstr (ev_name ?st)) = 6" "length (details_text ?st) \<le> 80"
    using length_dec_u32 [of 0] by (simp_all add: miner_event_zero_def strcpy_def memcpy_at_def cstr_def details_text_def)
  have ev: "length (event_text e seq event_seq uptime centi mac) \<le> 1472"
    using length_event_text [OF assms(2,3), of seq event_seq uptime mac] by linarith
  show ?thesis
  proof (intro conjI ballI)
    show "fst (miner_telemetry_json out MINER_TELEMETRY_MAX s e seq event_seq uptime centi mac network phy) < int MINER_TELEMETRY_MAX"
      using t [of e] length_details_text [OF assms(2)] assms(2) by (simp add: event_wf_def MINER_TELEMETRY_MAX_def)
    show "fst (miner_event_json out MINER_TELEMETRY_MAX e seq event_seq uptime centi mac) \<le> 1472"
      using ev by (simp add: miner_event_json_def fst_snprintf)
    show "fst (miner_telemetry_json out MINER_TELEMETRY_MAX s ?st seq event_seq uptime centi mac network phy) \<le> 1472"
      using t [of ?st] st by linarith
    show "length (version_text v) < 24" using length_version_text [of v] by linarith
    show "length (power_text p uptime) < 256" if "p \<in> set (ts_power s)" for p
      using length_power_text [of p uptime] pw(3) that by fastforce
  qed
qed

theorem telemetry_fits_witness:
  "stats_wf (miner_stats_zero\<lparr>ts_mining := True\<rparr>) \<and> event_wf miner_event_zero \<and> int32 2500 \<and>
   fst (miner_event_json [] MINER_TELEMETRY_MAX miner_event_zero 1 0 1000 2500 (replicate 6 2)) \<le> 1472"
proof -
  have wf: "stats_wf (miner_stats_zero\<lparr>ts_mining := True\<rparr>)" "event_wf miner_event_zero" "int32 2500"
    by (simp_all add: stats_wf_def miner_stats_zero_def sample_wf_def ina700_sample_zero_def int32_def event_wf_def miner_event_zero_def
      cstr_def list_all_iff)
  with telemetry_fits [OF wf, of "[]" 1 0 1000 "replicate 6 2" True True 0] show ?thesis by blast
qed

end
