(* ===== verification/Eeprom.thy ===== *)
theory Eeprom
  imports Mmio Settings "HOL-Library.Sublist"
begin

text \<open>
  \<open>application/eeprom.c\<close>: the settings EEPROM (M24C64) behind the AXI IIC controller in dynamic mode. The
  driver is the pair of functions that \<open>settings_load\<close> and \<open>settings_save\<close> receive as pointers. All its loops are
  bounded. What it transmits is read off the trace: the values stored in the transmit FIFO.
\<close>

section \<open>The code\<close>

definition EE_IIC :: u32 where "EE_IIC = 0x40800000"

definition ee_rd :: "('d, 'b) rtos_scheme \<Rightarrow> u32 \<Rightarrow> ('d, 'z) machine_scheme \<Rightarrow> u32 \<times> ('d, 'z) machine_scheme" where
  "ee_rd R r st = Xil_In32 R (EE_IIC + r) st"

definition ee_wr :: "('d, 'b) rtos_scheme \<Rightarrow> u32 \<Rightarrow> u32 \<Rightarrow> ('d, 'z) machine_scheme \<Rightarrow> ('d, 'z) machine_scheme" where
  "ee_wr R r v st = Xil_Out32 R (EE_IIC + r) v st"

text \<open>The polling loop, with the number of polls left.\<close>

fun ee_wait :: "('d, 'b) rtos_scheme \<Rightarrow> u32 \<Rightarrow> u32 \<Rightarrow> nat \<Rightarrow> ('d, 'z) machine_scheme \<Rightarrow> bool \<times> ('d, 'z) machine_scheme" where
  "ee_wait R msk expected 0 st = (False, st)"
| "ee_wait R msk expected (Suc n) st =
     (let (v, st) = ee_rd R 0x104 st in if v AND msk = expected then (True, st) else ee_wait R msk expected n st)"

definition ee_wait_status :: "('d, 'b) rtos_scheme \<Rightarrow> u32 \<Rightarrow> u32 \<Rightarrow> ('d, 'z) machine_scheme \<Rightarrow> bool \<times> ('d, 'z) machine_scheme" where
  "ee_wait_status R msk expected st = ee_wait R msk expected 100000 st"

definition ee_start :: "('d, 'b) rtos_scheme \<Rightarrow> u16 \<Rightarrow> ('d, 'z) machine_scheme \<Rightarrow> bool \<times> ('d, 'z) machine_scheme" where
  "ee_start R address st =
     (let (ok, st) = ee_wait_status R 4 0 st
      in if \<not> ok then (False, st)
      else let st = ee_wr R 0x40 10 st; st = ee_wr R 0x120 15 st; st = ee_wr R 0x100 3 st; st = ee_wr R 0x100 1 st;
               (v, st) = ee_rd R 0x20 st; st = ee_wr R 0x20 v st;
               st = ee_wr R 0x108 0x1a0 st; st = ee_wr R 0x108 (ucast (drop_bit 8 address)) st;
               st = ee_wr R 0x108 (ucast (address AND 255)) st
      in (True, st))"

definition ee_finish :: "('d, 'b) rtos_scheme \<Rightarrow> ('d, 'z) machine_scheme \<Rightarrow> bool \<times> ('d, 'z) machine_scheme" where
  "ee_finish R st =
     (let (ok, st) = ee_wait_status R 0x80 0x80 st
      in if \<not> ok then (False, ee_wr R 0x40 10 st)
      else let (ok, st) = ee_wait_status R 4 0 st
      in if \<not> ok then (False, ee_wr R 0x40 10 st)
      else let (v, st) = ee_rd R 0x20 st
      in if v AND 3 \<noteq> 0 then (False, ee_wr R 0x40 10 st) else (True, st))"

text \<open>Reading: the bytes of one burst of at most 16, then the bursts.\<close>

fun ee_read_burst :: "('d, 'b) rtos_scheme \<Rightarrow> nat \<Rightarrow> bytes \<Rightarrow> ('d, 'z) machine_scheme \<Rightarrow> bytes option \<times> ('d, 'z) machine_scheme" where
  "ee_read_burst R 0 acc st = (Some acc, st)"
| "ee_read_burst R (Suc k) acc st =
     (let (ok, st) = ee_wait_status R 0x40 0 st
      in if \<not> ok then (None, ee_wr R 0x40 10 st)
      else let (v, st) = ee_rd R 0x10c st in ee_read_burst R k (acc @ [ucast v]) st)"

function eeprom_read_loop ::
  "('d, 'b) rtos_scheme \<Rightarrow> u16 \<Rightarrow> nat \<Rightarrow> bytes \<Rightarrow> ('d, 'z) machine_scheme \<Rightarrow> bytes option \<times> ('d, 'z) machine_scheme" where
  "eeprom_read_loop R address sz acc st =
     (if sz = 0 then (Some acc, st)
      else let n = (if 16 < sz then 16 else sz); (ok, st) = ee_start R address st
      in if \<not> ok then (None, st)
      else let st = ee_wr R 0x108 0x1a1 st; st = ee_wr R 0x108 (0x200 OR of_nat n) st; (r, st) = ee_read_burst R n acc st
      in case r of
        None \<Rightarrow> (None, st)
      | Some acc \<Rightarrow>
          let (ok, st) = ee_wait_status R 4 0 st
          in if \<not> ok then (None, ee_wr R 0x40 10 st)
          else let (v, st) = ee_rd R 0x20 st
          in if v AND 1 \<noteq> 0 then (None, ee_wr R 0x40 10 st)
             else eeprom_read_loop R (address + of_nat n) (sz - n) acc st)"
  by pat_completeness auto
termination
  by (relation "measure (\<lambda>(R, address, sz, acc, st). sz)") auto

declare eeprom_read_loop.simps [simp del]

definition eeprom_read :: "('d, 'b) rtos_scheme \<Rightarrow> ('d, 'z) machine_scheme settings_read" where
  "eeprom_read R address sz st =
     (if 8192 < unat address + sz then (None, st) else eeprom_read_loop R address sz [] st)"

text \<open>Writing: the bytes of one page, the last one with the stop bit, then the pages.\<close>

fun ee_write_page :: "('d, 'b) rtos_scheme \<Rightarrow> bytes \<Rightarrow> ('d, 'z) machine_scheme \<Rightarrow> bool \<times> ('d, 'z) machine_scheme" where
  "ee_write_page R [] st = (True, st)"
| "ee_write_page R (b # bs) st =
     (let (ok, st) = ee_wait_status R 0x10 0 st
      in if \<not> ok then (False, ee_wr R 0x40 10 st)
      else ee_write_page R bs (ee_wr R 0x108 (ucast b OR (if bs = [] then 0x200 else 0)) st))"

function eeprom_write_loop ::
  "('d, 'b) rtos_scheme \<Rightarrow> u16 \<Rightarrow> bytes \<Rightarrow> ('d, 'z) machine_scheme \<Rightarrow> bool \<times> ('d, 'z) machine_scheme" where
  "eeprom_write_loop R address buf st =
     (if buf = [] then (True, st)
      else let n = 32 - unat (address AND 31); n = (if length buf < n then length buf else n); (ok, st) = ee_start R address st
      in if \<not> ok then (False, st)
      else let (ok, st) = ee_write_page R (take n buf) st
      in if \<not> ok then (False, st)
      else let (ok, st) = ee_finish R st
      in if \<not> ok then (False, st)
      else eeprom_write_loop R (address + of_nat n) (drop n buf) (vTaskDelay R 2 st))"
  by pat_completeness auto
termination
proof (relation "measure (\<lambda>(R, address, buf, st). length buf)", goal_cases)
  case (2 R address buf st n n' x)
  have "unat (address AND 31) < 32" using word_and_le1 [of address 31] by (simp add: word_le_nat_alt)
  with 2 show ?case by (auto split: if_splits)
qed simp

declare eeprom_write_loop.simps [simp del]

definition eeprom_write :: "('d, 'b) rtos_scheme \<Rightarrow> ('d, 'z) machine_scheme settings_write" where
  "eeprom_write R address buf st =
     (if address < SETTINGS_SLOT0 \<or> unat SETTINGS_SLOT1 + 512 < unat address + length buf then (False, st)
      else eeprom_write_loop R address buf st)"

section \<open>What the bus sees\<close>

text \<open>The values stored in the transmit FIFO, and the values taken from the receive FIFO.\<close>

definition tx :: "('d, 'z) machine_scheme \<Rightarrow> u32 list" where
  "tx st = concat (map (\<lambda>e. case e of Out32 a v \<Rightarrow> if a = EE_IIC + 0x108 then [v] else [] | _ \<Rightarrow> []) (m_trace st))"

definition rx :: "('d, 'z) machine_scheme \<Rightarrow> bytes" where
  "rx st = concat (map (\<lambda>e. case e of In32 a v \<Rightarrow> if a = EE_IIC + 0x10c then [ucast v] else [] | _ \<Rightarrow> []) (m_trace st))"

lemma tx_wr [simp]: "tx (ee_wr R r v st) = tx st @ (if r = 0x108 then [v] else [])"
  by (simp add: tx_def ee_wr_def Xil_Out32_def log_event_def)

lemma rx_wr [simp]: "rx (ee_wr R r v st) = rx st"
  by (simp add: rx_def ee_wr_def Xil_Out32_def log_event_def)

lemma tx_rd: "ee_rd R r st = (v, st') \<Longrightarrow> tx st' = tx st"
  by (auto simp: tx_def ee_rd_def Xil_In32_def log_event_def split: prod.splits)

lemma rx_rd: "ee_rd R r st = (v, st') \<Longrightarrow> rx st' = rx st @ (if r = 0x10c then [ucast v] else [])"
  by (auto simp: rx_def ee_rd_def Xil_In32_def log_event_def split: prod.splits)

lemma tx_delay [simp]: "tx (vTaskDelay R n st) = tx st"
  by (simp add: tx_def vTaskDelay_def log_event_def)

lemma fifo_wait: "ee_wait R msk expected n st = (ok, st') \<Longrightarrow> tx st' = tx st \<and> rx st' = rx st"
proof (induction n arbitrary: st)
  case (Suc n)
  obtain v s where s: "ee_rd R 0x104 st = (v, s)" by fastforce
  from tx_rd [OF s] rx_rd [OF s] Suc.IH [of s] Suc.prems s show ?case by (auto split: if_splits)
qed simp

lemma fifo_wait_status: "ee_wait_status R msk expected st = (ok, st') \<Longrightarrow> tx st' = tx st \<and> rx st' = rx st"
  by (simp add: ee_wait_status_def fifo_wait)

lemma fifo_start:
  assumes "ee_start R address st = (ok, st')"
  shows "rx st' = rx st"
    and "tx st' = tx st @ (if ok then [0x1a0, ucast (drop_bit 8 address), ucast (address AND 255)] else [])"
proof -
  obtain ok1 s where s: "ee_wait_status R 4 0 st = (ok1, s)" by fastforce
  let ?s = "ee_wr R 0x100 1 (ee_wr R 0x100 3 (ee_wr R 0x120 15 (ee_wr R 0x40 10 s)))"
  obtain v t where t: "ee_rd R 0x20 ?s = (v, t)" by fastforce
  note fifo = fifo_wait_status [OF s] tx_rd [OF t] rx_rd [OF t]
  show "rx st' = rx st" and "tx st' = tx st @ (if ok then [0x1a0, ucast (drop_bit 8 address), ucast (address AND 255)] else [])"
    using assms s t fifo by (auto simp: ee_start_def Let_def split: if_splits)
qed

lemma fifo_finish:
  assumes "ee_finish R st = (ok, st')"
  shows "tx st' = tx st"
proof -
  obtain ok1 s where s: "ee_wait_status R 0x80 0x80 st = (ok1, s)" by fastforce
  obtain ok2 t where t: "ee_wait_status R 4 0 s = (ok2, t)" by fastforce
  obtain v u where u: "ee_rd R 0x20 t = (v, u)" by fastforce
  show ?thesis
    using assms s t u fifo_wait_status [OF s] fifo_wait_status [OF t] tx_rd [OF u]
    by (auto simp: ee_finish_def Let_def split: if_splits)
qed

section \<open>Pages\<close>

text \<open>
  The page writes for a buffer, the FIFO stream of one of them, and what a page write does in the
  memory of the device: the address within the 32-byte page wraps around.
\<close>

function pages :: "nat \<Rightarrow> bytes \<Rightarrow> (nat \<times> bytes) list" where
  "pages a buf = (if buf = [] then [] else (a, take (32 - a mod 32) buf) # pages (a + (32 - a mod 32)) (drop (32 - a mod 32) buf))"
  by pat_completeness auto
termination
proof (relation "measure (\<lambda>(a, buf). length buf)", goal_cases)
  case (2 a buf)
  have "a mod 32 < 32" by simp
  then obtain k where "32 - a mod 32 = Suc k" by (metis Suc_diff_Suc)
  with 2 show ?case by simp
qed simp

declare pages.simps [simp del]

definition page_data :: "bytes \<Rightarrow> u32 list" where
  "page_data bs = (if bs = [] then [] else map ucast (butlast bs) @ [ucast (last bs) OR 0x200])"

definition page_stream :: "nat \<times> bytes \<Rightarrow> u32 list" where
  "page_stream = (\<lambda>(a, bs). [0x1a0, of_nat (a div 256), of_nat (a mod 256)] @ page_data bs)"

definition page_program :: "nat \<times> bytes \<Rightarrow> bytes \<Rightarrow> bytes" where
  "page_program = (\<lambda>(a, bs) mem. fold (\<lambda>i m. m[a div 32 * 32 + (a + i) mod 32 := bs ! i]) [0..<length bs] mem)"

lemma page_program_copy:
  assumes "a mod 32 + length bs \<le> 32" "a + length bs \<le> length mem"
  shows "page_program (a, bs) mem = memcpy_at mem a bs"
proof -
  have "a div 32 * 32 + (a + i) mod 32 = a + i" if "i < length bs" for i
  proof -
    have "(a + i) mod 32 = (a mod 32 + i) mod 32" by (simp add: mod_simps)
    also have "\<dots> = a mod 32 + i" using that assms(1) by simp
    finally show ?thesis by simp
  qed
  then have "page_program (a, bs) mem = fold (\<lambda>i m. m[a + i := bs ! i]) [0..<length bs] mem"
    unfolding page_program_def prod.case by (intro fold_cong) auto
  also have "\<dots> = memcpy_at mem a (map ((!) bs) [0..<length bs])" by (rule fold_store_range [OF assms(2)])
  finally show ?thesis by (simp add: map_nth)
qed

lemma memcpy_at_twice:
  "a + length xs + length ys \<le> length mem \<Longrightarrow> memcpy_at (memcpy_at mem a xs) (a + length xs) ys = memcpy_at mem a (xs @ ys)"
  by (simp add: memcpy_at_def ac_simps)

lemma pages_program: "a + length buf \<le> length mem \<Longrightarrow> fold page_program (pages a buf) mem = memcpy_at mem a buf"
proof (induction a buf arbitrary: mem rule: pages.induct)
  case (1 a buf)
  show ?case
  proof (cases "buf = []")
    case True
    then show ?thesis by (simp add: pages.simps memcpy_at_def)
  next
    case False
    let ?n = "32 - a mod 32"
    have n: "a mod 32 + length (take ?n buf) \<le> 32" by simp
    have p: "page_program (a, take ?n buf) mem = memcpy_at mem a (take ?n buf)"
      using 1(2) by (intro page_program_copy [OF n]) simp
    show ?thesis
    proof (cases "length buf \<le> ?n")
      case True
      then show ?thesis using False p by (subst pages.simps) (simp add: pages.simps)
    next
      case long: False
      then have "fold page_program (pages (a + ?n) (drop ?n buf)) (memcpy_at mem a (take ?n buf)) =
          memcpy_at (memcpy_at mem a (take ?n buf)) (a + ?n) (drop ?n buf)"
        using 1(2) False by (intro 1(1)) simp_all
      also have "\<dots> = memcpy_at mem a buf"
        using memcpy_at_twice [of a "take ?n buf" "drop ?n buf" mem] long 1(2) by (simp add: min_absorb2)
      finally show ?thesis using False p by (subst pages.simps) simp
    qed
  qed
qed

lemma pages_inside:
  "(b, bs) \<in> set (pages a buf) \<Longrightarrow> a \<le> b \<and> b + length bs \<le> a + length buf \<and> b mod 32 + length bs \<le> 32 \<and> bs \<noteq> []"
proof (induction a buf rule: pages.induct)
  case (1 a buf)
  from 1(2) have ne: "buf \<noteq> []" by (auto simp: pages.simps)
  with 1(2) consider "b = a" "bs = take (32 - a mod 32) buf" | "(b, bs) \<in> set (pages (a + (32 - a mod 32)) (drop (32 - a mod 32) buf))"
    by (subst (asm) pages.simps) auto
  then show ?case
  proof cases
    case 1
    then show ?thesis using ne by auto
  next
    case 2
    then have "32 - a mod 32 < length buf" by (cases "drop (32 - a mod 32) buf = []") (auto simp: pages.simps)
    with "1.IH" [OF ne 2] show ?thesis by auto
  qed
qed

section \<open>The stream of a write\<close>

lemma page_data_Cons: "page_data (b # bs) = (ucast b OR (if bs = [] then 0x200 else 0)) # page_data bs"
  by (simp add: page_data_def)

lemma write_page_stream:
  "ee_write_page R bs st = (ok, st') \<Longrightarrow>
   \<exists>ps. tx st' = tx st @ ps \<and> prefix ps (page_data bs) \<and> (ok \<longrightarrow> ps = page_data bs)"
proof (induction bs arbitrary: st)
  case Nil
  then show ?case by (simp add: page_data_def)
next
  case (Cons b bs)
  obtain ok1 s where s: "ee_wait_status R 0x10 0 st = (ok1, s)" by fastforce
  note fifo = fifo_wait_status [OF s]
  let ?w = "ucast b OR (if bs = [] then 0x200 else 0)"
  show ?case
  proof (cases ok1)
    case False
    then show ?thesis using Cons.prems s fifo by (auto intro: exI [of _ "[]"])
  next
    case True
    then have "ee_write_page R bs (ee_wr R 0x108 ?w s) = (ok, st')" using Cons.prems s by simp
    from Cons.IH [OF this] obtain ps where
      "tx st' = tx st @ ?w # ps" "prefix ps (page_data bs)" "ok \<longrightarrow> ps = page_data bs" using fifo by auto
    then show ?thesis unfolding page_data_Cons by (intro exI [of _ "?w # ps"]) auto
  qed
qed

lemma address_parts:
  fixes a :: u16
  shows "unat (a AND 31) = unat a mod 32" "ucast (drop_bit 8 a) = (of_nat (unat a div 256) :: u32)"
    "ucast (a AND 255) = (of_nat (unat a mod 256) :: u32)"
proof -
  have m: "unat (a AND mask n) = unat a mod 2 ^ n" for n
    by (simp only: take_bit_eq_mask [symmetric] unsigned_take_bit_eq) (simp only: take_bit_eq_mod)
  show "unat (a AND 31) = unat a mod 32" using m [of 5] by (simp add: mask_eq_exp_minus_1)
  have "unat (a AND 255) = unat a mod 256" using m [of 8] by (simp add: mask_eq_exp_minus_1)
  then show "ucast (a AND 255) = (of_nat (unat a mod 256) :: u32)"
    by (metis of_nat_unat)
  show "ucast (drop_bit 8 a) = (of_nat (unat a div 256) :: u32)"
    using arg_cong [OF unat_drop_bit_div [of 8 a], of "of_nat :: nat \<Rightarrow> u32"] by simp
qed

lemma write_loop_stream:
  "unat address + length buf \<le> 0x1400 \<Longrightarrow> eeprom_write_loop R address buf st = (ok, st') \<Longrightarrow>
   \<exists>ps. tx st' = tx st @ ps \<and> prefix ps (concat (map page_stream (pages (unat address) buf))) \<and>
     (ok \<longrightarrow> ps = concat (map page_stream (pages (unat address) buf)))"
proof (induction "length buf" arbitrary: address buf st rule: less_induct)
  case 1: less
  show ?case
  proof (cases "buf = []")
    case True
    then show ?thesis using 1(3) by (simp add: eeprom_write_loop.simps pages.simps)
  next
    case False
    let ?a = "unat address" let ?n0 = "32 - ?a mod 32"
    define n where "n = (if length buf < ?n0 then length buf else ?n0)"
    have cut: "take n buf = take ?n0 buf" "drop n buf = drop ?n0 buf" by (auto simp: n_def)
    obtain ok1 s1 where s1: "ee_start R address st = (ok1, s1)" by fastforce
    obtain ok2 s2 where s2: "ee_write_page R (take ?n0 buf) s1 = (ok2, s2)" by fastforce
    obtain ok3 s3 where s3: "ee_finish R s2 = (ok3, s3)" by fastforce
    let ?rest = "eeprom_write_loop R (address + of_nat n) (drop ?n0 buf) (vTaskDelay R 2 s3)"
    have step: "eeprom_write_loop R address buf st =
      (if \<not> ok1 then (False, s1) else if \<not> ok2 then (False, s2) else if \<not> ok3 then (False, s3) else ?rest)"
      by (subst eeprom_write_loop.simps) (simp only: False if_False Let_def address_parts prod.case n_def [symmetric] cut s1 s2 s3)
    let ?head = "page_stream (?a, take ?n0 buf)"
    have all: "concat (map page_stream (pages ?a buf)) = ?head @ concat (map page_stream (pages (?a + ?n0) (drop ?n0 buf)))"
      using False by (subst pages.simps) simp
    have tx1: "tx s1 = tx st @ (if ok1 then [0x1a0, of_nat (?a div 256), of_nat (?a mod 256)] else [])"
      using fifo_start(2) [OF s1] by (simp add: address_parts)
    from write_page_stream [OF s2] obtain ps where
      ps: "tx s2 = tx s1 @ ps" "prefix ps (page_data (take ?n0 buf))" "ok2 \<longrightarrow> ps = page_data (take ?n0 buf)" by blast
    note tx3 = fifo_finish [OF s3]
    show ?thesis
    proof (cases "ok1 \<and> ok2 \<and> ok3")
      case fail: False
      have "tx s2 = tx st @ [0x1a0, of_nat (?a div 256), of_nat (?a mod 256)] @ ps" "prefix ([0x1a0, of_nat (?a div 256), of_nat (?a mod 256)] @ ps) ?head"
        if ok1 using that tx1 ps by (simp_all add: page_stream_def)
      then show ?thesis
        using fail step 1(3) tx1 tx3 ps all
        by (cases ok1; cases ok2; cases ok3; simp; blast?)
    next
      case ok: True
      have tx: "tx (vTaskDelay R 2 s3) = tx st @ ?head" using ok tx1 ps tx3 by (simp add: page_stream_def)
      have rest: "?rest = (ok, st')" using ok step 1(3) by simp
      have more: "drop ?n0 buf = [] \<or> n = ?n0" by (auto simp: n_def)
      show ?thesis
      proof (cases "drop ?n0 buf = []")
        case True
        then show ?thesis using rest tx all by (auto simp: eeprom_write_loop.simps pages.simps)
      next
        case long: False
        then have n: "n = ?n0" "n < length buf" using more by auto
        have "?a + n < 65536" using 1(2) n(2) by linarith
        then have "unat (address + of_nat n) = ?a + n" by (simp add: unat_word_ariths unat_of_nat)
        then have a: "unat (address + of_nat n) = ?a + ?n0" using n(1) by simp
        have "unat (address + of_nat n) + length (drop ?n0 buf) \<le> 0x1400" using a n 1(2) by simp
        moreover have "length (drop ?n0 buf) < length buf"
        proof -
          obtain k where "?n0 = Suc k" by (metis Suc_diff_Suc mod_less_divisor zero_less_numeral)
          with False show ?thesis by simp
        qed
        ultimately have "\<exists>qs. tx st' = tx (vTaskDelay R 2 s3) @ qs \<and> prefix qs (concat (map page_stream (pages (?a + ?n0) (drop ?n0 buf)))) \<and>
            (ok \<longrightarrow> qs = concat (map page_stream (pages (?a + ?n0) (drop ?n0 buf))))"
          using 1(1) [OF _ _ rest] unfolding a by blast
        with tx
        obtain qs where "tx st' = tx st @ ?head @ qs"
          "prefix qs (concat (map page_stream (pages (?a + ?n0) (drop ?n0 buf))))"
          "ok \<longrightarrow> qs = concat (map page_stream (pages (?a + ?n0) (drop ?n0 buf)))"
          by auto
        then show ?thesis unfolding all by (intro exI [of _ "?head @ qs"]) auto
      qed
    qed
  qed
qed

section \<open>The result of a read\<close>

lemma read_burst_rx:
  "ee_read_burst R k acc st = (r, st') \<Longrightarrow>
   \<exists>bs. rx st' = rx st @ bs \<and> tx st' = tx st \<and> (\<forall>out. r = Some out \<longrightarrow> out = acc @ bs \<and> length bs = k)"
proof (induction k arbitrary: acc st)
  case (Suc k)
  obtain ok s where s: "ee_wait_status R 0x40 0 st = (ok, s)" by fastforce
  obtain v t where t: "ee_rd R 0x10c s = (v, t)" by fastforce
  note fifo = fifo_wait_status [OF s] rx_rd [OF t] tx_rd [OF t]
  show ?case
  proof (cases ok)
    case True
    then have "ee_read_burst R k (acc @ [ucast v]) t = (r, st')" using Suc.prems s t by simp
    from Suc.IH [OF this] obtain bs where
      "rx st' = rx st @ ucast v # bs" "tx st' = tx st" "\<forall>out. r = Some out \<longrightarrow> out = acc @ ucast v # bs \<and> length bs = k"
      using fifo by auto
    then show ?thesis by (intro exI [of _ "ucast v # bs"]) auto
  qed (use Suc.prems s fifo in auto)
qed auto

text \<open>The command stream of a read: set the address, then ask for a burst of at most 16 bytes.\<close>

function read_stream :: "nat \<Rightarrow> nat \<Rightarrow> u32 list" where
  "read_stream a n = (if n = 0 then []
     else [0x1a0, of_nat (a div 256), of_nat (a mod 256), 0x1a1, 0x200 OR of_nat (min 16 n)] @ read_stream (a + 16) (n - 16))"
  by pat_completeness auto
termination
  by (relation "measure (\<lambda>(a, n). n)") auto

declare read_stream.simps [simp del]

lemma read_loop_rx:
  "unat address + n \<le> 8192 \<Longrightarrow> eeprom_read_loop R address n acc st = (r, st') \<Longrightarrow>
   \<exists>bs. rx st' = rx st @ bs \<and> (\<exists>ps. tx st' = tx st @ ps \<and> prefix ps (read_stream (unat address) n) \<and>
     (\<forall>out. r = Some out \<longrightarrow> out = acc @ bs \<and> length bs = n \<and> ps = read_stream (unat address) n))"
proof (induction n arbitrary: address acc st rule: less_induct)
  case (less n)
  show ?case
  proof (cases "n = 0")
    case True
    then show ?thesis using less.prems(2) by (auto simp: eeprom_read_loop.simps read_stream.simps)
  next
    case False
    define m where "m = (if 16 < n then 16 else n)"
    have m: "m = min 16 n" "0 < m" "m \<le> n" "n - m = n - 16" using False by (auto simp: m_def)
    obtain ok1 s1 where s1: "ee_start R address st = (ok1, s1)" by fastforce
    define s2 where "s2 = ee_wr R 0x108 (0x200 OR of_nat m) (ee_wr R 0x108 0x1a1 s1)"
    obtain q s3 where s3: "ee_read_burst R m acc s2 = (q, s3)" by fastforce
    obtain ok4 s4 where s4: "ee_wait_status R 4 0 s3 = (ok4, s4)" by fastforce
    obtain v s5 where s5: "ee_rd R 0x20 s4 = (v, s5)" by fastforce
    have step: "eeprom_read_loop R address n acc st =
      (if \<not> ok1 then (None, s1) else case q of None \<Rightarrow> (None, s3)
       | Some acc \<Rightarrow> if \<not> ok4 then (None, ee_wr R 0x40 10 s4) else if v AND 1 \<noteq> 0 then (None, ee_wr R 0x40 10 s5)
           else eeprom_read_loop R (address + of_nat m) (n - m) acc s5)"
      using s3 s4 s5 by (subst eeprom_read_loop.simps)
        (simp add: False s1 Let_def m_def [symmetric] s2_def [symmetric] split: option.split)
    note fifo = fifo_start [OF s1] fifo_wait_status [OF s4] tx_rd [OF s5] rx_rd [OF s5]
    from read_burst_rx [OF s3] obtain bs where
      bs: "rx s3 = rx s2 @ bs" "tx s3 = tx s2" "\<forall>out. q = Some out \<longrightarrow> out = acc @ bs \<and> length bs = m" by blast
    let ?head = "[0x1a0, of_nat (unat address div 256), of_nat (unat address mod 256), 0x1a1, 0x200 OR of_nat m]"
    have stream: "read_stream (unat address) n = ?head @ read_stream (unat address + 16) (n - 16)"
      using False m(1) by (subst read_stream.simps) simp
    have tx2: "tx s2 = tx st @ ?head" "rx s2 = rx st" if ok1 using that fifo by (simp_all add: s2_def address_parts)
    show ?thesis
    proof (cases "ok1 \<and> (\<exists>out. q = Some out) \<and> ok4 \<and> v AND 1 = 0")
      case fail: False
      show ?thesis
      proof (cases ok1)
        case False
        then show ?thesis using step less.prems(2) fifo by (auto intro!: exI [of _ "[]"])
      next
        case True
        then have "r = None" "tx st' = tx st @ ?head" "rx st' = rx st @ bs"
          using fail step less.prems(2) tx2 bs fifo by (auto split: option.splits if_splits)
        then show ?thesis unfolding stream by auto
      qed
    next
      case ok: True
      then obtain out where out: "q = Some out" by blast
      have rest: "eeprom_read_loop R (address + of_nat m) (n - m) out s5 = (r, st')" using ok out step less.prems(2) by simp
      have "unat address + m < 65536" using less.prems(1) m(3) by linarith
      then have a: "unat (address + of_nat m) = unat address + m" by (simp add: unat_word_ariths unat_of_nat)
      have s5: "tx s5 = tx st @ ?head" "rx s5 = rx st @ bs" using ok tx2 bs fifo by auto
      have "n - m < n" "unat (address + of_nat m) + (n - m) \<le> 8192" using m a less.prems(1) by auto
      from less.IH [OF this rest] obtain cs ps where
        "rx st' = rx s5 @ cs" "tx st' = tx s5 @ ps" "prefix ps (read_stream (unat address + m) (n - m))"
        "\<forall>o2. r = Some o2 \<longrightarrow> o2 = out @ cs \<and> length cs = n - m \<and> ps = read_stream (unat address + m) (n - m)"
        unfolding a by blast
      moreover have "read_stream (unat address + m) (n - m) = read_stream (unat address + 16) (n - 16)"
        using m by (cases "16 < n") (auto simp: m_def read_stream.simps)
      ultimately show ?thesis
        using s5 bs out m unfolding stream by (intro exI [of _ "bs @ cs"] conjI exI [of _ "?head @ ps"]) auto
    qed
  qed
qed

section \<open>Properties\<close>

text \<open>
  C27. Writing: outside the two settings slots \<open>eeprom_write\<close> fails without touching the bus. Inside, whatever the
  controller answers, the transmit FIFO receives a prefix of the page writes that program exactly this
  buffer at this address, every page write stays within its 32-byte page and within the slots (the
  address counter of the device wraps inside a page), and all of them when the driver reports success.
\<close>

theorem eeprom_write_programs:
  assumes "eeprom_write R address buf st = (ok, st')"
  defines "inside \<equiv> 0x1000 \<le> unat address \<and> unat address + length buf \<le> 0x1400"
  shows "(\<not> inside \<longrightarrow> \<not> ok \<and> st' = st) \<and>
    (inside \<longrightarrow> (\<exists>ps. tx st' = tx st @ ps \<and> prefix ps (concat (map page_stream (pages (unat address) buf))) \<and>
       (ok \<longrightarrow> ps = concat (map page_stream (pages (unat address) buf))))) \<and>
    (inside \<longrightarrow> (\<forall>mem. length mem = 8192 \<longrightarrow> fold page_program (pages (unat address) buf) mem = memcpy_at mem (unat address) buf)) \<and>
    (\<forall>a bs. (a, bs) \<in> set (pages (unat address) buf) \<longrightarrow>
       unat address \<le> a \<and> a + length bs \<le> unat address + length buf \<and> a mod 32 + length bs \<le> 32)"
proof -
  have w: "inside \<longleftrightarrow> \<not> (address < SETTINGS_SLOT0 \<or> unat SETTINGS_SLOT1 + 512 < unat address + length buf)"
    by (auto simp: inside_def SETTINGS_SLOT0_def SETTINGS_SLOT1_def word_less_nat_alt)
  have "inside \<Longrightarrow> \<exists>ps. tx st' = tx st @ ps \<and> prefix ps (concat (map page_stream (pages (unat address) buf))) \<and>
       (ok \<longrightarrow> ps = concat (map page_stream (pages (unat address) buf)))"
    using write_loop_stream [of address buf R st ok st'] assms(1) w by (simp add: eeprom_write_def inside_def)
  moreover have "\<not> inside \<Longrightarrow> \<not> ok \<and> st' = st" using assms(1) w by (auto simp: eeprom_write_def)
  moreover have "inside \<Longrightarrow> length mem = 8192 \<Longrightarrow> fold page_program (pages (unat address) buf) mem = memcpy_at mem (unat address) buf" for mem
    by (rule pages_program) (simp add: inside_def)
  ultimately show ?thesis using pages_inside by blast
qed

text \<open>A controller that is always ready, for concrete instances.\<close>

definition ready_bus :: "unit rtos" where
  "ready_bus = \<lparr>bsp_in32 = \<lambda>a d. (0x80, d), bsp_out32 = \<lambda>a v d. d, bsp_in8 = \<lambda>a d. (0, d), bsp_out8 = \<lambda>a v d. d,
     bsp_printf = \<lambda>f args d. d, os_ticks = \<lambda>d. (0, d), os_delay = \<lambda>n d. d, os_task_create = \<lambda>n d. (True, d)\<rparr>"

definition idle_machine :: "unit machine" where
  "idle_machine = \<lparr>m_dev = (), m_trace = []\<rparr>"

lemma ready_rd: "fst (ee_rd ready_bus r st) = 0x80"
  by (simp add: ee_rd_def Xil_In32_def ready_bus_def)

lemma ready_wait: "0x80 AND msk = expected \<Longrightarrow> fst (ee_wait_status ready_bus msk expected st)"
proof -
  have n: "(100000 :: nat) = Suc 99999" by simp
  show "0x80 AND msk = expected \<Longrightarrow> fst (ee_wait_status ready_bus msk expected st)"
    unfolding ee_wait_status_def n by (subst ee_wait.simps(2)) (simp add: split_def Let_def ready_rd)
qed

lemma ready_steps:
  "fst (ee_start ready_bus a st)" "fst (ee_finish ready_bus st)" "fst (ee_write_page ready_bus bs st)"
proof -
  show "fst (ee_start ready_bus a st)" by (simp add: ee_start_def split_def Let_def ready_wait)
  show "fst (ee_finish ready_bus st)" by (simp add: ee_finish_def split_def Let_def ready_rd ready_wait)
  show "fst (ee_write_page ready_bus bs st)"
    by (induction bs arbitrary: st) (simp_all add: split_def Let_def ready_wait)
qed

lemma ready_write: "fst (eeprom_write_loop ready_bus a bs st)"
proof (induction "length bs" arbitrary: a bs st rule: less_induct)
  case less
  show ?case
  proof (cases "bs = []")
    case False
    have "unat (a AND 31) < 32" using word_and_le1 [of a 31] by (simp add: word_le_nat_alt)
    then have "length (drop (if length bs < 32 - unat (a AND 31) then length bs else 32 - unat (a AND 31)) bs) < length bs"
      using False by auto
    from less [OF this] show ?thesis by (subst eeprom_write_loop.simps) (simp add: ready_steps split_def Let_def)
  qed (simp add: eeprom_write_loop.simps)
qed

theorem eeprom_write_programs_witness:
  "fst (eeprom_write ready_bus 0x101f [1, 2] idle_machine) \<and>
   tx (snd (eeprom_write ready_bus 0x101f [1, 2] idle_machine)) = [0x1a0, 0x10, 0x1f, 0x201, 0x1a0, 0x10, 0x20, 0x202]"
proof -
  have ok: "fst (eeprom_write ready_bus 0x101f [1, 2] idle_machine)"
    by (simp add: ready_write eeprom_write_def SETTINGS_SLOT0_def SETTINGS_SLOT1_def word_less_nat_alt)
  have "concat (map page_stream (pages 0x101f [1, 2])) = [0x1a0, 0x10, 0x1f, 0x201, 0x1a0, 0x10, 0x20, 0x202]"
    by (simp add: pages.simps page_stream_def page_data_def)
  moreover have "tx idle_machine = []" by (simp add: tx_def idle_machine_def)
  ultimately show ?thesis
    using eeprom_write_programs [of ready_bus "0x101f" "[1, 2]" idle_machine, OF prod.collapse [symmetric]] ok by simp
qed

text \<open>
  C28. Reading: beyond the 8 KiB of the device \<open>eeprom_read\<close> fails without touching the bus. Inside, it asks
  for bursts of at most 16 bytes at consecutive addresses, and a successful read returns exactly the
  requested number of bytes, namely the ones taken from the receive FIFO, in order.
\<close>

theorem eeprom_read_exact:
  assumes "eeprom_read R address n st = (r, st')"
  shows "(8192 < unat address + n \<longrightarrow> r = None \<and> st' = st) \<and>
    (\<forall>out. r = Some out \<longrightarrow> length out = n \<and> rx st' = rx st @ out \<and> tx st' = tx st @ read_stream (unat address) n)"
proof (cases "8192 < unat address + n")
  case True
  then show ?thesis using assms by (auto simp: eeprom_read_def)
next
  case False
  then have "eeprom_read_loop R address n [] st = (r, st')" using assms by (simp add: eeprom_read_def)
  with read_loop_rx [of address n R "[]" st r st'] False show ?thesis by auto
qed

theorem eeprom_read_exact_witness:
  "eeprom_read ready_bus 0x1fff 2 idle_machine = (None, idle_machine) \<and>
   (\<exists>st'. eeprom_read ready_bus 0x1000 1 idle_machine = (Some [0x80], st') \<and> tx st' = [0x1a0, 0x10, 0, 0x1a1, 0x201])"
proof -
  have read: "eeprom_read ready_bus 0x1000 1 idle_machine = (Some [0x80], snd (eeprom_read ready_bus 0x1000 1 idle_machine))"
    by (intro prod_eqI) (simp_all add: eeprom_read_def eeprom_read_loop.simps split_def Let_def ready_rd ready_steps ready_wait)
  have "tx (snd (eeprom_read ready_bus 0x1000 1 idle_machine)) = [0x1a0, 0x10, 0, 0x1a1, 0x201]"
    using eeprom_read_exact [OF read] by (simp add: read_stream.simps tx_def idle_machine_def)
  moreover have "eeprom_read ready_bus 0x1fff 2 idle_machine = (None, idle_machine)"
    by (simp add: eeprom_read_def)
  ultimately show ?thesis using read by blast
qed

section \<open>What the driver leaves alone\<close>

text \<open>
  \<open>ee_only s st\<close>: from \<open>s\<close> to \<open>st\<close> only the controller of the EEPROM was accessed and the task delayed; the variables
  of the component that called the driver are unchanged.
\<close>

fun ee_bus :: "mmio \<Rightarrow> bool" where
  "ee_bus (In32 a v) = (\<exists>r < 0x200. a = EE_IIC + r)"
| "ee_bus (Out32 a v) = (\<exists>r < 0x200. a = EE_IIC + r)"
| "ee_bus (Call f) = (f = ''vTaskDelay'')"
| "ee_bus _ = False"

definition ee_only :: "('d, 'z) machine_scheme \<Rightarrow> ('d, 'z) machine_scheme \<Rightarrow> bool" where
  "ee_only s st \<longleftrightarrow> machine.more st = machine.more s \<and> emits ee_bus s st"

named_theorems ee_only_simps

lemma ee_only_refl [ee_only_simps]: "ee_only s s"
  by (simp add: ee_only_def)

lemma ee_only_step: "ee_only s st \<Longrightarrow> machine.more st' = machine.more st \<Longrightarrow> emits ee_bus st st' \<Longrightarrow> ee_only s st'"
  by (auto simp: ee_only_def intro: emits_trans)

lemma ee_only_rd [ee_only_simps]: "ee_only s st \<Longrightarrow> r < 0x200 \<Longrightarrow> ee_only s (snd (ee_rd R r st))"
  by (erule ee_only_step) (auto simp: ee_rd_def Xil_In32_def log_event_def emits_def split_def Let_def)

lemma ee_only_wr [ee_only_simps]: "ee_only s st \<Longrightarrow> r < 0x200 \<Longrightarrow> ee_only s (ee_wr R r v st)"
  by (erule ee_only_step) (auto simp: ee_wr_def Xil_Out32_def log_event_def emits_def)

lemma ee_only_delay [ee_only_simps]: "ee_only s st \<Longrightarrow> ee_only s (vTaskDelay R n st)"
  by (erule ee_only_step) (auto simp: vTaskDelay_def log_event_def emits_def)

lemma ee_only_wait: "ee_only s st \<Longrightarrow> ee_only s (snd (ee_wait R msk expected n st))"
  by (induction n arbitrary: st) (simp_all add: split_def Let_def ee_only_simps)

lemma ee_only_wait_status [ee_only_simps]: "ee_only s st \<Longrightarrow> ee_only s (snd (ee_wait_status R msk expected st))"
  by (simp add: ee_wait_status_def ee_only_wait)

lemma ee_only_start [ee_only_simps]: "ee_only s st \<Longrightarrow> ee_only s (snd (ee_start R address st))"
  by (simp add: ee_start_def split_def Let_def ee_only_simps)

lemma ee_only_finish [ee_only_simps]: "ee_only s st \<Longrightarrow> ee_only s (snd (ee_finish R st))"
  by (simp add: ee_finish_def split_def Let_def ee_only_simps)

lemma ee_only_burst [ee_only_simps]: "ee_only s st \<Longrightarrow> ee_only s (snd (ee_read_burst R k acc st))"
  by (induction k arbitrary: acc st) (simp_all add: split_def Let_def ee_only_simps)

lemma ee_only_page [ee_only_simps]: "ee_only s st \<Longrightarrow> ee_only s (snd (ee_write_page R bs st))"
  by (induction bs arbitrary: st) (simp_all add: split_def Let_def ee_only_simps)

lemma ee_only_read_loop: "ee_only s st \<Longrightarrow> ee_only s (snd (eeprom_read_loop R address n acc st))"
proof (induction n arbitrary: address acc st rule: less_induct)
  case (less n)
  show ?case
    by (subst eeprom_read_loop.simps) (simp add: split_def Let_def ee_only_simps less.IH less.prems split: option.split)
qed

lemma ee_only_read [ee_only_simps]: "ee_only s st \<Longrightarrow> ee_only s (snd (eeprom_read R address n st))"
  by (simp add: eeprom_read_def ee_only_read_loop)

lemma ee_only_write_loop: "ee_only s st \<Longrightarrow> ee_only s (snd (eeprom_write_loop R address buf st))"
proof (induction "length buf" arbitrary: address buf st rule: less_induct)
  case less
  define n where "n = (if length buf < 32 - unat (address AND 31) then length buf else 32 - unat (address AND 31))"
  have "unat (address AND 31) < 32" by (simp add: address_parts)
  then have shorter: "length (drop n buf) < length buf" if "buf \<noteq> []" using that by (auto simp: n_def)
  show ?case
    by (subst eeprom_write_loop.simps)
      (simp only: Let_def n_def [symmetric], simp add: split_def ee_only_simps less.prems less.hyps [OF shorter])
qed

lemma ee_only_write [ee_only_simps]: "ee_only s st \<Longrightarrow> ee_only s (snd (eeprom_write R address buf st))"
  by (simp add: eeprom_write_def ee_only_write_loop)

lemma ee_only_results:
  "eeprom_read R address n st = (r, st') \<Longrightarrow> ee_only s st \<Longrightarrow> ee_only s st'"
  "eeprom_write R address buf st = (ok, st') \<Longrightarrow> ee_only s st \<Longrightarrow> ee_only s st'"
  using ee_only_read [of s st R address n] ee_only_write [of s st R address buf] by simp_all

lemma ee_only_slots [ee_only_simps]: "ee_only s st \<Longrightarrow> ee_only s (snd (read_slots (eeprom_read R) st))"
  by (auto simp: read_slots_def split: prod.splits option.splits intro: ee_only_results)

lemma ee_only_slots_result: "read_slots (eeprom_read R) st = (r, st') \<Longrightarrow> ee_only s st \<Longrightarrow> ee_only s st'"
  using ee_only_slots [of s st R] by simp

lemma ee_only_save [ee_only_simps]:
  assumes "ee_only s st"
  shows "ee_only s (snd (settings_save v (eeprom_read R) (eeprom_write R) st))"
proof -
  obtain active slots m0 where m0: "read_slots (eeprom_read R) st = ((active, slots), m0)" by (metis prod.exhaust)
  have k0: "ee_only s m0" by (rule ee_only_slots_result [OF m0 assms])
  show ?thesis
  proof (cases "settings_valid v \<and> active \<noteq> -2")
    case True
    define t where "t = (if active = 0 then SETTINGS_SLOT1 else SETTINGS_SLOT0)"
    define b where "b = settings_record (if active < 0 then 0 else load_le32 (drop 8 (slots ! nat active)) + 1) v"
    obtain ok1 m1 where m1: "eeprom_write R (t + 511) [0] m0 = (ok1, m1)" by fastforce
    obtain ok2 m2 where m2: "eeprom_write R t (take 511 b) m1 = (ok2, m2)" by fastforce
    obtain r3 m3 where m3: "eeprom_read R t 512 m2 = (r3, m3)" by fastforce
    obtain ok4 m4 where m4: "eeprom_write R (t + 511) [COMMIT] m3 = (ok4, m4)" by fastforce
    obtain r5 m5 where m5: "eeprom_read R t 512 m4 = (r5, m5)" by fastforce
    note k1 = ee_only_results(2) [OF m1 k0] note k2 = ee_only_results(2) [OF m2 k1] note k3 = ee_only_results(1) [OF m3 k2]
    note k4 = ee_only_results(2) [OF m4 k3] note k5 = ee_only_results(1) [OF m5 k4]
    show ?thesis
      using settings_save_run [OF m0 _ _ t_def [symmetric] b_def [symmetric] m1 m2 m3 m4 m5] True k1 k2 k3 k4 k5 by simp
  qed (use m0 k0 assms in \<open>auto simp: settings_save_def\<close>)
qed

lemma ee_only_load [ee_only_simps]: "ee_only s st \<Longrightarrow> ee_only s (snd (settings_load (eeprom_read R) st))"
  by (simp add: settings_load_def split_def Let_def ee_only_simps)

end
