(* ===== verification/Power_Monitor.thy ===== *)
theory Power_Monitor
  imports Mmio Ina700
begin

text \<open>
  \<open>application/power.c\<close>: the driver of the second AXI IIC controller and the task that samples the two INA700
  monitors once a second. The wait for the controller polls until a tick deadline, so it is a
  \<open>partial_function\<close>: \<open>None\<close> is a wait that never returns. The task is one pass of its endless loop; the state it
  threads through the INA700 functions is the machine, or \<open>None\<close> once a wait has hung.
\<close>

section \<open>The bus\<close>

definition PW_IIC :: u32 where "PW_IIC = 0x40810000"

record 'd power = "'d machine" +
  pw_deadline :: u32

definition pw_rd :: "('d, 'b) rtos_scheme \<Rightarrow> u32 \<Rightarrow> 'd power \<Rightarrow> u32 \<times> 'd power" where
  "pw_rd R r st = Xil_In32 R (PW_IIC + r) st"

definition pw_wr :: "('d, 'b) rtos_scheme \<Rightarrow> u32 \<Rightarrow> u32 \<Rightarrow> 'd power \<Rightarrow> 'd power" where
  "pw_wr R r v st = Xil_Out32 R (PW_IIC + r) v st"

partial_function (option) pw_wait_status ::
  "('d, 'b) rtos_scheme \<Rightarrow> u32 \<Rightarrow> u32 \<Rightarrow> u32 \<Rightarrow> 'd power \<Rightarrow> (bool \<times> 'd power) option" where
  "pw_wait_status R msk expected errors st =
     (let (v, st) = pw_rd R 0x20 st
      in if v AND errors \<noteq> 0 then Some (False, st)
      else let (v, st) = pw_rd R 0x104 st
      in if v AND msk = expected then Some (True, st)
      else let (now, st) = xTaskGetTickCount R st
      in if 10 \<le> now - pw_deadline st then Some (False, st)
      else pw_wait_status R msk expected errors (vTaskDelay R 1 st))"

definition pw_begin :: "('d, 'b) rtos_scheme \<Rightarrow> u8 \<Rightarrow> u8 \<Rightarrow> 'd power \<Rightarrow> (bool \<times> 'd power) option" where
  "pw_begin R address reg st =
     (let (now, st) = xTaskGetTickCount R st; st = st\<lparr>pw_deadline := now\<rparr>;
          st = pw_wr R 0x40 10 st; st = pw_wr R 0x120 15 st; st = pw_wr R 0x100 3 st; st = pw_wr R 0x100 1 st;
          (v, st) = pw_rd R 0x20 st; st = pw_wr R 0x20 v st
      in case pw_wait_status R 4 0 1 st of
        None \<Rightarrow> None
      | Some (ok, st) \<Rightarrow>
          if \<not> ok then Some (False, st)
          else Some (True, pw_wr R 0x108 (ucast reg) (pw_wr R 0x108 (0x100 OR push_bit 1 (ucast address)) st)))"

text \<open>The label \<open>fail\<close> of both transactions.\<close>

definition pw_fail :: "('d, 'b) rtos_scheme \<Rightarrow> 'd power \<Rightarrow> 'd power" where
  "pw_fail R st = pw_wr R 0x40 10 st"

fun pw_read_bytes :: "('d, 'b) rtos_scheme \<Rightarrow> nat \<Rightarrow> bytes \<Rightarrow> 'd power \<Rightarrow> (bytes option \<times> 'd power) option" where
  "pw_read_bytes R 0 acc st = Some (Some acc, st)"
| "pw_read_bytes R (Suc k) acc st =
     (case pw_wait_status R 0x40 0 1 st of
        None \<Rightarrow> None
      | Some (ok, st) \<Rightarrow>
          if \<not> ok then Some (None, pw_fail R st)
          else let (v, st) = pw_rd R 0x10c st in pw_read_bytes R k (acc @ [ucast v]) st)"

definition read_reg :: "('d, 'b) rtos_scheme \<Rightarrow> u8 \<Rightarrow> u8 \<Rightarrow> nat \<Rightarrow> 'd power \<Rightarrow> (bytes option \<times> 'd power) option" where
  "read_reg R address reg n st =
     (if n = 0 \<or> 3 < n then Some (None, pw_fail R st)
      else case pw_begin R address reg st of
        None \<Rightarrow> None
      | Some (ok, st) \<Rightarrow>
     (if \<not> ok then Some (None, pw_fail R st)
      else case pw_wait_status R 0x80 0x80 3 st of
        None \<Rightarrow> None
      | Some (ok, st) \<Rightarrow>
     (if \<not> ok then Some (None, pw_fail R st)
      else let st = pw_wr R 0x108 (0x101 OR push_bit 1 (ucast address)) st; st = pw_wr R 0x108 (0x200 OR of_nat n) st
      in case pw_read_bytes R n [] st of
        None \<Rightarrow> None
      | Some (None, st) \<Rightarrow> Some (None, st)
      | Some (Some data, st) \<Rightarrow>
     (case pw_wait_status R 4 0 1 st of
        None \<Rightarrow> None
      | Some (ok, st) \<Rightarrow> if \<not> ok then Some (None, pw_fail R st) else Some (Some data, st)))))"

definition write_reg :: "('d, 'b) rtos_scheme \<Rightarrow> u8 \<Rightarrow> u8 \<Rightarrow> u16 \<Rightarrow> 'd power \<Rightarrow> (bool \<times> 'd power) option" where
  "write_reg R address reg val st =
     (case pw_begin R address reg st of
        None \<Rightarrow> None
      | Some (ok, st) \<Rightarrow>
     (if \<not> ok then Some (False, pw_fail R st)
      else let st = pw_wr R 0x108 (ucast (drop_bit 8 val)) st; st = pw_wr R 0x108 (0x200 OR ucast (val AND 255)) st
      in case pw_wait_status R 0x80 0x80 3 st of
        None \<Rightarrow> None
      | Some (ok, st) \<Rightarrow>
     (if \<not> ok then Some (False, pw_fail R st)
      else case pw_wait_status R 4 0 3 st of
        None \<Rightarrow> None
      | Some (ok, st) \<Rightarrow> if \<not> ok then Some (False, pw_fail R st) else Some (True, st))))"

section \<open>The task\<close>

text \<open>The two transactions as the function pointers of the INA700 code.\<close>

definition read_fn :: "('d, 'b) rtos_scheme \<Rightarrow> 'd power option ina700_read" where
  "read_fn R address reg n m =
     (case m of None \<Rightarrow> (None, None)
      | Some st \<Rightarrow> (case read_reg R address reg n st of None \<Rightarrow> (None, None) | Some (r, st) \<Rightarrow> (r, Some st)))"

definition write_fn :: "('d, 'b) rtos_scheme \<Rightarrow> 'd power option ina700_write" where
  "write_fn R address reg val m =
     (case m of None \<Rightarrow> (False, None)
      | Some st \<Rightarrow> (case write_reg R address reg val st of None \<Rightarrow> (False, None) | Some (ok, st) \<Rightarrow> (ok, Some st)))"

definition ticks_fn :: "('d, 'b) rtos_scheme \<Rightarrow> 'd power option \<Rightarrow> u32 \<times> 'd power option" where
  "ticks_fn R m = (case m of None \<Rightarrow> (0, None) | Some st \<Rightarrow> (let (n, st) = xTaskGetTickCount R st in (n, Some st)))"

text \<open>One sensor in one pass (10 ms a tick).\<close>

definition power_sensor ::
  "('d, 'b) rtos_scheme \<Rightarrow> u8 \<Rightarrow> ina700_sample \<times> bool \<Rightarrow> 'd power option \<Rightarrow> (ina700_sample \<times> bool) \<times> 'd power option" where
  "power_sensor R address = (\<lambda>(sample, ready) m.
     (let sample = sample\<lparr>sm_valid := False\<rparr>
      in if \<not> ready then
           (let (rc, m) = ina700_init address (read_fn R) (write_fn R) m
            in ((if rc = 0 then sample else sample\<lparr>sm_errors := sm_errors sample + 1\<rparr>, rc = 0), m))
         else
           (let ((rc, sample), m) = ina700_sample_read address (read_fn R) sample m
            in if rc \<noteq> 0 then ((sample\<lparr>sm_errors := sm_errors sample + 1\<rparr>, False), m)
            else let (now, m) = ticks_fn R m in ((sample\<lparr>sm_sampled_ms := now * 10\<rparr>, True), m))))"

definition power_pass ::
  "('d, 'b) rtos_scheme \<Rightarrow> (ina700_sample list \<Rightarrow> 'd \<Rightarrow> 'd) \<Rightarrow> ('d \<Rightarrow> 'd) \<Rightarrow>
   (ina700_sample \<times> bool) \<times> (ina700_sample \<times> bool) \<Rightarrow> 'd power option \<Rightarrow>
   ((ina700_sample \<times> bool) \<times> (ina700_sample \<times> bool)) \<times> 'd power option" where
  "power_pass R telemetry_power delay_until = (\<lambda>(s0, s1) m.
     (let (s0, m) = power_sensor R 0x44 s0 m; (s1, m) = power_sensor R 0x45 s1 m;
          m = map_option (\<lambda>st. log_event (Call ''telemetry_power'') (st\<lparr>m_dev := telemetry_power [fst s0, fst s1] (m_dev st)\<rparr>)) m;
          m = map_option (\<lambda>st. st\<lparr>m_dev := delay_until (m_dev st)\<rparr>) m
      in ((s0, s1), m)))"

text \<open>The start of the task, only on a hardware version that has the second controller; \<open>None\<close> is the failed assertion.\<close>

definition power_start :: "('d, 'b) rtos_scheme \<Rightarrow> ('d, 'z) machine_scheme \<Rightarrow> ('d, 'z) machine_scheme option" where
  "power_start R st =
     (let (v, st) = Xil_In32 R MINER_HW_VERSION_REG st
      in if v \<noteq> 0x01020000 then Some st
         else let (ok, st) = xTaskCreate R ''power'' st in if ok then Some st else None)"

section \<open>Every transaction ends\<close>

text \<open>
  What the driver relies on: reading the tick counter gives the time, a delay of one tick advances the time, and no single
  operation takes more than \<open>2 ^ 29\<close> ticks (62 days).
\<close>

definition clock :: "('d, 'b) rtos_scheme \<Rightarrow> ('d \<Rightarrow> nat) \<Rightarrow> bool" where
  "clock R t \<longleftrightarrow>
     (\<forall>d. fst (os_ticks R d) = of_nat (t d) \<and> t d \<le> t (snd (os_ticks R d)) \<and> t (snd (os_ticks R d)) \<le> t d + 2 ^ 29) \<and>
     (\<forall>a d. t d \<le> t (snd (bsp_in32 R a d)) \<and> t (snd (bsp_in32 R a d)) \<le> t d + 2 ^ 29) \<and>
     (\<forall>d. t d + 1 \<le> t (os_delay R 1 d) \<and> t (os_delay R 1 d) \<le> t d + 2 ^ 29)"

abbreviation elapsed :: "('d \<Rightarrow> nat) \<Rightarrow> 'd power \<Rightarrow> nat" where
  "elapsed t st \<equiv> unat ((of_nat (t (m_dev st)) :: u32) - pw_deadline st)"

lemma clock_rd:
  assumes "clock R t" "pw_rd R r st = (v, st')"
  shows "pw_deadline st' = pw_deadline st \<and> t (m_dev st) \<le> t (m_dev st') \<and> t (m_dev st') \<le> t (m_dev st) + 2 ^ 29"
proof -
  obtain d where d: "bsp_in32 R (PW_IIC + r) (m_dev st) = (v, d)" "m_dev st' = d" "pw_deadline st' = pw_deadline st"
    using assms(2) by (auto simp: pw_rd_def Xil_In32_def log_event_def split: prod.splits)
  moreover from assms(1) have "t (m_dev st) \<le> t (snd (bsp_in32 R (PW_IIC + r) (m_dev st)))"
    "t (snd (bsp_in32 R (PW_IIC + r) (m_dev st))) \<le> t (m_dev st) + 2 ^ 29" by (simp_all only: clock_def)
  ultimately show ?thesis by simp
qed

lemma elapsed_add:
  assumes "t (m_dev st') = t (m_dev st) + k" "pw_deadline st' = pw_deadline st" "elapsed t st + k < 2 ^ 32"
  shows "elapsed t st' = elapsed t st + k"
proof -
  have "(of_nat (t (m_dev st')) :: u32) - pw_deadline st' = (of_nat (t (m_dev st)) - pw_deadline st) + of_nat k"
    using assms(1,2) by simp
  then show ?thesis using assms(3) by (simp add: unat_word_ariths unat_of_nat)
qed

text \<open>One pass of the wait: it returns, or the next pass starts later and at most \<open>2 ^ 31\<close> after the deadline's start.\<close>

lemma wait_pass:
  assumes clk: "clock R t"
  obtains r where "pw_wait_status R msk expected errors st = Some r"
  | st' where "pw_wait_status R msk expected errors st = pw_wait_status R msk expected errors st'"
      "elapsed t st' \<le> 2 ^ 31" "elapsed t st \<le> 2 ^ 31 \<Longrightarrow> elapsed t st < 10 \<and> elapsed t st < elapsed t st'"
proof -
  obtain v1 s1 where s1: "pw_rd R 0x20 st = (v1, s1)" by fastforce
  obtain v2 s2 where s2: "pw_rd R 0x104 s1 = (v2, s2)" by fastforce
  obtain now s3 where s3: "xTaskGetTickCount R s2 = (now, s3)" by fastforce
  let ?s4 = "vTaskDelay R 1 s3"
  obtain d3 where d3: "os_ticks R (m_dev s2) = (now, d3)" "s3 = s2\<lparr>m_dev := d3\<rparr>"
    using s3 by (auto simp: xTaskGetTickCount_def split: prod.splits)
  have tick: "now = of_nat (t (m_dev s2))" "t (m_dev s2) \<le> t d3" "t d3 \<le> t (m_dev s2) + 2 ^ 29"
    using clk d3(1) by (simp_all only: clock_def) (metis fst_conv snd_conv)+
  have delay: "t d3 + 1 \<le> t (m_dev ?s4)" "t (m_dev ?s4) \<le> t d3 + 2 ^ 29" "pw_deadline ?s4 = pw_deadline s2"
    using clk d3(2) by (simp_all add: clock_def vTaskDelay_def log_event_def)
  note r1 = clock_rd [OF clk s1] and r2 = clock_rd [OF clk s2]
  have unfold: "pw_wait_status R msk expected errors st =
    (if v1 AND errors \<noteq> 0 then Some (False, s1) else if v2 AND msk = expected then Some (True, s2)
     else if 10 \<le> now - pw_deadline s3 then Some (False, s3) else pw_wait_status R msk expected errors ?s4)"
    by (subst pw_wait_status.simps) (simp add: s1 s2 s3)
  show thesis
  proof (cases "v1 AND errors \<noteq> 0 \<or> v2 AND msk = expected \<or> 10 \<le> now - pw_deadline s3")
    case True
    then show thesis using unfold that(1) by (auto split: if_splits)
  next
    case False
    then have "\<not> 10 \<le> (of_nat (t (m_dev s2)) :: u32) - pw_deadline s2" using tick(1) d3(2) by simp
    then have e2: "elapsed t s2 < 10" by (simp add: word_le_nat_alt)
    define k where "k = t (m_dev ?s4) - t (m_dev s2)"
    have k: "t (m_dev ?s4) = t (m_dev s2) + k" "1 \<le> k" "k \<le> 2 ^ 30" using tick delay by (auto simp: k_def)
    define j where "j = t (m_dev s2) - t (m_dev st)"
    have j: "t (m_dev s2) = t (m_dev st) + j" "j \<le> 2 ^ 30" using r1 r2 by (auto simp: j_def)
    have e4: "elapsed t ?s4 = elapsed t s2 + k" using e2 k delay(3) by (intro elapsed_add) auto
    have "elapsed t ?s4 \<le> 2 ^ 31" using e4 e2 k(3) by simp
    moreover have "elapsed t st < 10 \<and> elapsed t st < elapsed t ?s4" if "elapsed t st \<le> 2 ^ 31"
    proof -
      have "elapsed t s2 = elapsed t st + j" using that j r1 r2 by (intro elapsed_add) auto
      then show ?thesis using e2 e4 k(2) by linarith
    qed
    moreover have "pw_wait_status R msk expected errors st = pw_wait_status R msk expected errors ?s4"
      using False unfold by simp
    ultimately show thesis using that(2) by blast
  qed
qed

lemma wait_ends_soon:
  assumes "clock R t" "elapsed t st \<le> 2 ^ 31"
  shows "\<exists>r. pw_wait_status R msk expected errors st = Some r"
  using assms(2)
proof (induction "10 - elapsed t st" arbitrary: st rule: less_induct)
  case less
  show ?case
  proof (cases rule: wait_pass [OF assms(1), of msk expected errors st])
    case (2 st')
    with less.prems have "10 - elapsed t st' < 10 - elapsed t st" by linarith
    from less.hyps [OF this 2(2)] 2(1) show ?thesis by simp
  qed blast
qed

lemma wait_ends:
  assumes "clock R t"
  shows "\<exists>ok st'. pw_wait_status R msk expected errors st = Some (ok, st')"
proof (cases rule: wait_pass [OF assms, of msk expected errors st])
  case (1 r)
  then show ?thesis by (cases r) simp
next
  case (2 st')
  then show ?thesis using wait_ends_soon [OF assms 2(2), of msk expected errors] by auto
qed

lemma begin_ends: "clock R t \<Longrightarrow> \<exists>ok st'. pw_begin R address reg st = Some (ok, st')"
proof -
  assume clk: "clock R t"
  define s where "s = (let (now, st) = xTaskGetTickCount R st; st = st\<lparr>pw_deadline := now\<rparr>;
          st = pw_wr R 0x40 10 st; st = pw_wr R 0x120 15 st; st = pw_wr R 0x100 3 st; st = pw_wr R 0x100 1 st;
          (v, st) = pw_rd R 0x20 st in pw_wr R 0x20 v st)"
  obtain ok s' where w: "pw_wait_status R 4 0 1 s = Some (ok, s')" using wait_ends [OF clk] by blast
  then show ?thesis by (cases ok) (auto simp: pw_begin_def s_def Let_def split_def)
qed

lemma read_bytes_end: "clock R t \<Longrightarrow> \<exists>r st'. pw_read_bytes R k acc st = Some (r, st')"
proof (induction k arbitrary: acc st)
  case (Suc k)
  obtain ok s where w: "pw_wait_status R 0x40 0 1 st = Some (ok, s)" using wait_ends [OF Suc.prems] by blast
  obtain v s' where "pw_rd R 0x10c s = (v, s')" by fastforce
  with w Suc show ?case by simp
qed simp

lemma read_reg_ends: "clock R t \<Longrightarrow> \<exists>r st'. read_reg R address reg n st = Some (r, st')"
proof -
  assume clk: "clock R t"
  note ends = begin_ends [OF clk] wait_ends [OF clk] read_bytes_end [OF clk]
  obtain ok1 s1 where s1: "pw_begin R address reg st = Some (ok1, s1)" using ends by blast
  obtain ok2 s2 where s2: "pw_wait_status R 0x80 0x80 3 s1 = Some (ok2, s2)" using ends by blast
  let ?s3 = "pw_wr R 0x108 (0x200 OR of_nat n) (pw_wr R 0x108 (0x101 OR push_bit 1 (ucast address)) s2)"
  obtain r s4 where s4: "pw_read_bytes R n [] ?s3 = Some (r, s4)" using ends by blast
  obtain ok5 s5 where s5: "pw_wait_status R 4 0 1 s4 = Some (ok5, s5)" using ends by blast
  show ?thesis using s1 s2 s4 s5 by (auto simp: read_reg_def Let_def split: option.split)
qed

lemma write_reg_ends: "clock R t \<Longrightarrow> \<exists>ok st'. write_reg R address reg val st = Some (ok, st')"
proof -
  assume clk: "clock R t"
  note ends = begin_ends [OF clk] wait_ends [OF clk]
  obtain ok1 s1 where s1: "pw_begin R address reg st = Some (ok1, s1)" using ends by blast
  let ?s2 = "pw_wr R 0x108 (0x200 OR ucast (val AND 255)) (pw_wr R 0x108 (ucast (drop_bit 8 val)) s1)"
  obtain ok3 s3 where s3: "pw_wait_status R 0x80 0x80 3 ?s2 = Some (ok3, s3)" using ends by blast
  obtain ok4 s4 where s4: "pw_wait_status R 4 0 3 s3 = Some (ok4, s4)" using ends by blast
  show ?thesis using s1 s3 s4 by (auto simp: write_reg_def Let_def)
qed

section \<open>A predicate kept by the two transactions is kept by a pass\<close>

lemma ina700_init_keeps:
  assumes "\<And>r n m. P m \<Longrightarrow> P (snd (read address r n m))" "\<And>r v m. P m \<Longrightarrow> P (snd (write address r v m))" "P m"
  shows "P (snd (ina700_init address read write m))"
  using assms by (simp add: ina700_init_def split_def Let_def)

lemma ina700_sample_keeps:
  assumes "\<And>r n m. P m \<Longrightarrow> P (snd (read address r n m))" "P m"
  shows "P (snd (ina700_sample_read address read out m))"
  using assms by (simp add: ina700_sample_read_def split_def Let_def)

lemma fn_alive:
  assumes "clock R t" "m \<noteq> None"
  shows "snd (read_fn R a r n m) \<noteq> None" "snd (write_fn R a r v m) \<noteq> None" "snd (ticks_fn R m) \<noteq> None"
proof -
  from assms(2) obtain st where m: "m = Some st" by blast
  show "snd (read_fn R a r n m) \<noteq> None" using read_reg_ends [OF assms(1), of a r n st] m by (auto simp: read_fn_def)
  show "snd (write_fn R a r v m) \<noteq> None" using write_reg_ends [OF assms(1), of a r v st] m by (auto simp: write_fn_def)
  show "snd (ticks_fn R m) \<noteq> None" using m by (simp add: ticks_fn_def split_def Let_def)
qed

lemma power_sensor_alive: "clock R t \<Longrightarrow> m \<noteq> None \<Longrightarrow> snd (power_sensor R address s m) \<noteq> None"
  using ina700_init_keeps [of "\<lambda>m. m \<noteq> None" "read_fn R" address "write_fn R" m]
    ina700_sample_keeps [of "\<lambda>m. m \<noteq> None" "read_fn R" address m] fn_alive [of R t]
  by (simp add: power_sensor_def split_def Let_def)

section \<open>Where the bus traffic goes\<close>

text \<open>
  Registers of this controller only; and a value stored in its transmit FIFO with the start bit (8) addresses the
  given device.
\<close>

fun own_bus :: "u8 \<Rightarrow> mmio \<Rightarrow> bool" where
  "own_bus device (Out32 a v) \<longleftrightarrow> PW_IIC \<le> a \<and> a \<le> PW_IIC + 0x120 \<and>
     (a = PW_IIC + 0x108 \<longrightarrow> bit v 8 \<longrightarrow> v = 0x100 OR push_bit 1 (ucast device) \<or> v = 0x101 OR push_bit 1 (ucast device))"
| "own_bus device (In32 a v) \<longleftrightarrow> PW_IIC \<le> a \<and> a \<le> PW_IIC + 0x120"
| "own_bus device (Call s) \<longleftrightarrow> s = ''vTaskDelay''"
| "own_bus device _ \<longleftrightarrow> False"

lemma own_rd: "r \<le> 0x120 \<Longrightarrow> pw_rd R r st = (v, st') \<Longrightarrow> emits (own_bus device) st st'"
proof -
  assume r: "r \<le> 0x120" and st': "pw_rd R r st = (v, st')"
  have "PW_IIC \<le> PW_IIC + r \<and> PW_IIC + r \<le> PW_IIC + 0x120"
    using r unat_u32_less [of r] by (simp add: PW_IIC_def word_le_nat_alt unat_word_ariths)
  with st' show ?thesis by (auto simp: pw_rd_def intro: emits_In32)
qed

lemma own_wr:
  assumes "r \<le> 0x120" "r = 0x108 \<Longrightarrow> bit v 8 \<Longrightarrow> v = 0x100 OR push_bit 1 (ucast device) \<or> v = 0x101 OR push_bit 1 (ucast device)"
  shows "emits (own_bus device) st (pw_wr R r v st)"
proof -
  have "PW_IIC \<le> PW_IIC + r \<and> PW_IIC + r \<le> PW_IIC + 0x120"
    using assms(1) unat_u32_less [of r] by (simp add: PW_IIC_def word_le_nat_alt unat_word_ariths)
  with assms(2) show ?thesis by (auto simp: pw_wr_def intro!: emits_Out32)
qed

lemma own_ticks: "xTaskGetTickCount R st = (n, st') \<Longrightarrow> emits (own_bus device) st st'"
  by (rule emits_ticks)

lemma own_delay: "emits (own_bus device) st (vTaskDelay R n st)"
  by (simp add: emits_delay)

lemma own_wait_pair:
  assumes "pw_wait_status R msk expected errors st = Some y"
  shows "emits (own_bus device) st (snd y)"
proof (rule pw_wait_status.raw_induct [OF _ assms, where P = "\<lambda>R msk expected errors st y. emits (own_bus device) st (snd y)"])
  fix wait R msk expected errors st y
  assume IH: "\<And>R msk expected errors st y. wait R msk expected errors st = Some y \<Longrightarrow> emits (own_bus device) st (snd y)"
    and body: "(let (v, st) = pw_rd R 0x20 st in if v AND errors \<noteq> 0 then Some (False, st)
      else let (v, st) = pw_rd R 0x104 st in if v AND msk = expected then Some (True, st)
      else let (now, st) = xTaskGetTickCount R st in if 10 \<le> now - pw_deadline st then Some (False, st)
      else wait R msk expected errors (vTaskDelay R 1 st)) = Some y"
  obtain v1 s1 where s1: "pw_rd R 0x20 st = (v1, s1)" by fastforce
  obtain v2 s2 where s2: "pw_rd R 0x104 s1 = (v2, s2)" by fastforce
  obtain now s3 where s3: "xTaskGetTickCount R s2 = (now, s3)" by fastforce
  have e: "emits (own_bus device) st s1" "emits (own_bus device) s1 s2" "emits (own_bus device) s2 s3"
    "emits (own_bus device) s3 (vTaskDelay R 1 s3)"
    using own_rd [OF _ s1] own_rd [OF _ s2] own_ticks [OF s3] own_delay by (simp_all add: word_le_nat_alt)
  note chain = e(1) emits_trans [OF e(1,2)] emits_trans [OF emits_trans [OF e(1,2)] e(3)]
    emits_trans [OF emits_trans [OF emits_trans [OF e(1,2)] e(3)] e(4)]
  show "emits (own_bus device) st (snd y)"
    using body s1 s2 s3 chain IH [of R msk expected errors "vTaskDelay R 1 s3" y] emits_trans
    by (auto split: if_splits)
qed

lemma own_wait: "pw_wait_status R msk expected errors st = Some (ok, st') \<Longrightarrow> emits (own_bus device) st st'"
  using own_wait_pair [of R msk expected errors st "(ok, st')"] by simp

text \<open>The values that are stored in the transmit FIFO without a start bit.\<close>

lemma no_start_bit:
  "\<not> bit (ucast (b :: u8) :: u32) 8" "\<not> bit (0x200 OR ucast (v AND 255 :: u16) :: u32) 8" "\<not> bit (ucast (drop_bit 8 (v :: u16)) :: u32) 8"
  "n \<le> 3 \<Longrightarrow> \<not> bit (0x200 OR of_nat n :: u32) 8"
proof -
  show "\<not> bit (ucast b :: u32) 8" by (simp add: bit_simps)
  have "\<not> bit (v AND 255) 8" by (simp add: bit_and_iff)
  then show "\<not> bit (0x200 OR ucast (v AND 255) :: u32) 8" by (simp add: bit_or_iff bit_ucast_iff)
  show "\<not> bit (ucast (drop_bit 8 v) :: u32) 8" using bit_imp_le_length [of v 16] by (auto simp: bit_simps)
  assume "n \<le> 3"
  then consider "n = 0" | "n = 1" | "n = 2" | "n = 3" by linarith
  then show "\<not> bit (0x200 OR of_nat n :: u32) 8" by cases (simp_all add: bit_or_iff)
qed

lemma own_begin: "pw_begin R device reg st = Some (ok, st') \<Longrightarrow> emits (own_bus device) st st'"
proof -
  assume b: "pw_begin R device reg st = Some (ok, st')"
  obtain now s1 where s1: "xTaskGetTickCount R st = (now, s1)" by fastforce
  let ?s2 = "pw_wr R 0x100 1 (pw_wr R 0x100 3 (pw_wr R 0x120 15 (pw_wr R 0x40 10 (s1\<lparr>pw_deadline := now\<rparr>))))"
  obtain v s3 where s3: "pw_rd R 0x20 ?s2 = (v, s3)" by fastforce
  obtain ok4 s4 where s4: "pw_wait_status R 4 0 1 (pw_wr R 0x20 v s3) = Some (ok4, s4)"
    using b s1 s3 by (auto simp: pw_begin_def Let_def split: option.splits)
  note own = own_wr [of _ _ device]
  have "emits (own_bus device) st (s1\<lparr>pw_deadline := now\<rparr>)" using own_ticks [OF s1] by (simp add: emits_def)
  also have "emits (own_bus device) \<dots> ?s2" by (intro emits_trans [OF own emits_trans [OF own emits_trans [OF own own]]]) (simp_all add: word_le_nat_alt)
  also have "emits (own_bus device) \<dots> s3" by (rule own_rd [OF _ s3]) (simp add: word_le_nat_alt)
  also have "emits (own_bus device) \<dots> (pw_wr R 0x20 v s3)" by (rule own) (simp_all add: word_le_nat_alt)
  also have "emits (own_bus device) \<dots> s4" by (rule own_wait [OF s4])
  finally have e4: "emits (own_bus device) st s4" .
  have "emits (own_bus device) s4 (pw_wr R 0x108 (ucast reg) (pw_wr R 0x108 (0x100 OR push_bit 1 (ucast device)) s4))"
    by (intro emits_trans [OF own own]) (simp_all add: word_le_nat_alt no_start_bit)
  from emits_trans [OF e4 this] e4 b s1 s3 s4 show ?thesis by (auto simp: pw_begin_def Let_def split: if_splits)
qed

lemma own_fail: "emits (own_bus device) st (pw_fail R st)"
  unfolding pw_fail_def by (rule own_wr) (simp_all add: word_le_nat_alt)

lemma own_read_bytes: "pw_read_bytes R k acc st = Some (r, st') \<Longrightarrow> emits (own_bus device) st st'"
proof (induction k arbitrary: acc st)
  case (Suc k)
  then obtain ok s where w: "pw_wait_status R 0x40 0 1 st = Some (ok, s)" by (auto split: option.splits)
  obtain v s' where s': "pw_rd R 0x10c s = (v, s')" by fastforce
  have e: "emits (own_bus device) st s" "emits (own_bus device) s s'"
    using own_wait [OF w] own_rd [OF _ s'] by (simp_all add: word_le_nat_alt)
  show ?case
  proof (cases ok)
    case True
    then have "emits (own_bus device) s' st'" using Suc w s' by simp
    then show ?thesis using emits_trans [OF e] emits_trans by blast
  next
    case False
    then have "st' = pw_fail R s" using Suc.prems w by simp
    then show ?thesis using emits_trans [OF e(1) own_fail] by simp
  qed
qed simp

lemma own_read_reg:
  assumes "read_reg R device reg n st = Some (r, st')"
  shows "emits (own_bus device) st st'"
proof (cases "n = 0 \<or> 3 < n")
  case True
  then show ?thesis using assms own_fail by (auto simp: read_reg_def)
next
  case n: False
  let ?ok = "emits (own_bus device)"
  obtain ok1 s1 where s1: "pw_begin R device reg st = Some (ok1, s1)"
    using assms n by (auto simp: read_reg_def split: option.splits)
  have e1: "?ok st s1" by (rule own_begin [OF s1])
  show ?thesis
  proof (cases ok1)
    case False
    then show ?thesis using assms n s1 emits_trans [OF e1 own_fail] by (auto simp: read_reg_def)
  next
    case ok1: True
    obtain ok2 s2 where s2: "pw_wait_status R 0x80 0x80 3 s1 = Some (ok2, s2)"
      using assms n s1 ok1 by (auto simp: read_reg_def split: option.splits)
    have e2: "?ok st s2" by (rule emits_trans [OF e1 own_wait [OF s2]])
    show ?thesis
    proof (cases ok2)
      case False
      then show ?thesis using assms n s1 ok1 s2 emits_trans [OF e2 own_fail] by (auto simp: read_reg_def)
    next
      case ok2: True
      let ?s3 = "pw_wr R 0x108 (0x200 OR of_nat n) (pw_wr R 0x108 (0x101 OR push_bit 1 (ucast device)) s2)"
      have "?ok s2 ?s3"
        using no_start_bit(4) [of n] n by (intro emits_trans [OF own_wr own_wr]) (auto simp: word_le_nat_alt)
      then have e3: "?ok st ?s3" by (rule emits_trans [OF e2])
      obtain q s4 where s4: "pw_read_bytes R n [] ?s3 = Some (q, s4)"
        using assms n s1 ok1 s2 ok2 by (auto simp: read_reg_def Let_def split: option.splits)
      have e4: "?ok st s4" by (rule emits_trans [OF e3 own_read_bytes [OF s4]])
      show ?thesis
      proof (cases "pw_wait_status R 4 0 1 s4")
        case None
        then show ?thesis using assms n s1 ok1 s2 ok2 s4 e4 by (auto simp: read_reg_def Let_def split: option.splits)
      next
        case (Some x)
        obtain ok5 s5 where x: "x = (ok5, s5)" by fastforce
        have e5: "?ok st s5" using emits_trans [OF e4 own_wait] Some x by blast
        show ?thesis using assms n s1 ok1 s2 ok2 s4 e4 e5 emits_trans [OF e5 own_fail] Some x
          by (auto simp: read_reg_def Let_def split: option.splits if_splits)
      qed
    qed
  qed
qed

lemma own_write_reg:
  assumes "write_reg R device reg val st = Some (ok, st')"
  shows "emits (own_bus device) st st'"
proof -
  let ?ok = "emits (own_bus device)"
  obtain ok1 s1 where s1: "pw_begin R device reg st = Some (ok1, s1)"
    using assms by (auto simp: write_reg_def split: option.splits)
  have e1: "?ok st s1" by (rule own_begin [OF s1])
  let ?s2 = "pw_wr R 0x108 (0x200 OR ucast (val AND 255)) (pw_wr R 0x108 (ucast (drop_bit 8 val)) s1)"
  have "?ok s1 ?s2" by (intro emits_trans [OF own_wr own_wr]) (simp_all add: word_le_nat_alt no_start_bit)
  then have e2: "?ok st ?s2" by (rule emits_trans [OF e1])
  show ?thesis
  proof (cases ok1)
    case False
    then show ?thesis using assms s1 emits_trans [OF e1 own_fail] by (auto simp: write_reg_def)
  next
    case ok1: True
    obtain ok3 s3 where s3: "pw_wait_status R 0x80 0x80 3 ?s2 = Some (ok3, s3)"
      using assms s1 ok1 by (auto simp: write_reg_def Let_def split: option.splits)
    have e3: "?ok st s3" by (rule emits_trans [OF e2 own_wait [OF s3]])
    show ?thesis
    proof (cases ok3)
      case False
      then show ?thesis using assms s1 ok1 s3 emits_trans [OF e3 own_fail] by (auto simp: write_reg_def Let_def)
    next
      case ok3: True
      obtain ok4 s4 where s4: "pw_wait_status R 4 0 3 s3 = Some (ok4, s4)"
        using assms s1 ok1 s3 ok3 by (auto simp: write_reg_def Let_def split: option.splits)
      have e4: "?ok st s4" by (rule emits_trans [OF e3 own_wait [OF s4]])
      show ?thesis using assms s1 ok1 s3 ok3 s4 e4 emits_trans [OF e4 own_fail]
        by (auto simp: write_reg_def Let_def split: if_splits)
    qed
  qed
qed

text \<open>Lifted to the state of the task.\<close>

definition m_emits :: "(mmio \<Rightarrow> bool) \<Rightarrow> 'd power \<Rightarrow> 'd power option \<Rightarrow> bool" where
  "m_emits P st m \<longleftrightarrow> (case m of None \<Rightarrow> True | Some st' \<Rightarrow> emits P st st')"

lemma own_fns:
  assumes "m_emits (own_bus device) st m"
  shows "m_emits (own_bus device) st (snd (read_fn R device r n m))" "m_emits (own_bus device) st (snd (write_fn R device r v m))"
    "m_emits (own_bus device) st (snd (ticks_fn R m))"
proof -
  show "m_emits (own_bus device) st (snd (read_fn R device r n m))"
    using assms by (auto simp: m_emits_def read_fn_def intro: emits_trans own_read_reg split: option.split)
  show "m_emits (own_bus device) st (snd (write_fn R device r v m))"
    using assms by (auto simp: m_emits_def write_fn_def intro: emits_trans own_write_reg split: option.split)
  show "m_emits (own_bus device) st (snd (ticks_fn R m))"
    using assms by (auto simp: m_emits_def ticks_fn_def intro: emits_trans own_ticks split: option.split prod.split)
qed

lemma power_sensor_own:
  assumes "m_emits (own_bus device) st m"
  shows "m_emits (own_bus device) st (snd (power_sensor R device s m))"
proof -
  have "m_emits (own_bus device) st (snd (ina700_init device (read_fn R) (write_fn R) m))"
    using assms by (rule ina700_init_keeps [where P = "m_emits (own_bus device) st", rotated 2]) (rule own_fns, assumption)+
  moreover have "m_emits (own_bus device) st (snd (ina700_sample_read device (read_fn R) out m))" for out
    using assms by (rule ina700_sample_keeps [where P = "m_emits (own_bus device) st", rotated]) (rule own_fns)
  ultimately show ?thesis by (simp add: power_sensor_def split_def Let_def own_fns(3))
qed

section \<open>Properties\<close>

text \<open>
  C29. Every transaction ends, whatever the controller answers: if the clock advances, \<open>read_reg\<close>, \<open>write_reg\<close> and the whole
  sampling pass return, also when the tick counter wraps around during a wait.
\<close>

theorem power_pass_ends:
  assumes "clock R t"
  shows "(\<exists>r st'. read_reg R address reg n st = Some (r, st')) \<and> (\<exists>ok st'. write_reg R address reg val st = Some (ok, st')) \<and>
    (\<exists>ss st'. power_pass R telemetry_power delay_until ss0 (Some st) = (ss, Some st'))"
proof -
  have "snd (power_pass R telemetry_power delay_until ss0 (Some st)) \<noteq> None"
    using power_sensor_alive [OF assms] by (simp add: power_pass_def split_def Let_def)
  then have "\<exists>ss st'. power_pass R telemetry_power delay_until ss0 (Some st) = (ss, Some st')" by (metis not_None_eq prod.collapse)
  with read_reg_ends [OF assms] write_reg_ends [OF assms] show ?thesis by blast
qed

text \<open>A bus that is busy forever and a clock that only a delay advances.\<close>

definition stuck_bus :: "nat rtos" where
  "stuck_bus = \<lparr>bsp_in32 = \<lambda>a d. (4, d), bsp_out32 = \<lambda>a v d. d, bsp_in8 = \<lambda>a d. (0, d), bsp_out8 = \<lambda>a v d. d,
     bsp_printf = \<lambda>f args d. d, os_ticks = \<lambda>d. (of_nat d, d), os_delay = \<lambda>n d. d + unat n,
     os_task_create = \<lambda>n d. (True, d)\<rparr>"

theorem power_pass_ends_witness:
  "\<exists>r st'. read_reg stuck_bus 0x44 1 2 \<lparr>m_dev = 0, m_trace = [], pw_deadline = 0\<rparr> = Some (r, st')"
proof -
  have "clock stuck_bus (\<lambda>d. d)" by (simp add: clock_def stuck_bus_def)
  from power_pass_ends [OF this] show ?thesis by blast
qed


text \<open>
  The sampling pass keeps to its own bus: it accesses only the registers of this controller, and every start condition
  it puts on the bus addresses one of the two power monitors; it never addresses another device.
\<close>

theorem power_pass_private:
  "case snd (power_pass R telemetry_power delay_until ss (Some st)) of
     None \<Rightarrow> True
   | Some st' \<Rightarrow> emits (\<lambda>e. own_bus 0x44 e \<or> own_bus 0x45 e \<or> e = Call ''telemetry_power'') st st'"
proof -
  let ?P = "\<lambda>e. own_bus 0x44 e \<or> own_bus 0x45 e \<or> e = Call ''telemetry_power''"
  obtain s0 m0 where m0: "power_sensor R 0x44 (fst ss) (Some st) = (s0, m0)" by fastforce
  obtain s1 m1 where m1: "power_sensor R 0x45 (snd ss) m0 = (s1, m1)" by fastforce
  have "m_emits (own_bus 0x44) st m0"
    using power_sensor_own [of "0x44" st "Some st" R "fst ss"] m0 by (simp add: m_emits_def)
  then have "emits ?P st st0" if "m0 = Some st0" for st0 using that by (auto simp: m_emits_def intro: emits_mono)
  moreover have "emits ?P st0 st1" if "m0 = Some st0" "m1 = Some st1" for st0 st1
    using power_sensor_own [of "0x45" st0 m0 R "snd ss"] m1 that by (auto simp: m_emits_def intro: emits_mono)
  moreover have "m0 \<noteq> None" if "m1 \<noteq> None"
  proof (rule ccontr)
    assume "\<not> m0 \<noteq> None"
    then have "snd (power_sensor R 0x45 (snd ss) m0) = None"
      by (simp add: power_sensor_def ina700_init_def ina700_sample_read_def read_fn_def write_fn_def ticks_fn_def split_def Let_def)
    with m1 that show False by simp
  qed
  ultimately have "emits ?P st st1" if "m1 = Some st1" for st1
    using that by (cases m0) (auto intro: emits_trans [of ?P st])
  then have "emits ?P st (log_event (Call ''telemetry_power'') st1)" if "m1 = Some st1" for st1
    using that emits_trans emits_log [of ?P "Call ''telemetry_power''" st1] by blast
  then show ?thesis
    using m0 m1 by (cases m1) (auto simp: power_pass_def split_def Let_def emits_def log_event_def)
qed

end
