(* ===== verification/Dashboard.thy ===== *)
theory Dashboard
  imports Miner_Protocol Eeprom Power_Monitor
begin

text \<open>
  \<open>application/dashboard.c\<close>: the statistics and events that the other tasks report, the telemetry task that
  broadcasts them to subscribed clients, and the configuration server. The static variables extend the machine state;
  the variables shared with \<open>main.c\<close> (settings, generation, active address) are among them. The sockets, the JSON
  library and the FreeRTOS queue are fields of an environment record; the queue has a state type of its own. Every
  function of the file between two blocking calls is one operation, so an interleaving of the tasks is a sequence
  of these operations.
\<close>

section \<open>State and environment\<close>

record sockaddr =
  sin_address :: u32
  sin_port :: u16

record client =
  cl_peer :: sockaddr
  cl_last :: u32
  cl_used :: bool

record ('d, 'q) dashboard = "'d machine" +
  db_events :: "'q option"
  db_event_seq :: u32
  db_stats :: miner_stats
  db_settings :: miner_settings
  db_generation :: u32
  db_active_mac :: bytes

record ('d, 'q) dashboard_env = "'d rtos" +
  de_validate :: "bytes \<Rightarrow> bool"
  de_search :: json_search
  de_queue_create :: "nat \<Rightarrow> 'd \<Rightarrow> 'q option \<times> 'd"
  de_queue_send :: "miner_event \<Rightarrow> 'q \<Rightarrow> bool \<times> 'q"
  de_queue_receive :: "'q \<Rightarrow> miner_event option \<times> 'q"
  de_socket :: "bool \<Rightarrow> 'd \<Rightarrow> bool \<times> 'd"
  de_bind :: "u16 \<Rightarrow> 'd \<Rightarrow> int \<times> 'd"
  de_setsockopt :: "string \<Rightarrow> u32 \<Rightarrow> 'd \<Rightarrow> 'd"
  de_close :: "'d \<Rightarrow> 'd"
  de_listen :: "nat \<Rightarrow> 'd \<Rightarrow> int \<times> 'd"
  de_recvfrom :: "nat \<Rightarrow> 'd \<Rightarrow> (int \<times> bytes \<times> sockaddr) \<times> 'd"
  de_sendto :: "bytes \<Rightarrow> sockaddr \<Rightarrow> 'd \<Rightarrow> 'd"
  de_accept :: "'d \<Rightarrow> bool \<times> 'd"
  de_recv :: "'d \<Rightarrow> (int \<times> u8) \<times> 'd"
  de_send :: "bytes \<Rightarrow> 'd \<Rightarrow> int \<times> 'd"
  de_shutdown :: "'d \<Rightarrow> 'd"
  de_ewouldblock :: int
  de_sysmon_base :: u32
  de_network_up :: "'d \<Rightarrow> bool"
  de_phy_known :: "'d \<Rightarrow> bool"

text \<open>\<open>pdMS_TO_TICKS\<close> and \<open>portTICK_PERIOD_MS\<close> at the configured tick rate of 100 Hz.\<close>

definition configTICK_RATE_HZ :: u32 where "configTICK_RATE_HZ = 100"
definition pdMS_TO_TICKS :: "u32 \<Rightarrow> u32" where "pdMS_TO_TICKS ms = ms * configTICK_RATE_HZ div 1000"
definition portTICK_PERIOD_MS :: u32 where "portTICK_PERIOD_MS = 1000 div configTICK_RATE_HZ"

section \<open>Statistics and events\<close>

definition telemetry_power :: "ina700_sample list \<Rightarrow> ('d, 'q) dashboard \<Rightarrow> ('d, 'q) dashboard" where
  "telemetry_power samples st = st\<lparr>db_stats := (db_stats st)\<lparr>ts_power := samples\<rparr>\<rparr>"

definition count_event :: "bytes \<Rightarrow> miner_stats \<Rightarrow> miner_stats" where
  "count_event name s =
     (let s = (if name = ascii ''solution_submitted'' then s\<lparr>ts_submitted := ts_submitted s + 1\<rparr> else s);
          s = (if name = ascii ''solution_accepted'' then s\<lparr>ts_accepted := ts_accepted s + 1\<rparr> else s);
          s = (if name = ascii ''solution_rejected'' then s\<lparr>ts_rejected := ts_rejected s + 1\<rparr> else s);
          s = (if name = ascii ''hardware_solution_invalid'' then s\<lparr>ts_invalid := ts_invalid s + 1\<rparr> else s);
          s = (if name = ascii ''pool_connected'' then s\<lparr>ts_connected := True\<rparr> else s);
          s = (if name = ascii ''pool_authorized'' then s\<lparr>ts_authorized := True\<rparr> else s)
      in if name = ascii ''pool_disconnected''
         then s\<lparr>ts_connected := False, ts_authorized := False, ts_mining := False, ts_job_id := (ts_job_id s)[0 := 0]\<rparr>
         else s)"

definition telemetry_detail :: "('d, 'q) dashboard_env \<Rightarrow> miner_event \<Rightarrow> ('d, 'q) dashboard \<Rightarrow> ('d, 'q) dashboard" where
  "telemetry_detail E event st =
     (let st = st\<lparr>db_stats := count_event (cstr (ev_name event)) (db_stats st)\<rparr>
      in case db_events st of None \<Rightarrow> st
         | Some q \<Rightarrow>
             let (ok, q) = de_queue_send E event q; st = st\<lparr>db_events := Some q\<rparr>
             in if ok then st else st\<lparr>db_stats := (db_stats st)\<lparr>ts_dropped := ts_dropped (db_stats st) + 1\<rparr>\<rparr>)"

definition telemetry_event :: "('d, 'q) dashboard_env \<Rightarrow> string \<Rightarrow> ('d, 'q) dashboard \<Rightarrow> ('d, 'q) dashboard" where
  "telemetry_event E event st =
     (let item = miner_event_zero\<lparr>ev_name := snd (snprintf_to (ev_name miner_event_zero) 64 (ascii event))\<rparr>;
          item = item\<lparr>ev_job_number := ts_jobs (db_stats st), ev_job_id := ts_job_id (db_stats st)\<rparr>
      in telemetry_detail E item st)"

definition telemetry_job :: "('d, 'q) dashboard_env \<Rightarrow> bytes \<Rightarrow> ('d, 'q) dashboard \<Rightarrow> u32 \<times> ('d, 'q) dashboard" where
  "telemetry_job E jid st =
     (let s = db_stats st; s = s\<lparr>ts_jobs := ts_jobs s + 1\<rparr>;
          s = s\<lparr>ts_job_id := snd (snprintf_to (ts_job_id s) 128 (cstr jid))\<rparr>;
          number = ts_jobs s; st = st\<lparr>db_stats := s\<rparr>
      in (number, telemetry_event E ''mining_job_received'' st))"

definition telemetry_mining :: "bool \<Rightarrow> ('d, 'q) dashboard \<Rightarrow> ('d, 'q) dashboard" where
  "telemetry_mining active st = st\<lparr>db_stats := (db_stats st)\<lparr>ts_mining := active\<rparr>\<rparr>"

section \<open>The telemetry task\<close>

text \<open>\<open>bound_socket\<close>: whether a socket of the kind (\<open>True\<close> for datagrams) is bound to the port.\<close>

definition bound_socket :: "('d, 'q) dashboard_env \<Rightarrow> bool \<Rightarrow> u16 \<Rightarrow> ('d, 'q) dashboard \<Rightarrow> bool \<times> ('d, 'q) dashboard" where
  "bound_socket E dgram port st =
     (let (ok, d) = de_socket E dgram (m_dev st)
      in if \<not> ok then (False, st\<lparr>m_dev := d\<rparr>)
      else let (rc, d) = de_bind E port d
      in if rc \<noteq> 0 then (False, st\<lparr>m_dev := de_close E d\<rparr>)
      else (True, st\<lparr>m_dev := de_setsockopt E ''RCVTIMEO'' (pdMS_TO_TICKS 100) d\<rparr>))"

record broadcast =
  bc_clients :: "client list"
  bc_message :: bytes
  bc_seq :: u32
  bc_last_status :: u32
  bc_sampled :: u32
  bc_counter_present :: bool
  bc_previous :: u32

definition client_zero :: client where
  "client_zero = \<lparr>cl_peer = \<lparr>sin_address = 0, sin_port = 0\<rparr>, cl_last = 0, cl_used = False\<rparr>"

text \<open>The start of the task; \<open>None\<close> is the failed assertion. The buffer is uninitialised in the code.\<close>

definition broadcast_start ::
  "('d, 'q) dashboard_env \<Rightarrow> bytes \<Rightarrow> ('d, 'q) dashboard \<Rightarrow> (broadcast \<times> ('d, 'q) dashboard) option" where
  "broadcast_start E message st =
     (let (ok, st) = bound_socket E True 4028 st
      in if \<not> ok then None
      else let (sampled, st) = xTaskGetTickCount E st;
               (magic, st) = Xil_In32 E 0x44a300a8 st;
               present = (magic = 0x48534831);
               (previous, st) = (if present then Xil_In32 E 0x44a300ac st else (0, st))
      in Some (\<lparr>bc_clients = replicate 4 client_zero, bc_message = message, bc_seq = 0, bc_last_status = 0,
           bc_sampled = sampled, bc_counter_present = present, bc_previous = previous\<rparr>, st))"

text \<open>The slot of a subscribing client: its own, or the last one that is free or has expired, or none.\<close>

fun client_slot :: "client list \<Rightarrow> sockaddr \<Rightarrow> u32 \<Rightarrow> nat list \<Rightarrow> int \<Rightarrow> int" where
  "client_slot clients peer now [] slot = slot"
| "client_slot clients peer now (i # is) slot =
     (let c = clients ! i
      in if cl_used c \<and> sin_address (cl_peer c) = sin_address peer \<and> sin_port (cl_peer c) = sin_port peer then int i
         else client_slot clients peer now is
           (if \<not> cl_used c \<or> now - cl_last c > pdMS_TO_TICKS 5000 then int i else slot))"

definition subscribe :: "client list \<Rightarrow> sockaddr \<Rightarrow> u32 \<Rightarrow> client list" where
  "subscribe clients peer now =
     (let slot = client_slot clients peer now [0..<4] (-1)
      in if 0 \<le> slot then clients[nat slot := \<lparr>cl_peer = peer, cl_last = now, cl_used = True\<rparr>] else clients)"

definition sample_hashes ::
  "('d, 'q) dashboard_env \<Rightarrow> u32 \<Rightarrow> broadcast \<Rightarrow> ('d, 'q) dashboard \<Rightarrow> broadcast \<times> ('d, 'q) dashboard" where
  "sample_hashes E now bc st =
     (if bc_counter_present bc \<and> now - bc_sampled bc \<ge> pdMS_TO_TICKS 1000 then
        let (count, st) = Xil_In32 E 0x44a300ac st; delta = count - bc_previous bc; s = db_stats st;
            s = s\<lparr>ts_hashrate_hps := miner_hashrate (bc_previous bc) count (now - bc_sampled bc) configTICK_RATE_HZ,
                  ts_hashes_total := ts_hashes_total s + ucast delta,
                  ts_sample_ms := (now - bc_sampled bc) * portTICK_PERIOD_MS, ts_hashrate_valid := True\<rparr>
        in (bc\<lparr>bc_previous := count, bc_sampled := now\<rparr>, st\<lparr>db_stats := s\<rparr>)
      else (bc, st))"

definition temp_centi :: "u32 \<Rightarrow> int" where
  "temp_centi raw = sint (ucast (((ucast raw :: u64) * 5013743) div 6553600) :: u32) - 27367"

definition FreeRTOS_sendto ::
  "('d, 'q) dashboard_env \<Rightarrow> bytes \<Rightarrow> sockaddr \<Rightarrow> ('d, 'q) dashboard \<Rightarrow> ('d, 'q) dashboard" where
  "FreeRTOS_sendto E msg peer st =
     log_event (Sendto (sin_address peer) (sin_port peer) msg) (st\<lparr>m_dev := de_sendto E msg peer (m_dev st)\<rparr>)"

fun send_clients ::
  "('d, 'q) dashboard_env \<Rightarrow> bytes \<Rightarrow> u32 \<Rightarrow> nat list \<Rightarrow> client list \<times> ('d, 'q) dashboard \<Rightarrow> client list \<times> ('d, 'q) dashboard" where
  "send_clients E msg now [] cs = cs"
| "send_clients E msg now (i # is) (clients, st) =
     send_clients E msg now is
       (if cl_used (clients ! i) then
          if now - cl_last (clients ! i) > pdMS_TO_TICKS 5000 then (clients[i := (clients ! i)\<lparr>cl_used := False\<rparr>], st)
          else (clients, FreeRTOS_sendto E msg (cl_peer (clients ! i)) st)
        else (clients, st))"

definition send_part ::
  "('d, 'q) dashboard_env \<Rightarrow> bool \<Rightarrow> sockaddr \<Rightarrow> u32 \<Rightarrow> int \<Rightarrow> bytes \<Rightarrow> client list \<times> ('d, 'q) dashboard \<Rightarrow> client list \<times> ('d, 'q) dashboard" where
  "send_part E discovery peer now count message cs =
     (if count \<le> 0 \<or> 1472 < count then cs
      else let msg = take (nat count) message; (clients, st) = cs;
               st = (if discovery then FreeRTOS_sendto E msg peer st else st)
      in send_clients E msg now [0..<4] (clients, st))"

definition status_event :: miner_event where
  "status_event = miner_event_zero\<lparr>ev_name := strcpy (ev_name miner_event_zero) (ascii ''status'' @ [0])\<rparr>"

text \<open>Lines 105--130: print and send one message, split in two when it exceeds a datagram.\<close>

definition broadcast_message ::
  "('d, 'q) dashboard_env \<Rightarrow> bool \<Rightarrow> sockaddr \<Rightarrow> u32 \<Rightarrow> miner_event \<Rightarrow> broadcast \<Rightarrow> ('d, 'q) dashboard \<Rightarrow> broadcast \<times> ('d, 'q) dashboard" where
  "broadcast_message E discovery peer now event bc st =
     (let (raw, st) = Xil_In32 E (de_sysmon_base E + 0x400) st; centi = temp_centi (raw AND 0xffff);
          snapshot = db_stats st; uptime = now * portTICK_PERIOD_MS;
          telemetry = (\<lambda>e bc st. miner_telemetry_json (bc_message bc) MINER_TELEMETRY_MAX snapshot e (bc_seq bc + 1)
            (db_event_seq st) uptime centi (db_active_mac st) (de_network_up E (m_dev st)) (de_phy_known E (m_dev st)));
          (count, message) = telemetry event bc st;
          bc = bc\<lparr>bc_seq := bc_seq bc + 1, bc_message := message\<rparr>
      in if count \<le> 0 \<or> int MINER_TELEMETRY_MAX \<le> count then (bc, st)
      else if \<not> 1472 < count then
        let (clients, st) = send_part E discovery peer now count (bc_message bc) (bc_clients bc, st)
        in (bc\<lparr>bc_clients := clients\<rparr>, st)
      else
        let (count, message) = telemetry status_event bc st;
            bc = bc\<lparr>bc_seq := bc_seq bc + 1, bc_message := message\<rparr>;
            (clients, st) = send_part E discovery peer now count (bc_message bc) (bc_clients bc, st);
            (count, message) = miner_event_json (bc_message bc) MINER_TELEMETRY_MAX event (bc_seq bc + 1) (db_event_seq st)
              uptime centi (db_active_mac st);
            bc = bc\<lparr>bc_seq := bc_seq bc + 1, bc_message := message\<rparr>;
            (clients, st) = send_part E discovery peer now count (bc_message bc) (clients, st)
        in (bc\<lparr>bc_clients := clients\<rparr>, st))"

text \<open>One iteration of the loop of the task.\<close>

definition broadcast_step ::
  "('d, 'q) dashboard_env \<Rightarrow> broadcast \<Rightarrow> ('d, 'q) dashboard \<Rightarrow> broadcast \<times> ('d, 'q) dashboard" where
  "broadcast_step E bc st =
     (let ((n, request, peer), d) = de_recvfrom E 79 (m_dev st); st = st\<lparr>m_dev := d\<rparr>;
          (now, st) = xTaskGetTickCount E st;
          text = cstr (take (nat n) request @ [0]);
          discovery = (0 < n \<and> text = ascii ''SCU35_DISCOVER/1'');
          bc = (if 0 < n \<and> text = ascii ''SCU35_SUBSCRIBE/1'' then bc\<lparr>bc_clients := subscribe (bc_clients bc) peer now\<rparr> else bc);
          (bc, st) = sample_hashes E now bc st;
          (received, st) = (case db_events st of None \<Rightarrow> (None, st)
             | Some q \<Rightarrow> let (e, q) = de_queue_receive E q in (e, st\<lparr>db_events := Some q\<rparr>));
          pending = (received \<noteq> None);
          event = (case received of None \<Rightarrow> status_event | Some e \<Rightarrow> e);
          st = (if pending then st\<lparr>db_event_seq := db_event_seq st + 1\<rparr> else st)
      in if \<not> discovery \<and> \<not> pending \<and> now - bc_last_status bc < pdMS_TO_TICKS 1000 then (bc, st)
         else broadcast_message E discovery peer now event (bc\<lparr>bc_last_status := now\<rparr>) st)"

section \<open>The configuration server\<close>

definition configure ::
  "('d, 'q) dashboard_env \<Rightarrow> bytes \<Rightarrow> ('d, 'q) dashboard \<Rightarrow> string option \<times> ('d, 'q) dashboard" where
  "configure E line st =
     (let st = log_event (Call ''xSemaphoreTake'') st;
          (error, nxt) = miner_config_parse (de_validate E) (de_search E) line (db_settings st) settings_defaults;
          (rc, st) = (if error \<noteq> None then (-1, st) else settings_save nxt (eeprom_read E) (eeprom_write E) st);
          st = (if rc = 0 then st\<lparr>db_settings := nxt, db_generation := db_generation st + 1\<rparr> else st);
          st = log_event (Call ''xSemaphoreGive'') st
      in if error \<noteq> None then (error, st)
         else if rc \<noteq> 0 then (Some ''EEPROM write or verification failed'', st)
         else (None, telemetry_event E ''settings_saved'' st))"

definition error_text :: "string option \<Rightarrow> bytes" where
  "error_text error =
     (case error of
        Some e \<Rightarrow> ascii ''{\"ok\":false,\"error\":\"'' @ ascii e @ ascii ''\"}'' @ [0x0A]
      | None \<Rightarrow> ascii ''{\"ok\":true,\"message\":\"Saved; pool reconnects, MAC applies after reboot\"}'' @ [0x0A])"

definition config_reply ::
  "('d, 'q) dashboard_env \<Rightarrow> bytes \<Rightarrow> bool \<Rightarrow> bytes \<Rightarrow> nat \<Rightarrow> ('d, 'q) dashboard \<Rightarrow> (int \<times> bytes) \<times> ('d, 'q) dashboard" where
  "config_reply E line whole out cap st =
     (let reply = (\<lambda>error st. (snprintf_to out cap (error_text error), st))
      in if \<not> whole then reply (Some ''incomplete or oversized request'') st
      else let (rc, command) = json_string (de_search E) line ''command'' (replicate 24 0) 24
      in if \<not> de_validate E line \<or> rc \<noteq> 0 then reply (Some ''invalid JSON request'') st
      else if cstr command = ascii ''get_settings'' then
        let st = log_event (Call ''xSemaphoreTake'') st;
            ((from_store, saved), st) = settings_load (eeprom_read E) st;
            st = log_event (Call ''xSemaphoreGive'') st
        in if from_store < 0 then reply (Some ''EEPROM read failed'') st
           else (miner_config_json out cap saved (from_store \<noteq> 0) (db_active_mac st), st)
      else let (error, st) = configure E line st in reply error st)"

text \<open>
  Reading the request: it may take as long as the peer likes, bounded by the clock, so not ending is the value \<open>None\<close>.
\<close>

partial_function (option) request_loop ::
  "('d, 'q) dashboard_env \<Rightarrow> u32 \<Rightarrow> bytes \<Rightarrow> ('d, 'q) dashboard \<Rightarrow> ((bytes \<times> bool) \<times> ('d, 'q) dashboard) option" where
  "request_loop E start line st =
     (if \<not> length line < 1024 then Some ((line, False), st)
      else let (now, st) = xTaskGetTickCount E st
      in if \<not> now - start < pdMS_TO_TICKS 3000 then Some ((line, False), st)
      else let ((n, c), d) = de_recv E (m_dev st); st = st\<lparr>m_dev := d\<rparr>
      in if n < 0 \<and> n \<noteq> - de_ewouldblock E then Some ((line, False), st)
      else if n \<noteq> 1 then request_loop E start line st
      else if c = 0x0A then Some ((line, True), st)
      else request_loop E start (line @ [c]) st)"

function send_reply :: "('d, 'q) dashboard_env \<Rightarrow> bytes \<Rightarrow> ('d, 'q) dashboard \<Rightarrow> ('d, 'q) dashboard" where
  "send_reply E s st =
     (if s = [] then st
      else let (k, d) = de_send E s (m_dev st)
      in if k \<le> 0 then st\<lparr>m_dev := d\<rparr>
         else send_reply E (drop (nat k) s) (log_event (Send (take (nat k) s)) (st\<lparr>m_dev := d\<rparr>)))"
  by pat_completeness auto
termination
  by (relation "measure (\<lambda>(E, s, st). length s)") auto

declare send_reply.simps [simp del]

definition config_start :: "('d, 'q) dashboard_env \<Rightarrow> ('d, 'q) dashboard \<Rightarrow> ('d, 'q) dashboard option" where
  "config_start E st =
     (let (ok, st) = bound_socket E False 4029 st
      in if \<not> ok then None
      else let (rc, d) = de_listen E 2 (m_dev st) in if rc \<noteq> 0 then None else Some (st\<lparr>m_dev := d\<rparr>))"

text \<open>One iteration of the loop of \<open>config_task\<close>; \<open>out\<close> is its uninitialised reply buffer.\<close>

definition config_step :: "('d, 'q) dashboard_env \<Rightarrow> bytes \<Rightarrow> ('d, 'q) dashboard \<Rightarrow> ('d, 'q) dashboard option" where
  "config_step E out st =
     (let (ok, d) = de_accept E (m_dev st); st = st\<lparr>m_dev := d\<rparr>
      in if \<not> ok then Some (vTaskDelay E 1 st)
      else let st = st\<lparr>m_dev := de_setsockopt E ''RCVTIMEO'' (pdMS_TO_TICKS 100) (m_dev st)\<rparr>;
               st = st\<lparr>m_dev := de_setsockopt E ''SNDTIMEO'' (pdMS_TO_TICKS 500) (m_dev st)\<rparr>;
               (start, st) = xTaskGetTickCount E st
      in case request_loop E start [] st of None \<Rightarrow> None
         | Some ((line, whole), st) \<Rightarrow>
             let ((n, reply), st) = config_reply E line whole out 1024 st
             in if n \<le> 0 \<or> 1024 \<le> n then Some (st\<lparr>m_dev := de_close E (m_dev st)\<rparr>)
                else let st = send_reply E (take (nat n) reply) st
                in Some (st\<lparr>m_dev := de_close E (de_shutdown E (m_dev st))\<rparr>))"

text \<open>\<open>dashboard_start\<close>; \<open>None\<close> is a failed assertion.\<close>

definition dashboard_start :: "('d, 'q) dashboard_env \<Rightarrow> ('d, 'q) dashboard \<Rightarrow> ('d, 'q) dashboard option" where
  "dashboard_start E st =
     (let (engines, st) = Xil_In32 E MINER_ENGINES_REG st; st = st\<lparr>db_stats := (db_stats st)\<lparr>ts_engines := engines\<rparr>\<rparr>;
          (hw, st) = Xil_In32 E MINER_HW_VERSION_REG st; st = st\<lparr>db_stats := (db_stats st)\<lparr>ts_hw_version := hw\<rparr>\<rparr>;
          (boot, st) = Xil_In32 E MINER_BOOT_VERSION_REG st; st = st\<lparr>db_stats := (db_stats st)\<lparr>ts_bootloader_version := boot\<rparr>\<rparr>;
          (q, d) = de_queue_create E 32 (m_dev st); st = st\<lparr>m_dev := d, db_events := q\<rparr>
      in if q = None then None
      else let (ok, st) = xTaskCreate E ''telemetry'' st
      in if \<not> ok then None
      else let (ok, st) = xTaskCreate E ''config'' st
      in if \<not> ok then None else power_start E st)"

end
