(* ===== verification/Telemetry_Task.thy ===== *)
theory Telemetry_Task
  imports Dashboard
begin

text \<open>
  The telemetry task of \<open>application/dashboard.c\<close>: what one iteration sends, and the invariant of the statistics, the event
  queue, the settings and the client table under every interleaving of the operations of the file.
\<close>

section \<open>Complete messages\<close>

text \<open>The text of a status message with no inner buffer in between.\<close>

definition rate_text :: "miner_stats \<Rightarrow> bytes" where
  "rate_text s = (if ts_hashrate_valid s then dec_text (unat (ts_hashrate_hps s)) else ascii ''null'')"

definition status_text ::
  "miner_stats \<Rightarrow> miner_event \<Rightarrow> u32 \<Rightarrow> u32 \<Rightarrow> u32 \<Rightarrow> int \<Rightarrow> bytes \<Rightarrow> bool \<Rightarrow> bool \<Rightarrow> bytes" where
  "status_text s e seq event_seq uptime centi mac network phy =
     telemetry_text s e seq event_seq uptime centi mac network phy (rate_text s) (version_text (ts_hw_version s))
       (version_text (ts_bootloader_version s)) (power_text (ts_power s ! 0) uptime) (power_text (ts_power s ! 1) uptime)"

lemma int_text_no_nul: "0 \<notin> set (int_text i)"
  by (simp add: int_text_def dec_text_no_nul)

lemma inner_texts_no_nul: "0 \<notin> set (version_text v)" "0 \<notin> set (power_text p now)" "0 \<notin> set (rate_text s)"
  by (simp_all add: version_text_def power_text_def rate_text_def Let_def dec_text_no_nul int_text_no_nul)

lemma cstr_printed:
  assumes "length txt < n" "0 \<notin> set txt"
  shows "cstr (snd (snprintf_to (replicate n 0) n txt)) = txt"
  using snprintf_zeroed [OF assms(1)] assms(2) by simp

lemma cstr_rate:
  "cstr (if ts_hashrate_valid s then snd (snprintf_to (replicate 24 0) 24 (dec_text (unat (ts_hashrate_hps s))))
     else strcpy (replicate 24 0) (ascii ''null'' @ [0])) = rate_text s"
  using cstr_printed [of "dec_text (unat (ts_hashrate_hps s))" 24] length_dec_u32 [of "ts_hashrate_hps s"]
  by (auto simp: rate_text_def dec_text_no_nul strcpy_def memcpy_at_def cstr_def)

lemma telemetry_json_complete:
  assumes "stats_wf s"
  shows "miner_telemetry_json out cap s e seq event_seq uptime centi mac network phy =
    snprintf_to out cap (status_text s e seq event_seq uptime centi mac network phy)"
proof -
  have v: "cstr (version_json (replicate 24 0) 24 x) = version_text x" for x
    using length_version_text [of x] by (simp add: version_json_def cstr_printed inner_texts_no_nul)
  have p: "cstr (power_json (replicate 256 0) 256 x uptime) = power_text x uptime" if "sample_wf x" for x
    using length_power_text [OF that, of uptime] by (simp add: power_json_def cstr_printed inner_texts_no_nul)
  have "sample_wf (ts_power s ! 0)" "sample_wf (ts_power s ! 1)" using assms by (auto simp: stats_wf_def list_all_length)
  then show ?thesis by (simp only: miner_telemetry_json_def Let_def status_text_def v p cstr_rate)
qed

lemma length_status_text:
  assumes "stats_wf s" "int32 centi"
  shows "length (status_text s e seq event_seq uptime centi mac network phy) \<le> 1217 + length (cstr (ev_name e)) + length (details_text e)"
proof -
  have "sample_wf (ts_power s ! 0)" "sample_wf (ts_power s ! 1)" using assms by (auto simp: stats_wf_def list_all_length)
  moreover have "length (rate_text s) \<le> 10" using length_dec_u32 [of "ts_hashrate_hps s"] by (simp add: rate_text_def)
  ultimately show ?thesis
    unfolding status_text_def by (intro length_telemetry_text assms length_version_text length_power_text)
qed

lemma status_event_text: "cstr (ev_name status_event) = ascii ''status''" "length (details_text status_event) \<le> 80" "event_wf status_event"
  using length_dec_u32 [of 0]
  by (simp_all add: status_event_def miner_event_zero_def strcpy_def memcpy_at_def cstr_def details_text_def event_wf_def)

lemma temp_centi_range: "temp_centi (raw AND 0xffff) \<in> {- 27367..22769} \<and> int32 (temp_centi (raw AND 0xffff))"
proof -
  let ?n = "unat (raw AND 0xffff)" let ?q = "?n * 5013743 div 6553600"
  have n: "?n \<le> 65535" using word_and_le1 [of raw "0xffff"] by (simp add: word_le_nat_alt)
  have w: "unat ((ucast (raw AND 0xffff) :: u64) * 5013743) = ?n * 5013743"
    using n by (simp add: unat_word_ariths unat_ucast_mod)
  have q: "?q \<le> 50136" using n by (simp add: div_le_mono [of "?n * 5013743" "65535 * 5013743" 6553600, simplified])
  have "unat (ucast (((ucast (raw AND 0xffff) :: u64) * 5013743) div 6553600) :: u32) = ?q"
    using q by (simp add: unat_ucast_mod unat_div w)
  then have u: "uint (ucast (((ucast (raw AND 0xffff) :: u64) * 5013743) div 6553600) :: u32) = int ?q"
    by (simp only: uint_nat)
  have "sint (ucast (((ucast (raw AND 0xffff) :: u64) * 5013743) div 6553600) :: u32) = int ?q"
    unfolding sint_uint u using q by (intro signed_take_bit_int_eq_self) simp_all
  then show ?thesis using q by (simp add: temp_centi_def int32_def)
qed

section \<open>Sending to the clients\<close>

definition datagram :: "bytes \<Rightarrow> sockaddr \<Rightarrow> mmio" where
  "datagram msg p = Sendto (sin_address p) (sin_port p) msg"

fun is_datagram :: "mmio \<Rightarrow> bool" where
  "is_datagram (Sendto _ _ _) = True"
| "is_datagram _ = False"

definition datagrams :: "('d, 'z) machine_scheme \<Rightarrow> mmio list" where
  "datagrams st = filter is_datagram (m_trace st)"

text \<open>A client is live until it has been silent for more than five seconds.\<close>

definition live :: "u32 \<Rightarrow> client \<Rightarrow> bool" where
  "live now c \<longleftrightarrow> cl_used c \<and> now - cl_last c \<le> 500"

definition expire :: "u32 \<Rightarrow> client \<Rightarrow> client" where
  "expire now c = (if cl_used c \<and> \<not> live now c then c\<lparr>cl_used := False\<rparr> else c)"

lemma expire_simps [simp]: "live now (expire now c) = live now c" "cl_peer (expire now c) = cl_peer c" "expire now (expire now c) = expire now c"
  by (simp_all add: expire_def live_def)

lemma ticks_5000 [simp]: "pdMS_TO_TICKS 5000 = 500" "pdMS_TO_TICKS 1000 = 100" "pdMS_TO_TICKS 3000 = 300"
  "pdMS_TO_TICKS 100 = 10" "pdMS_TO_TICKS 500 = 50" "portTICK_PERIOD_MS = 10"
  by (simp_all add: pdMS_TO_TICKS_def configTICK_RATE_HZ_def portTICK_PERIOD_MS_def)

lemma sendto_effect [simp]:
  "datagrams (FreeRTOS_sendto E msg p st) = datagrams st @ [datagram msg p]"
  "machine.more (FreeRTOS_sendto E msg p st) = machine.more st"
  by (simp_all add: FreeRTOS_sendto_def datagrams_def log_event_def datagram_def)

lemma send_clients_spec:
  assumes "distinct is" "set is \<subseteq> {..<length clients}" "send_clients E msg now is (clients, st) = (clients', st')"
  shows "length clients' = length clients \<and>
    (\<forall>j < length clients. clients' ! j = (if j \<in> set is then expire now (clients ! j) else clients ! j)) \<and>
    datagrams st' = datagrams st @ map (\<lambda>i. datagram msg (cl_peer (clients ! i))) (filter (\<lambda>i. live now (clients ! i)) is) \<and>
    machine.more st' = machine.more st"
  using assms
proof (induction "is" arbitrary: clients st)
  case (Cons i "is")
  let ?c = "clients ! i"
  have i: "i \<notin> set is" "distinct is" "i < length clients" "set is \<subseteq> {..<length clients}" using Cons.prems by auto
  consider "live now ?c" | "cl_used ?c" "\<not> live now ?c" | "\<not> cl_used ?c" by blast
  then show ?case
  proof cases
    case 1
    with Cons.prems(3) have "send_clients E msg now is (clients, FreeRTOS_sendto E msg (cl_peer ?c) st) = (clients', st')"
      by (simp add: live_def leD)
    from Cons.IH [OF i(2,4) this] 1 i show ?thesis by (auto simp: expire_def)
  next
    case 2
    let ?cs = "clients[i := ?c\<lparr>cl_used := False\<rparr>]"
    from 2 Cons.prems(3) have s: "send_clients E msg now is (?cs, st) = (clients', st')" by (simp add: live_def not_le)
    have other: "?cs ! j = clients ! j" if "j \<in> set is" for j using that i by (metis nth_list_update_neq)
    have "filter (\<lambda>i. live now (?cs ! i)) is = filter (\<lambda>i. live now (clients ! i)) is"
      "map (\<lambda>i. datagram msg (cl_peer (?cs ! i))) (filter (\<lambda>i. live now (clients ! i)) is) =
       map (\<lambda>i. datagram msg (cl_peer (clients ! i))) (filter (\<lambda>i. live now (clients ! i)) is)"
      by (auto simp: other cong: filter_cong)
    with Cons.IH [OF i(2) _ s] 2 i show ?thesis by (auto simp: expire_def nth_list_update other)
  next
    case 3
    with Cons.prems(3) have "send_clients E msg now is (clients, st) = (clients', st')" by simp
    from Cons.IH [OF i(2,4) this] 3 i show ?thesis by (auto simp: expire_def live_def)
  qed
qed simp

text \<open>The receivers of a message: the peer that asked for discovery, then the live clients in the order of the table.\<close>

definition receivers :: "bool \<Rightarrow> sockaddr \<Rightarrow> u32 \<Rightarrow> client list \<Rightarrow> sockaddr list" where
  "receivers discovery peer now clients = (if discovery then [peer] else []) @ map cl_peer (filter (live now) clients)"

lemma receivers_expired [simp]: "receivers discovery peer now (map (expire now) clients) = receivers discovery peer now clients"
  by (simp add: receivers_def filter_map comp_def)

lemma send_part_spec:
  assumes "length clients = 4" "0 < count" "count \<le> 1472" "send_part E discovery peer now count message (clients, st) = (clients', st')"
  shows "clients' = map (expire now) clients \<and>
    datagrams st' = datagrams st @ map (datagram (take (nat count) message)) (receivers discovery peer now clients) \<and>
    machine.more st' = machine.more st"
proof -
  let ?msg = "take (nat count) message"
  let ?st = "if discovery then FreeRTOS_sendto E ?msg peer st else st"
  have s: "send_clients E ?msg now [0..<4] (clients, ?st) = (clients', st')"
    using assms by (simp add: send_part_def Let_def split: if_splits)
  have m: "map (\<lambda>i. datagram ?msg (cl_peer (clients ! i))) (filter (\<lambda>i. live now (clients ! i)) [0..<4]) =
      map (\<lambda>c. datagram ?msg (cl_peer c)) (filter (live now) (map ((!) clients) [0..<4]))"
    by (simp only: filter_map map_map comp_def)
  have all: "map ((!) clients) [0..<4] = clients" using map_nth [of clients] assms(1) by simp
  have "distinct [0..<4]" "set [0..<4] \<subseteq> {..<length clients}" using assms(1) by auto
  note spec = send_clients_spec [OF this s]
  have "clients' = map (expire now) clients" using spec assms(1) by (auto intro!: nth_equalityI simp del: upt_rec_numeral)
  moreover have "datagrams st' = datagrams ?st @ map (\<lambda>c. datagram ?msg (cl_peer c)) (filter (live now) clients)"
    using spec by (simp only: m all)
  ultimately show ?thesis using spec by (simp add: receivers_def comp_def)
qed

section \<open>One message\<close>

text \<open>
  What one message says, given what was read from the hardware: one complete status, or, when that is larger than a
  datagram, a status without the event followed by the event, under consecutive sequence numbers.
\<close>

definition message_texts ::
  "miner_stats \<Rightarrow> miner_event \<Rightarrow> u32 \<Rightarrow> u32 \<Rightarrow> u32 \<Rightarrow> int \<Rightarrow> bytes \<Rightarrow> bool \<times> bool \<Rightarrow> bool \<times> bool \<Rightarrow> bytes list" where
  "message_texts s e seq event_seq uptime centi mac np np' =
     (let t = status_text s e (seq + 1) event_seq uptime centi mac (fst np) (snd np)
      in if length t \<le> 1472 then [t]
         else [status_text s status_event (seq + 2) event_seq uptime centi mac (fst np') (snd np'),
               event_text e (seq + 3) event_seq uptime centi mac])"

lemma printed:
  assumes "length txt < cap" "cap \<le> length out" "snprintf_to out cap txt = (count, out')"
  shows "count = int (length txt)" "take (nat count) out' = txt" "length out' = length out"
  using snprintf_fits [OF assms(1,2)] length_snprintf [OF assms(2), of "txt"] assms(3) by auto

lemma more_In32: "Xil_In32 E a st = (v, st') \<Longrightarrow> machine.more st' = machine.more st \<and> datagrams st' = datagrams st"
  by (auto simp: Xil_In32_def datagrams_def log_event_def split: prod.splits)

lemma more_fields:
  assumes "machine.more st' = machine.more st"
  shows "db_stats st' = db_stats st" "db_events st' = db_events st" "db_event_seq st' = db_event_seq st"
    "db_settings st' = db_settings st" "db_generation st' = db_generation st" "db_active_mac st' = db_active_mac st"
  using assms by (cases st; cases st'; simp)+

lemma status_text_nonempty: "0 < length (status_text s e seq event_seq uptime centi mac network phy)"
  "0 < length (event_text e seq event_seq uptime centi mac)"
  by (simp_all add: status_text_def telemetry_text_def event_text_def)

lemma broadcast_message_spec:
  assumes wf: "stats_wf (db_stats st)" "event_wf e" "length (bc_message bc) = MINER_TELEMETRY_MAX" "length (bc_clients bc) = 4"
    and run: "broadcast_message E discovery peer now e bc st = (bc', st')"
  shows "\<exists>centi np np'. centi \<in> {- 27367..22769} \<and>
    datagrams st' = datagrams st @ concat (map (\<lambda>t. map (datagram t) (receivers discovery peer now (bc_clients bc)))
      (message_texts (db_stats st) e (bc_seq bc) (db_event_seq st) (now * 10) centi (db_active_mac st) np np')) \<and>
    bc_clients bc' = map (expire now) (bc_clients bc) \<and> length (bc_message bc') = MINER_TELEMETRY_MAX \<and>
    machine.more st' = machine.more st"
proof -
  obtain raw s0 where s0: "Xil_In32 E (de_sysmon_base E + 0x400) st = (raw, s0)" by fastforce
  define centi where "centi = temp_centi (raw AND 0xffff)"
  define tm where "tm ev seq dv = status_text (db_stats st) ev seq (db_event_seq st) (now * 10) centi (db_active_mac st)
      (de_network_up E dv) (de_phy_known E dv)" for ev seq dv
  note c = temp_centi_range [of raw, folded centi_def]
  note m0 = more_In32 [OF s0] note f0 = more_fields [OF m0 [THEN conjunct1]]
  have json: "miner_telemetry_json out MINER_TELEMETRY_MAX (db_stats st) ev seq (db_event_seq st) (now * 10) centi (db_active_mac st)
      (de_network_up E dv) (de_phy_known E dv) = snprintf_to out MINER_TELEMETRY_MAX (tm ev seq dv)" for out ev seq dv
    by (simp add: tm_def telemetry_json_complete [OF wf(1)])
  let ?m = "bc_message bc" let ?q = "bc_seq bc"
  obtain n1 g1 where p1: "snprintf_to ?m MINER_TELEMETRY_MAX (tm e (?q + 1) (m_dev s0)) = (n1, g1)" by fastforce
  have "length (tm e (?q + 1) (m_dev s0)) < MINER_TELEMETRY_MAX"
    using length_status_text [OF wf(1) c [THEN conjunct2], of e] length_details_text [OF wf(2)] wf(2)
    by (force simp: tm_def MINER_TELEMETRY_MAX_def event_wf_def intro: le_less_trans)
  note q1 = this printed [OF this _ p1, unfolded wf(3), OF order_refl]
  obtain n2 g2 where p2: "snprintf_to g1 MINER_TELEMETRY_MAX (tm status_event (?q + 2) (m_dev s0)) = (n2, g2)" by fastforce
  have l2: "length (tm status_event (?q + 2) (m_dev s0)) \<le> 1472"
    using length_status_text [OF wf(1) c [THEN conjunct2], of status_event] status_event_text(2)
    by (force simp: tm_def status_event_text(1) intro: order_trans)
  then have "length (tm status_event (?q + 2) (m_dev s0)) < MINER_TELEMETRY_MAX" by (simp add: MINER_TELEMETRY_MAX_def)
  note q2 = printed [OF this _ p2, unfolded q1(4), OF order_refl]
  obtain cs2 s2 where s2: "send_part E discovery peer now n2 g2 (bc_clients bc, s0) = (cs2, s2)" by fastforce
  let ?ev = "event_text e (?q + 3) (db_event_seq st) (now * 10) centi (db_active_mac st)"
  obtain n3 g3 where p3: "snprintf_to g2 MINER_TELEMETRY_MAX ?ev = (n3, g3)" by fastforce
  have "length ?ev \<le> 1127" by (rule length_event_text [OF wf(2) c [THEN conjunct2]])
  then have l3: "length ?ev \<le> 1472" by simp
  then have "length ?ev < MINER_TELEMETRY_MAX" by (simp add: MINER_TELEMETRY_MAX_def)
  note q3 = printed [OF this _ p3, unfolded q2(3), OF order_refl]
  have pos: "0 < length (tm ev seq dv)" "0 < length ?ev" for ev seq dv unfolding tm_def by (rule status_text_nonempty)+
  have n1: "0 < n1" "n1 < int MINER_TELEMETRY_MAX" using q1(1,2) pos(1) [of e "?q + 1" "m_dev s0"] by simp_all
  show ?thesis
  proof (cases "n1 \<le> 1472")
    case True
    obtain cs1 s1 where s1: "send_part E discovery peer now n1 g1 (bc_clients bc, s0) = (cs1, s1)" by fastforce
    note spec = send_part_spec [OF wf(4) n1(1) True s1]
    have "(bc', st') = (bc\<lparr>bc_seq := ?q + 1, bc_message := g1, bc_clients := cs1\<rparr>, s1)"
      using run True n1 by (simp add: broadcast_message_def s0 f0 centi_def [symmetric] json p1 s1)
    then show ?thesis using spec m0 q1 True c wf(3)
      by (intro exI [of _ centi] exI [of _ "(de_network_up E (m_dev s0), de_phy_known E (m_dev s0))"])
        (simp add: message_texts_def tm_def)
  next
    case False
    have n2: "0 < n2" "n2 \<le> 1472" using q2(1) pos(1) [of status_event "?q + 2" "m_dev s0"] l2 by linarith+
    have n3: "0 < n3" "n3 \<le> 1472" using q3(1) pos(2) l3 by linarith+
    note spec2 = send_part_spec [OF wf(4) n2 s2]
    have "machine.more s2 = machine.more st" using spec2 m0 by (simp only:)
    note f2 = more_fields [OF this]
    have cs2: "length cs2 = 4" using spec2 wf(4) by (simp only: length_map)
    obtain cs3 s3 where s3: "send_part E discovery peer now n3 g3 (cs2, s2) = (cs3, s3)" by fastforce
    note spec3 = send_part_spec [OF cs2 n3 s3]
    have "(bc', st') = (bc\<lparr>bc_seq := ?q + 3, bc_message := g3, bc_clients := cs3\<rparr>, s3)"
      using run False n1 by (simp add: broadcast_message_def s0 f0 f2 centi_def [symmetric] json p1 p2 p3 s2 s3 miner_event_json_def add.assoc)
    then show ?thesis using spec2 spec3 m0 q1 q2 q3 False c wf(3)
      by (intro exI [of _ centi] exI [of _ "(de_network_up E (m_dev s0), de_phy_known E (m_dev s0))"])
        (simp add: message_texts_def tm_def)
  qed
qed

section \<open>The client table\<close>

text \<open>No two used slots hold the same peer, so no client receives a datagram twice.\<close>

definition separate :: "client list \<Rightarrow> bool" where
  "separate cs \<longleftrightarrow> (\<forall>i < length cs. \<forall>j < length cs. i \<noteq> j \<longrightarrow> cl_used (cs ! i) \<longrightarrow> cl_used (cs ! j) \<longrightarrow> cl_peer (cs ! i) \<noteq> cl_peer (cs ! j))"

lemma client_slot_spec:
  assumes "client_slot cs peer now is slot = k"
  shows "(\<exists>i\<in>set is. k = int i \<and> cl_used (cs ! i) \<and> cl_peer (cs ! i) = peer) \<or>
    (\<forall>i\<in>set is. \<not> (cl_used (cs ! i) \<and> cl_peer (cs ! i) = peer)) \<and> (k = slot \<or> (\<exists>i\<in>set is. k = int i \<and> \<not> live now (cs ! i)))"
  using assms
proof (induction "is" arbitrary: slot)
  case (Cons i "is")
  let ?same = "cl_used (cs ! i) \<and> sin_address (cl_peer (cs ! i)) = sin_address peer \<and> sin_port (cl_peer (cs ! i)) = sin_port peer"
  let ?slot = "if \<not> cl_used (cs ! i) \<or> now - cl_last (cs ! i) > pdMS_TO_TICKS 5000 then int i else slot"
  have eq: "(cl_peer (cs ! i) = peer) = (sin_address (cl_peer (cs ! i)) = sin_address peer \<and> sin_port (cl_peer (cs ! i)) = sin_port peer)"
    by (auto intro: sockaddr.equality)
  show ?case
  proof (cases ?same)
    case True
    then have "k = int i" using Cons.prems by simp
    then show ?thesis using True eq by simp
  next
    case False
    then have "client_slot cs peer now is ?slot = k" using Cons.prems by (simp only: client_slot.simps Let_def if_False)
    from Cons.IH [OF this] False eq show ?thesis by (auto simp: live_def not_le split: if_splits)
  qed
qed simp

lemma subscribe_spec:
  assumes "length cs = 4"
  shows "subscribe cs peer now = cs \<or>
    (\<exists>i < 4. subscribe cs peer now = cs[i := \<lparr>cl_peer = peer, cl_last = now, cl_used = True\<rparr>] \<and>
       (cl_used (cs ! i) \<and> cl_peer (cs ! i) = peer \<or>
        \<not> live now (cs ! i) \<and> (\<forall>j < 4. \<not> (cl_used (cs ! j) \<and> cl_peer (cs ! j) = peer))))"
  using client_slot_spec [of cs peer now "[0..<4]" "-1", OF refl] by (auto simp: subscribe_def Let_def simp del: upt_rec_numeral)

lemma separate_subscribe:
  assumes "length cs = 4" "separate cs"
  shows "length (subscribe cs peer now) = 4 \<and> separate (subscribe cs peer now)"
  using subscribe_spec [OF assms(1), of peer now]
proof (elim disjE exE conjE)
  fix i assume "i < 4" "subscribe cs peer now = cs[i := \<lparr>cl_peer = peer, cl_last = now, cl_used = True\<rparr>]"
    "cl_used (cs ! i)" "cl_peer (cs ! i) = peer"
  then show ?thesis using assms by (auto simp: separate_def nth_list_update)
next
  fix i assume "i < 4" "subscribe cs peer now = cs[i := \<lparr>cl_peer = peer, cl_last = now, cl_used = True\<rparr>]"
    "\<forall>j < 4. \<not> (cl_used (cs ! j) \<and> cl_peer (cs ! j) = peer)"
  then show ?thesis using assms by (auto simp: separate_def nth_list_update)
qed (use assms in simp)

lemma separate_expire: "separate cs \<Longrightarrow> separate (map (expire now) cs)"
  by (auto simp: separate_def expire_def)

section \<open>One iteration\<close>

text \<open>The documented contract of the FreeRTOS queue: a bounded FIFO of copies, empty when created.\<close>

definition queue_contract :: "('d, 'q) dashboard_env \<Rightarrow> ('q \<Rightarrow> miner_event list) \<Rightarrow> bool" where
  "queue_contract E content \<longleftrightarrow>
     (\<forall>n d q d'. de_queue_create E n d = (Some q, d') \<longrightarrow> content q = []) \<and>
     (\<forall>e q ok q'. de_queue_send E e q = (ok, q') \<longrightarrow> content q' = (if ok then content q @ [e] else content q)) \<and>
     (\<forall>q r q'. de_queue_receive E q = (r, q') \<longrightarrow>
        (case r of None \<Rightarrow> content q = [] \<and> content q' = [] | Some e \<Rightarrow> content q = e # content q'))"

lemma queue_send: "queue_contract E content \<Longrightarrow> de_queue_send E e q = (ok, q') \<Longrightarrow> content q' = (if ok then content q @ [e] else content q)"
  by (simp add: queue_contract_def)

lemma queue_receive: "queue_contract E content \<Longrightarrow> de_queue_receive E q = (r, q') \<Longrightarrow>
   (case r of None \<Rightarrow> content q = [] \<and> content q' = [] | Some e \<Rightarrow> content q = e # content q')"
  by (simp add: queue_contract_def)

definition dash_inv :: "('q \<Rightarrow> miner_event list) \<Rightarrow> broadcast \<Rightarrow> ('d, 'q) dashboard \<Rightarrow> bool" where
  "dash_inv content bc st \<longleftrightarrow>
     stats_wf (db_stats st) \<and> length (ts_job_id (db_stats st)) = 128 \<and> settings_wf (db_settings st) \<and> settings_valid (db_settings st) \<and>
     (\<exists>q. db_events st = Some q \<and> list_all event_wf (content q)) \<and>
     length (bc_message bc) = MINER_TELEMETRY_MAX \<and> length (bc_clients bc) = 4 \<and> separate (bc_clients bc)"

lemma sample_hashes_spec:
  assumes "sample_hashes E now bc st = (bc', st')"
  shows "bc_clients bc' = bc_clients bc \<and> bc_message bc' = bc_message bc \<and> bc_seq bc' = bc_seq bc \<and>
    bc_last_status bc' = bc_last_status bc \<and> datagrams st' = datagrams st \<and> db_events st' = db_events st \<and>
    db_event_seq st' = db_event_seq st \<and> db_settings st' = db_settings st \<and> db_active_mac st' = db_active_mac st \<and>
    ts_job_id (db_stats st') = ts_job_id (db_stats st) \<and> ts_power (db_stats st') = ts_power (db_stats st)"
proof (cases "bc_counter_present bc \<and> now - bc_sampled bc \<ge> pdMS_TO_TICKS 1000")
  case True
  obtain count s where s: "Xil_In32 E 0x44a300ac st = (count, s)" by fastforce
  note m = more_In32 [OF s] note f = more_fields [OF m [THEN conjunct1]]
  have "bc' = bc\<lparr>bc_previous := count, bc_sampled := now\<rparr>" "datagrams st' = datagrams s" "db_events st' = db_events s"
    "db_event_seq st' = db_event_seq s" "db_settings st' = db_settings s" "db_active_mac st' = db_active_mac s"
    "ts_job_id (db_stats st') = ts_job_id (db_stats s)" "ts_power (db_stats st') = ts_power (db_stats s)"
    using assms True s by (auto simp: sample_hashes_def Let_def datagrams_def)
  then show ?thesis using m f by simp
qed (use assms in \<open>auto simp: sample_hashes_def\<close>)

text \<open>The table after the request of this iteration, and whether the request asks for discovery.\<close>

abbreviation request_text :: "int \<Rightarrow> bytes \<Rightarrow> bytes" where
  "request_text n request \<equiv> cstr (take (nat n) request @ [0])"

definition requested :: "int \<Rightarrow> bytes \<Rightarrow> string \<Rightarrow> bool" where
  "requested n request name \<longleftrightarrow> 0 < n \<and> request_text n request = ascii name"

definition clients_after :: "int \<Rightarrow> bytes \<Rightarrow> sockaddr \<Rightarrow> u32 \<Rightarrow> client list \<Rightarrow> client list" where
  "clients_after n request peer now cs = (if requested n request ''SCU35_SUBSCRIBE/1'' then subscribe cs peer now else cs)"

definition due :: "int \<Rightarrow> bytes \<Rightarrow> miner_event option \<Rightarrow> u32 \<Rightarrow> u32 \<Rightarrow> bool" where
  "due n request r now last_status \<longleftrightarrow> requested n request ''SCU35_DISCOVER/1'' \<or> r \<noteq> None \<or> 100 \<le> now - last_status"

lemma broadcast_step_spec:
  assumes q: "queue_contract E content" and inv: "dash_inv content bc st"
    and "de_recvfrom E 79 (m_dev st) = ((n, request, peer), d)" "os_ticks E d = (now, d')"
    and "db_events st = Some q" "de_queue_receive E q = (r, q')"
    and run: "broadcast_step E bc st = (bc', st')"
  shows "dash_inv content bc' st'"
    and "\<not> due n request r now (bc_last_status bc) \<Longrightarrow>
      datagrams st' = datagrams st \<and> bc_clients bc' = clients_after n request peer now (bc_clients bc)"
    and "due n request r now (bc_last_status bc) \<Longrightarrow>
      \<exists>centi np np'. centi \<in> {- 27367..22769} \<and>
      datagrams st' = datagrams st @ concat (map (\<lambda>t. map (datagram t)
          (receivers (requested n request ''SCU35_DISCOVER/1'') peer now (clients_after n request peer now (bc_clients bc))))
        (message_texts (db_stats st') (case r of None \<Rightarrow> status_event | Some e \<Rightarrow> e) (bc_seq bc) (db_event_seq st') (now * 10) centi
          (db_active_mac st') np np')) \<and>
      bc_clients bc' = map (expire now) (clients_after n request peer now (bc_clients bc))"
proof -
  let ?st1 = "st\<lparr>m_dev := d'\<rparr>" let ?bc1 = "bc\<lparr>bc_clients := clients_after n request peer now (bc_clients bc)\<rparr>"
  let ?e = "case r of None \<Rightarrow> status_event | Some e \<Rightarrow> e" let ?disc = "requested n request ''SCU35_DISCOVER/1''"
  obtain bc2 s2 where s2: "sample_hashes E now ?bc1 ?st1 = (bc2, s2)" by fastforce
  note sh = sample_hashes_spec [OF s2]
  define s3 where "s3 = (if r = None then s2\<lparr>db_events := Some q'\<rparr>
     else s2\<lparr>db_events := Some q', db_event_seq := db_event_seq s2 + 1\<rparr>)"
  have step: "broadcast_step E bc st = (if due n request r now (bc_last_status bc)
      then broadcast_message E ?disc peer now ?e (bc2\<lparr>bc_last_status := now\<rparr>) s3 else (bc2, s3))"
  proof -
    have "bc\<lparr>bc_clients := bc_clients bc\<rparr> = bc" by simp
    then have b: "(if requested n request ''SCU35_SUBSCRIBE/1'' then bc\<lparr>bc_clients := subscribe (bc_clients bc) peer now\<rparr> else bc) = ?bc1"
      by (simp add: clients_after_def)
    have t: "xTaskGetTickCount E (st\<lparr>m_dev := d\<rparr>) = (now, ?st1)" using assms(4) by (simp add: xTaskGetTickCount_def)
    have "db_events s2 = Some q" using sh assms(5) by simp
    then show ?thesis
      unfolding broadcast_step_def Let_def assms(3) prod.case t requested_def [symmetric] b s2
      using sh assms(6) by (cases r) (simp_all add: due_def s3_def not_less [symmetric])
  qed
  have cs: "length (clients_after n request peer now (bc_clients bc)) = 4 \<and> separate (clients_after n request peer now (bc_clients bc))"
    using inv separate_subscribe by (simp add: dash_inv_def clients_after_def)
  have "list_all event_wf (content q)" using inv assms(5) by (simp add: dash_inv_def)
  then have content: "list_all event_wf (content q')" "event_wf ?e"
    using queue_receive [OF q assms(6)] status_event_text(3) by (simp_all split: option.splits)
  have base: "stats_wf (db_stats s3)" "length (ts_job_id (db_stats s3)) = 128" "settings_wf (db_settings s3)" "settings_valid (db_settings s3)"
    "db_events s3 = Some q'" "datagrams s3 = datagrams st" "db_active_mac s3 = db_active_mac st"
    using inv sh by (simp_all add: s3_def dash_inv_def stats_wf_def datagrams_def)
  have bc2: "bc_clients bc2 = clients_after n request peer now (bc_clients bc)" "length (bc_message bc2) = MINER_TELEMETRY_MAX"
    "bc_seq bc2 = bc_seq bc" using sh inv by (simp_all add: dash_inv_def)
  let ?bc3 = "bc2\<lparr>bc_last_status := now\<rparr>"
  have wf: "length (bc_message ?bc3) = MINER_TELEMETRY_MAX" "length (bc_clients ?bc3) = 4" using bc2 cs by simp_all
  note spec = broadcast_message_spec [OF base(1) content(2) wf]
  { assume "\<not> due n request r now (bc_last_status bc)"
    then have "bc' = bc2" "st' = s3" using step run by simp_all }
  note idle = this
  have active: "\<exists>centi np np'. centi \<in> {- 27367..22769} \<and>
      datagrams st' = datagrams s3 @ concat (map (\<lambda>t. map (datagram t) (receivers ?disc peer now (bc_clients ?bc3)))
        (message_texts (db_stats s3) ?e (bc_seq ?bc3) (db_event_seq s3) (now * 10) centi (db_active_mac s3) np np')) \<and>
      bc_clients bc' = map (expire now) (bc_clients ?bc3) \<and> length (bc_message bc') = MINER_TELEMETRY_MAX \<and>
      machine.more st' = machine.more s3"
    if "due n request r now (bc_last_status bc)"
    using step run that by (intro spec) simp
  then have same: "machine.more st' = machine.more s3" if "due n request r now (bc_last_status bc)" using that by blast
  note fields = more_fields [OF same]
  show "dash_inv content bc' st'"
  proof (cases "due n request r now (bc_last_status bc)")
    case True
    from active [OF True] have "bc_clients bc' = map (expire now) (bc_clients ?bc3)" "length (bc_message bc') = MINER_TELEMETRY_MAX"
      by blast+
    then show ?thesis using base content bc2 cs separate_expire fields [OF True] by (simp add: dash_inv_def)
  next
    case False
    from idle [OF this] base content bc2 cs show ?thesis by (simp add: dash_inv_def)
  qed
  show "\<not> due n request r now (bc_last_status bc) \<Longrightarrow>
      datagrams st' = datagrams st \<and> bc_clients bc' = clients_after n request peer now (bc_clients bc)"
    using idle base bc2 by simp
  show "due n request r now (bc_last_status bc) \<Longrightarrow>
      \<exists>centi np np'. centi \<in> {- 27367..22769} \<and>
      datagrams st' = datagrams st @ concat (map (\<lambda>t. map (datagram t)
          (receivers ?disc peer now (clients_after n request peer now (bc_clients bc))))
        (message_texts (db_stats st') ?e (bc_seq bc) (db_event_seq st') (now * 10) centi (db_active_mac st') np np')) \<and>
      bc_clients bc' = map (expire now) (clients_after n request peer now (bc_clients bc))"
  proof -
    assume due: "due n request r now (bc_last_status bc)"
    from active [OF due] obtain centi np np' where "centi \<in> {- 27367..22769}"
      "datagrams st' = datagrams s3 @ concat (map (\<lambda>t. map (datagram t) (receivers ?disc peer now (bc_clients ?bc3)))
        (message_texts (db_stats s3) ?e (bc_seq ?bc3) (db_event_seq s3) (now * 10) centi (db_active_mac s3) np np'))"
      "bc_clients bc' = map (expire now) (bc_clients ?bc3)" by blast
    with fields [OF due] base bc2 show ?thesis
      by (intro exI [of _ centi] exI [of _ np] exI [of _ np']) simp
  qed
qed

end
