(* ===== verification/Config_Server.thy ===== *)
theory Config_Server
  imports Telemetry_Task
begin

text \<open>
  The configuration server of \<open>application/dashboard.c\<close>: what a request may change, that its reply is always complete, and that
  reading a request ends.
\<close>

section \<open>Replies\<close>

definition config_errors :: "string set" where
  "config_errors = {''invalid JSON request'', ''unsupported command'', ''invalid fields'', ''invalid password'', ''invalid settings''}"

lemma parse_errors: "fst (miner_config_parse validate search line current nxt) = Some e \<Longrightarrow> e \<in> config_errors"
  by (auto simp: miner_config_parse_def Let_def config_errors_def split: prod.splits option.splits if_splits)

definition complete_reply :: "int \<Rightarrow> bytes \<Rightarrow> bytes \<Rightarrow> bool" where
  "complete_reply n buf t \<longleftrightarrow> 0 < n \<and> n < 1024 \<and> take (nat n) buf = t \<and> t \<noteq> [] \<and> last t = 0x0A"

lemma reply_printed:
  assumes "length t < 1024" "t \<noteq> []" "last t = 0x0A" "length out = 1024" "snprintf_to out 1024 t = (n, buf)"
  shows "complete_reply n buf t"
  using printed [OF assms(1) _ assms(5)] assms by (simp add: complete_reply_def)

lemma length_config_text:
  assumes "length (ms_host s) \<le> 96" "length (ms_worker s) \<le> 128"
  shows "length (config_text s from_store mac) < 1024"
proof -
  have "unat (ms_port s) < 10 ^ 5" using unat_u16_less [of "ms_port s"] by simp
  then have "length (dec_text (unat (ms_port s))) \<le> 5" by (rule length_dec_bound) simp
  then show ?thesis
    using length_bool_text [of from_store] length_bool_text [of "ms_password s ! 0 \<noteq> 0"] length_cstr [of "ms_host s"]
      length_cstr [of "ms_worker s"] assms by (simp add: config_text_def)
qed

lemma config_text_end: "config_text s from_store mac \<noteq> []" "last (config_text s from_store mac) = 0x0A"
  "config_text s from_store mac \<noteq> error_text None"
  by (simp_all add: config_text_def error_text_def bool_text_def)

lemma error_text_end: "error_text err \<noteq> []" "last (error_text err) = 0x0A" "error_text (Some e) \<noteq> error_text None"
  by (simp_all add: error_text_def split: option.split)

lemma length_error_text: "(\<And>e. err = Some e \<Longrightarrow> length e \<le> 60) \<Longrightarrow> length (error_text err) < 1024"
  by (auto simp: error_text_def split: option.split)

section \<open>What a request changes\<close>

text \<open>The accesses of a request: the EEPROM controller, the delay of its driver, and the settings lock.\<close>

definition config_access :: "mmio \<Rightarrow> bool" where
  "config_access e \<longleftrightarrow> ee_bus e \<or> e \<in> {Call ''xSemaphoreTake'', Call ''xSemaphoreGive''}"

lemma telemetry_detail_keeps:
  "db_settings (telemetry_detail E e st) = db_settings st" "db_generation (telemetry_detail E e st) = db_generation st"
  "db_active_mac (telemetry_detail E e st) = db_active_mac st" "m_trace (telemetry_detail E e st) = m_trace st"
  by (simp_all add: telemetry_detail_def Let_def split_def split: option.split)

lemma telemetry_event_keeps [simp]:
  "db_settings (telemetry_event E s st) = db_settings st" "db_generation (telemetry_event E s st) = db_generation st"
  "db_active_mac (telemetry_event E s st) = db_active_mac st" "m_trace (telemetry_event E s st) = m_trace st"
  by (simp_all add: telemetry_event_def telemetry_detail_keeps Let_def)

lemma log_more [simp]: "machine.more (log_event e st) = machine.more st"
  by (simp add: log_event_def)

lemma ee_access: "ee_only s st \<Longrightarrow> emits config_access s st"
  unfolding ee_only_def by (auto intro: emits_mono simp: config_access_def)

lemma lock_access: "emits config_access st (log_event (Call ''xSemaphoreTake'') st)" "emits config_access st (log_event (Call ''xSemaphoreGive'') st)"
  by (rule emits_log, simp add: config_access_def)+

lemma bracket_access:
  assumes "ee_only (log_event (Call ''xSemaphoreTake'') st) s" "m_trace t = m_trace (log_event (Call ''xSemaphoreGive'') s)"
  shows "emits config_access st t"
proof -
  have "emits config_access st (log_event (Call ''xSemaphoreGive'') s)"
    by (rule emits_trans [OF emits_trans [OF lock_access(1) ee_access [OF assms(1)]] lock_access(2)])
  then show ?thesis using assms(2) by (simp add: emits_def)
qed

text \<open>The two outcomes of \<open>configure\<close>: nothing changed, or the parsed settings were saved, verified and made current.\<close>

definition accepted :: "('d, 'q) dashboard_env \<Rightarrow> bytes \<Rightarrow> ('d, 'q) dashboard \<Rightarrow> ('d, 'q) dashboard \<Rightarrow> bool" where
  "accepted E line st st' \<longleftrightarrow>
     (\<exists>s'. miner_config_parse (de_validate E) (de_search E) line (db_settings st) settings_defaults = (None, db_settings st') \<and>
        settings_save (db_settings st') (eeprom_read E) (eeprom_write E) (log_event (Call ''xSemaphoreTake'') st) = (0, s') \<and> db_generation st' = db_generation st + 1)"

lemma configure_spec:
  assumes "configure E line st = (err, st')"
  shows "emits config_access st st' \<and> db_active_mac st' = db_active_mac st \<and>
    (case err of None \<Rightarrow> accepted E line st st'
     | Some e \<Rightarrow> e \<in> insert ''EEPROM write or verification failed'' config_errors \<and> machine.more st' = machine.more st)"
proof -
  let ?s0 = "log_event (Call ''xSemaphoreTake'') st"
  obtain error nxt where p: "miner_config_parse (de_validate E) (de_search E) line (db_settings st) settings_defaults = (error, nxt)" by fastforce
  have p0: "miner_config_parse (de_validate E) (de_search E) line (db_settings ?s0) settings_defaults = (error, nxt)"
    using p by (simp add: log_event_def)
  obtain rc s1 where s1: "settings_save nxt (eeprom_read E) (eeprom_write E) ?s0 = (rc, s1)" by fastforce
  have e1: "ee_only ?s0 s1" using ee_only_save [OF ee_only_refl, of ?s0 nxt E] s1 by simp
  then have m1: "machine.more s1 = machine.more st" by (simp add: ee_only_def)
  note f1 = more_fields [OF m1]
  show ?thesis
  proof (cases error)
    case (Some e)
    then have st': "st' = log_event (Call ''xSemaphoreGive'') ?s0" "err = Some e" using assms p0 by (simp_all add: configure_def)
    then have "machine.more st' = machine.more st" by simp
    moreover note more_fields(6) [OF this] st'
    moreover have "e \<in> config_errors" using parse_errors [of "de_validate E" "de_search E" line "db_settings st" settings_defaults e] p Some by simp
    moreover have "emits config_access st (log_event (Call ''xSemaphoreGive'') ?s0)" by (rule bracket_access [OF ee_only_refl refl])
    ultimately show ?thesis by simp
  next
    case None
    show ?thesis
    proof (cases "rc = 0")
      case True
      let ?s2 = "log_event (Call ''xSemaphoreGive'') (s1\<lparr>db_settings := nxt, db_generation := db_generation s1 + 1\<rparr>)"
      have st': "err = None" "st' = telemetry_event E ''settings_saved'' ?s2"
        using assms p0 s1 None True by (simp_all add: configure_def)
      have "emits config_access st st'" by (rule bracket_access [OF e1]) (simp add: st' log_event_def)
      then show ?thesis using st' p s1 f1 None True by (auto simp: accepted_def log_event_def)
    next
      case False
      then have st': "st' = log_event (Call ''xSemaphoreGive'') s1" "err = Some ''EEPROM write or verification failed''"
        using assms p0 s1 None by (simp_all add: configure_def)
      then have "machine.more st' = machine.more st" using m1 by simp
      moreover note more_fields(6) [OF this] st'
      moreover have "emits config_access st (log_event (Call ''xSemaphoreGive'') s1)" by (rule bracket_access [OF e1 refl])
      ultimately show ?thesis by simp
    qed
  qed
qed

lemma config_reply_spec:
  assumes "length out = 1024" "config_reply E line whole out 1024 st = ((n, buf), st')"
  shows "emits config_access st st' \<and> db_active_mac st' = db_active_mac st \<and>
    (\<exists>t. complete_reply n buf t \<and>
      (t = error_text None \<and> whole \<and> accepted E line st st' \<or> t \<noteq> error_text None \<and> machine.more st' = machine.more st))"
proof -
  have rep: "\<exists>t. complete_reply n buf t \<and> t = error_text err" if "snprintf_to out 1024 (error_text err) = (n, buf)"
    "\<And>e. err = Some e \<Longrightarrow> length e \<le> 60" for err
    using reply_printed [OF length_error_text error_text_end(1,2) assms(1) that(1)] that(2) by blast
  obtain rc command where c: "json_string (de_search E) line ''command'' (replicate 24 0) 24 = (rc, command)" by fastforce
  consider (part) "\<not> whole" | (json) "whole" "\<not> de_validate E line \<or> rc \<noteq> 0"
    | (get) "whole" "de_validate E line" "rc = 0" "cstr command = ascii ''get_settings''"
    | (put) "whole" "de_validate E line" "rc = 0" "cstr command \<noteq> ascii ''get_settings''" by blast
  then show ?thesis
  proof cases
    case part
    then have "snprintf_to out 1024 (error_text (Some ''incomplete or oversized request'')) = (n, buf)" "st' = st"
      using assms(2) by (simp_all add: config_reply_def)
    with rep [OF this(1)] error_text_end(3) show ?thesis by force
  next
    case json
    then have "snprintf_to out 1024 (error_text (Some ''invalid JSON request'')) = (n, buf)" "st' = st"
      using assms(2) c by (auto simp: config_reply_def)
    with rep [OF this(1)] error_text_end(3) show ?thesis by force
  next
    case get
    let ?s0 = "log_event (Call ''xSemaphoreTake'') st"
    obtain from_store saved s1 where s1: "settings_load (eeprom_read E) ?s0 = ((from_store, saved), s1)" by (metis prod.exhaust)
    have e1: "ee_only ?s0 s1" using ee_only_load [OF ee_only_refl, of ?s0 E] s1 by simp
    have st': "st' = log_event (Call ''xSemaphoreGive'') s1"
      using assms(2) get c s1 by (auto simp: config_reply_def Let_def split: if_splits)
    have acc: "emits config_access st st'" unfolding st' by (rule bracket_access [OF e1 refl])
    have more: "machine.more st' = machine.more st" using e1 st' by (simp add: ee_only_def)
    note mac = more_fields(6) [OF more]
    show ?thesis
    proof (cases "from_store < 0")
      case True
      then have "snprintf_to out 1024 (error_text (Some ''EEPROM read failed'')) = (n, buf)"
        using assms(2) get c s1 by (simp add: config_reply_def)
      with rep [OF this] error_text_end(3) acc more mac show ?thesis by force
    next
      case False
      have "settings_valid saved" "length (ms_host saved) \<le> 96" "length (ms_worker saved) \<le> 128"
        using load_valid [of "eeprom_read E" ?s0] load_lengths [of "eeprom_read E" ?s0] s1 by simp_all
      then have "snprintf_to out 1024 (config_text saved (from_store \<noteq> 0) (db_active_mac st')) = (n, buf)"
        "length (config_text saved (from_store \<noteq> 0) (db_active_mac st')) < 1024"
        using assms(2) get c s1 False st' by (simp_all add: config_reply_def Let_def miner_config_json_def length_config_text)
      with reply_printed [OF this(2) config_text_end(1,2) assms(1) this(1)] config_text_end(3) acc more mac show ?thesis by blast
    qed
  next
    case put
    obtain err s1 where s1: "configure E line st = (err, s1)" by fastforce
    note spec = configure_spec [OF s1]
    have r: "snprintf_to out 1024 (error_text err) = (n, buf)" "st' = s1"
      using assms(2) put c s1 by (simp_all add: config_reply_def)
    have "length e \<le> 60" if "err = Some e" for e using spec that by (auto simp: config_errors_def)
    with rep [OF r(1)] obtain t where "complete_reply n buf t" "t = error_text err" by blast
    with spec r(2) put(1) error_text_end(3) show ?thesis by (cases err) auto
  qed
qed

section \<open>Reading a request ends\<close>

text \<open>
  What the loop relies on: the tick counter gives the time, and a receive that times out has waited (its timeout is ten
  ticks); no single call takes more than \<open>2 ^ 29\<close> ticks. A receive that delivers a byte, or fails because the client closed
  or reset the connection, may return at once.
\<close>

definition request_clock :: "('d, 'q) dashboard_env \<Rightarrow> ('d \<Rightarrow> nat) \<Rightarrow> bool" where
  "request_clock E t \<longleftrightarrow>
     (\<forall>d. fst (os_ticks E d) = of_nat (t d) \<and> t d \<le> t (snd (os_ticks E d)) \<and> t (snd (os_ticks E d)) \<le> t d + 2 ^ 29) \<and>
     (\<forall>d. t d \<le> t (snd (de_recv E d)) \<and> t (snd (de_recv E d)) \<le> t d + 2 ^ 29 \<and>
        (fst (fst (de_recv E d)) \<noteq> 1 \<and> (0 \<le> fst (fst (de_recv E d)) \<or> fst (fst (de_recv E d)) = - de_ewouldblock E) \<longrightarrow>
           t d < t (snd (de_recv E d))))"

lemma elapsed_ticks:
  assumes "t0 \<le> t" "t - t0 < 2 ^ 32"
  shows "unat ((of_nat t :: u32) - of_nat t0) = t - t0"
proof -
  have "(of_nat t :: u32) - of_nat t0 = of_nat (t - t0)" using assms(1) by (simp only: of_nat_diff)
  then show ?thesis using assms(2) by (simp only: unat_of_nat) simp
qed

lemma request_loop_ends:
  assumes "request_clock E t"
  shows "t0 \<le> t (m_dev st) \<Longrightarrow> t (m_dev st) - t0 \<le> 300 + 2 ^ 30 \<Longrightarrow> length line \<le> 1024 \<Longrightarrow> 0x0A \<notin> set line \<Longrightarrow>
    \<exists>l whole st'. request_loop E (of_nat t0) line st = Some ((l, whole), st') \<and> length l \<le> 1024 \<and> (whole \<longrightarrow> length l < 1024) \<and>
      0x0A \<notin> set l \<and> machine.more st' = machine.more st \<and> m_trace st' = m_trace st"
proof (induction "(1024 - length line) + (300 - (t (m_dev st) - t0))" arbitrary: line st rule: less_induct)
  case less
  obtain now d1 where d1: "os_ticks E (m_dev st) = (now, d1)" by fastforce
  obtain n c d2 where d2: "de_recv E d1 = ((n, c), d2)" by (metis prod.exhaust)
  have c1: "now = of_nat (t (m_dev st))" "t (m_dev st) \<le> t d1" "t d1 \<le> t (m_dev st) + 2 ^ 29"
    using assms d1 unfolding request_clock_def by (metis fst_conv snd_conv)+
  have c2: "t d1 \<le> t d2" "t d2 \<le> t d1 + 2 ^ 29" "n \<noteq> 1 \<Longrightarrow> 0 \<le> n \<or> n = - de_ewouldblock E \<Longrightarrow> t d1 < t d2"
    using assms d2 unfolding request_clock_def by (metis fst_conv snd_conv)+
  let ?s1 = "st\<lparr>m_dev := d1\<rparr>" let ?s2 = "st\<lparr>m_dev := d2\<rparr>"
  have tick: "xTaskGetTickCount E st = (now, ?s1)" using d1 by (simp add: xTaskGetTickCount_def)
  have "unat (now - of_nat t0) = t (m_dev st) - t0" unfolding c1(1) using less.prems by (intro elapsed_ticks) simp_all
  then have el: "(now - of_nat t0 < 300) = (t (m_dev st) - t0 < 300)" by (simp add: word_less_nat_alt)
  note unroll = request_loop.simps [of E "of_nat t0" line st]
  show ?case
  proof (cases "length line < 1024 \<and> t (m_dev st) - t0 < 300 \<and> \<not> (n < 0 \<and> n \<noteq> - de_ewouldblock E) \<and> \<not> (n = 1 \<and> c = 0x0A)")
    case False
    then show ?thesis using less.prems(3,4) by (subst unroll) (auto simp: tick el d2 Let_def)
  next
    case True
    define line' where "line' = (if n = 1 then line @ [c] else line)"
    have step: "request_loop E (of_nat t0) line st = request_loop E (of_nat t0) line' ?s2"
      using True by (subst unroll) (auto simp: tick el d2 line'_def)
    have "(1024 - length line') + (300 - (t (m_dev ?s2) - t0)) < (1024 - length line) + (300 - (t (m_dev st) - t0))"
      using True c1 c2 less.prems(1) by (cases "n = 1") (auto simp: line'_def)
    moreover have "t0 \<le> t (m_dev ?s2)" "t (m_dev ?s2) - t0 \<le> 300 + 2 ^ 30" "length line' \<le> 1024" "0x0A \<notin> set line'"
      using True c1 c2 less.prems by (auto simp: line'_def)
    ultimately show ?thesis unfolding step using less.hyps [of line' ?s2] by simp
  qed
qed

lemma config_step_total:
  assumes "request_clock E t"
  shows "\<exists>st'. config_step E out st = Some st'"
proof (cases "fst (de_accept E (m_dev st))")
  case True
  let ?d0 = "de_setsockopt E ''SNDTIMEO'' 50 (de_setsockopt E ''RCVTIMEO'' 10 (snd (de_accept E (m_dev st))))"
  let ?s0 = "st\<lparr>m_dev := ?d0\<rparr>" let ?s1 = "st\<lparr>m_dev := snd (os_ticks E ?d0)\<rparr>"
  have "fst (os_ticks E ?d0) = of_nat (t ?d0) \<and> t ?d0 \<le> t (snd (os_ticks E ?d0)) \<and> t (snd (os_ticks E ?d0)) \<le> t ?d0 + 2 ^ 29"
    using assms unfolding request_clock_def by blast
  then have c: "fst (os_ticks E ?d0) = of_nat (t ?d0)" "t ?d0 \<le> t (m_dev ?s1)" "t (m_dev ?s1) - t ?d0 \<le> 300 + 2 ^ 30" by auto
  from request_loop_ends [OF assms c(2,3), of "[]"] obtain l whole s2 where
    s2: "request_loop E (of_nat (t ?d0)) [] ?s1 = Some ((l, whole), s2)" by auto
  have tick: "xTaskGetTickCount E ?s0 = (of_nat (t ?d0), ?s1)" using c(1) by (simp add: xTaskGetTickCount_def split_def prod_eq_iff)
  show ?thesis using True s2 tick by (simp add: config_step_def split_def Let_def)
qed (simp add: config_step_def split_def)

end
