(* ===== verification/Dashboard_Reach.thy ===== *)
theory Dashboard_Reach
  imports Config_Server
begin

text \<open>
  The states of the dashboard under every interleaving of the telemetry calls of the other tasks with the iterations of its own
  two tasks. A step is one operation, or a change of the devices and of the trace by code outside the file.
\<close>

section \<open>The statistics\<close>

lemma cstr_first_nul: "xs \<noteq> [] \<Longrightarrow> cstr (xs[0 := 0]) = []"
  by (cases xs) (simp_all add: cstr_def)

lemma stats_wf_count:
  assumes "stats_wf s" "length (ts_job_id s) = 128"
  shows "stats_wf (count_event name s) \<and> length (ts_job_id (count_event name s)) = 128"
proof -
  have "ts_job_id s \<noteq> []" using assms(2) by auto
  then have "cstr ((ts_job_id s)[0 := 0]) = []" by (rule cstr_first_nul)
  then have "ts_power (count_event name s) = ts_power s"
    "length (cstr (ts_job_id (count_event name s))) < 128 \<and> length (ts_job_id (count_event name s)) = 128"
    using assms by (simp_all add: count_event_def Let_def stats_wf_def)
  then show ?thesis using assms by (simp add: stats_wf_def)
qed

lemma inv_detail:
  assumes "queue_contract E content" "dash_inv content bc st" "event_wf e"
  shows "dash_inv content bc (telemetry_detail E e st)"
proof -
  obtain q where q: "db_events st = Some q" "list_all event_wf (content q)" using assms(2) by (auto simp: dash_inv_def)
  obtain ok q' where q': "de_queue_send E e q = (ok, q')" by fastforce
  have "list_all event_wf (content q')" using queue_send [OF assms(1) q'] q(2) assms(3) by simp
  moreover have "stats_wf (count_event (cstr (ev_name e)) (db_stats st)) \<and>
      length (ts_job_id (count_event (cstr (ev_name e)) (db_stats st))) = 128"
    using assms(2) by (intro stats_wf_count) (simp_all add: dash_inv_def)
  ultimately show ?thesis using assms(2) q q' by (simp add: telemetry_detail_def Let_def dash_inv_def stats_wf_def)
qed

lemma length_cstr_printed: "0 < cap \<Longrightarrow> length (cstr (snd (snprintf_to out cap txt))) < cap"
  using length_cstr_nul [of "take (cap - 1) txt" "drop (Suc (min (length txt) (cap - 1))) out"]
  by (simp add: snprintf_to_def memcpy_at_def) linarith

lemma inv_event:
  assumes "queue_contract E content" "dash_inv content bc st"
  shows "dash_inv content bc (telemetry_event E name st)"
proof -
  have "length (cstr (ts_job_id (db_stats st))) < 128" using assms(2) by (simp add: dash_inv_def stats_wf_def)
  moreover have "length (cstr (snd (snprintf_to (replicate 64 0) 64 (ascii name)))) < 64" by (rule length_cstr_printed) simp
  ultimately show ?thesis
    unfolding telemetry_event_def Let_def
    by (intro inv_detail assms) (simp add: event_wf_def miner_event_zero_def cstr_def)
qed

lemma inv_job:
  assumes "queue_contract E content" "dash_inv content bc st"
  shows "dash_inv content bc (snd (telemetry_job E jid st))"
proof -
  let ?s = "(db_stats st)\<lparr>ts_jobs := ts_jobs (db_stats st) + 1\<rparr>"
  let ?b = "snd (snprintf_to (ts_job_id ?s) 128 (cstr jid))"
  have "length (cstr ?b) < 128" by (rule length_cstr_printed) simp
  moreover have "length ?b = 128" using assms(2) by (simp add: dash_inv_def)
  ultimately have "dash_inv content bc (st\<lparr>db_stats := ?s\<lparr>ts_job_id := ?b\<rparr>\<rparr>)"
    using assms(2) by (simp add: dash_inv_def stats_wf_def)
  from inv_event [OF assms(1) this] show ?thesis by (simp add: telemetry_job_def Let_def)
qed

lemma inv_more: "dash_inv content bc st \<Longrightarrow> machine.more st' = machine.more st \<Longrightarrow> dash_inv content bc st'"
  using more_fields [of st' st] by (simp add: dash_inv_def)

section \<open>The tasks\<close>

lemma send_reply_more: "machine.more (send_reply E s st) = machine.more st"
proof (induction E s st rule: send_reply.induct)
  case (1 E s st)
  then show ?case by (subst send_reply.simps) (auto simp: split_def Let_def log_event_def)
qed

lemma inv_config_reply:
  assumes "queue_contract E content" "dash_inv content bc st" "config_reply E line whole out cap st = (r, st')"
  shows "dash_inv content bc st'"
proof -
  have load: "dash_inv content bc (log_event (Call ''xSemaphoreGive'') (snd (settings_load (eeprom_read E) (log_event (Call ''xSemaphoreTake'') st))))"
    using ee_only_load [OF ee_only_refl, of "log_event (Call ''xSemaphoreTake'') st" E] assms(2)
    by (auto intro: inv_more simp: ee_only_def)
  have conf: "dash_inv content bc (snd (configure E line st))"
  proof -
    let ?s0 = "log_event (Call ''xSemaphoreTake'') st"
    obtain error nxt where p: "miner_config_parse (de_validate E) (de_search E) line (db_settings ?s0) settings_defaults = (error, nxt)" by fastforce
    obtain rc s1 where s1: "settings_save nxt (eeprom_read E) (eeprom_write E) ?s0 = (rc, s1)" by fastforce
    have "ee_only ?s0 s1" using ee_only_save [OF ee_only_refl, of ?s0 nxt E] s1 by simp
    then have i1: "dash_inv content bc s1" using assms(2) by (auto intro: inv_more simp: ee_only_def)
    have nxt: "settings_valid nxt \<and> settings_wf nxt" if "error = None"
      using config_parse_fields [OF p [unfolded that]] assms(2) by (simp add: dash_inv_def log_event_def) blast
    have give: "dash_inv content bc s \<Longrightarrow> dash_inv content bc (log_event (Call ''xSemaphoreGive'') s)" for s
      by (rule inv_more) simp_all
    have i0: "dash_inv content bc ?s0" by (rule inv_more [OF assms(2)]) simp
    have i2: "dash_inv content bc (s1\<lparr>db_settings := nxt, db_generation := db_generation s1 + 1\<rparr>)" if "error = None"
      using i1 nxt [OF that] by (simp add: dash_inv_def)
    show ?thesis
      using p s1 give [OF i0] give [OF i1] inv_event [OF assms(1) give [OF i2]]
      by (cases error) (simp_all add: configure_def Let_def)
  qed
  show ?thesis
    using assms(2,3) load conf by (auto simp: config_reply_def Let_def split: prod.splits if_splits)
qed

lemma request_loop_more:
  assumes "request_loop E start line st = Some y"
  shows "machine.more (snd y) = machine.more st"
proof (rule request_loop.raw_induct [OF _ assms, where P = "\<lambda>E start line st y. machine.more (snd y) = machine.more st"])
  fix loop E start line and st :: "('a, 'b) dashboard" and y
  assume IH: "\<And>E start line (st :: ('a, 'b) dashboard) y. loop E start line st = Some y \<Longrightarrow> machine.more (snd y) = machine.more st"
    and run: "(if \<not> length line < 1024 then Some ((line, False), st)
      else let (now, st) = xTaskGetTickCount E st
      in if \<not> now - start < pdMS_TO_TICKS 3000 then Some ((line, False), st)
      else let ((n, c), d) = de_recv E (m_dev st); st = st\<lparr>m_dev := d\<rparr>
      in if n < 0 \<and> n \<noteq> - de_ewouldblock E then Some ((line, False), st)
      else if n \<noteq> 1 then loop E start line st
      else if c = 0x0A then Some ((line, True), st)
      else loop E start (line @ [c]) st) = Some y"
  have tick: "machine.more (snd (xTaskGetTickCount E st)) = machine.more st" by (simp add: xTaskGetTickCount_def split_def Let_def)
  show "machine.more (snd y) = machine.more st"
    using run tick by (auto simp: split_def Let_def split: if_splits dest!: IH)
qed

lemma inv_config_step:
  assumes "queue_contract E content" "dash_inv content bc st" "config_step E out st = Some st'"
  shows "dash_inv content bc st'"
proof -
  have dev: "dash_inv content bc (s\<lparr>m_dev := d\<rparr>)" if "dash_inv content bc s" for s d by (rule inv_more [OF that]) simp
  let ?s0 = "st\<lparr>m_dev := de_setsockopt E ''SNDTIMEO'' 50 (de_setsockopt E ''RCVTIMEO'' 10 (snd (de_accept E (m_dev st))))\<rparr>"
  obtain start s1 where s1: "xTaskGetTickCount E ?s0 = (start, s1)" by fastforce
  then have i1: "dash_inv content bc s1"
    using assms(2) by (intro inv_more [OF assms(2)]) (auto simp: xTaskGetTickCount_def split_def Let_def)
  show ?thesis
  proof (cases "fst (de_accept E (m_dev st))")
    case False
    then have "st' = vTaskDelay E 1 (st\<lparr>m_dev := snd (de_accept E (m_dev st))\<rparr>)" using assms(3) by (simp add: config_step_def split_def)
    then show ?thesis by (intro inv_more [OF assms(2)]) (simp add: vTaskDelay_def)
  next
    case True
    then obtain l whole s2 where s2: "request_loop E start [] s1 = Some ((l, whole), s2)"
      using assms(3) s1 by (auto simp: config_step_def split_def Let_def split: option.splits)
    obtain n buf s3 where s3: "config_reply E l whole out 1024 s2 = ((n, buf), s3)" by (metis prod.exhaust)
    have "dash_inv content bc s2" using request_loop_more [OF s2] by (intro inv_more [OF i1]) simp
    from inv_config_reply [OF assms(1) this s3] have i3: "dash_inv content bc s3" .
    then have "dash_inv content bc (send_reply E msg s3)" for msg by (rule inv_more) (rule send_reply_more)
    then show ?thesis using assms(3) True s1 s2 s3 i3 by (auto simp: config_step_def split_def Let_def dev split: if_splits)
  qed
qed

section \<open>Reachable states\<close>

inductive dash_reach :: "('d, 'q) dashboard_env \<Rightarrow> broadcast \<Rightarrow> ('d, 'q) dashboard \<Rightarrow> bool" for E where
  start: "db_stats st0 = miner_stats_zero \<Longrightarrow> settings_wf (db_settings st0) \<Longrightarrow> settings_valid (db_settings st0) \<Longrightarrow>
    dashboard_start E st0 = Some st1 \<Longrightarrow> length message = MINER_TELEMETRY_MAX \<Longrightarrow> broadcast_start E message (st1\<lparr>m_dev := d, m_trace := tr\<rparr>) = Some (bc, st) \<Longrightarrow>
    dash_reach E bc st"
| power: "dash_reach E bc st \<Longrightarrow> length samples = 2 \<Longrightarrow> list_all sample_wf samples \<Longrightarrow> dash_reach E bc (telemetry_power samples st)"
| detail: "dash_reach E bc st \<Longrightarrow> event_wf e \<Longrightarrow> dash_reach E bc (telemetry_detail E e st)"
| event: "dash_reach E bc st \<Longrightarrow> dash_reach E bc (telemetry_event E name st)"
| job: "dash_reach E bc st \<Longrightarrow> dash_reach E bc (snd (telemetry_job E jid st))"
| mining: "dash_reach E bc st \<Longrightarrow> dash_reach E bc (telemetry_mining active st)"
| broadcast: "dash_reach E bc st \<Longrightarrow> broadcast_step E bc st = (bc', st') \<Longrightarrow> dash_reach E bc' st'"
| serve: "dash_reach E bc st \<Longrightarrow> config_start E st = Some st' \<Longrightarrow> dash_reach E bc st'"
| config: "dash_reach E bc st \<Longrightarrow> config_step E out st = Some st' \<Longrightarrow> dash_reach E bc st'"
| other: "dash_reach E bc st \<Longrightarrow> dash_reach E bc (st\<lparr>m_dev := d, m_trace := tr\<rparr>)"

lemma bound_socket_more: "bound_socket E dgram port st = (ok, st') \<Longrightarrow> machine.more st' = machine.more st"
  by (auto simp: bound_socket_def split_def Let_def split: if_splits)

lemma create_more: "xTaskCreate E name st = (ok, st') \<Longrightarrow> machine.more st' = machine.more st"
  by (auto simp: xTaskCreate_def split_def Let_def)

lemma broadcast_start_spec:
  assumes "broadcast_start E message st = Some (bc, st')"
  shows "machine.more st' = machine.more st \<and> bc_clients bc = replicate 4 client_zero \<and> bc_message bc = message"
proof -
  obtain ok s1 where s1: "bound_socket E True 4028 st = (ok, s1)" by fastforce
  obtain t s2 where s2: "xTaskGetTickCount E s1 = (t, s2)" by fastforce
  obtain g s3 where s3: "Xil_In32 E 0x44a300a8 s2 = (g, s3)" by fastforce
  obtain p s4 where s4: "Xil_In32 E 0x44a300ac s3 = (p, s4)" by fastforce
  have "machine.more s2 = machine.more s1" using s2 by (auto simp: xTaskGetTickCount_def split_def Let_def)
  then have "machine.more s3 = machine.more st" "machine.more s4 = machine.more st"
    using bound_socket_more [OF s1] more_In32 [OF s3] more_In32 [OF s4] by simp_all
  then show ?thesis using assms s1 s2 s3 s4 by (auto simp: broadcast_start_def Let_def split: if_splits)
qed

lemma power_start_more: "power_start E st = Some st' \<Longrightarrow> machine.more st' = machine.more st"
proof -
  assume run: "power_start E st = Some st'"
  obtain v s1 where s1: "Xil_In32 E MINER_HW_VERSION_REG st = (v, s1)" by fastforce
  obtain ok s2 where s2: "xTaskCreate E ''power'' s1 = (ok, s2)" by fastforce
  show ?thesis using run s1 s2 more_In32 [OF s1] create_more [OF s2] by (auto simp: power_start_def split: if_splits)
qed

lemma dashboard_start_spec:
  assumes "dashboard_start E st0 = Some st1"
  shows "\<exists>q d d' v1 v2 v3. de_queue_create E 32 d = (Some q, d') \<and> db_events st1 = Some q \<and>
    db_stats st1 = (db_stats st0)\<lparr>ts_engines := v1, ts_hw_version := v2, ts_bootloader_version := v3\<rparr> \<and>
    db_settings st1 = db_settings st0 \<and> db_active_mac st1 = db_active_mac st0 \<and> db_generation st1 = db_generation st0 \<and>
    db_event_seq st1 = db_event_seq st0"
proof -
  obtain v1 s1 where s1: "Xil_In32 E MINER_ENGINES_REG st0 = (v1, s1)" by fastforce
  let ?s1 = "s1\<lparr>db_stats := (db_stats s1)\<lparr>ts_engines := v1\<rparr>\<rparr>"
  obtain v2 s2 where s2: "Xil_In32 E MINER_HW_VERSION_REG ?s1 = (v2, s2)" by fastforce
  let ?s2 = "s2\<lparr>db_stats := (db_stats s2)\<lparr>ts_hw_version := v2\<rparr>\<rparr>"
  obtain v3 s3 where s3: "Xil_In32 E MINER_BOOT_VERSION_REG ?s2 = (v3, s3)" by fastforce
  let ?s3 = "s3\<lparr>db_stats := (db_stats s3)\<lparr>ts_bootloader_version := v3\<rparr>\<rparr>"
  obtain oq d where oq: "de_queue_create E 32 (m_dev s3) = (oq, d)" by fastforce
  let ?s4 = "?s3\<lparr>m_dev := d, db_events := oq\<rparr>"
  obtain ok5 s5 where s5: "xTaskCreate E ''telemetry'' ?s4 = (ok5, s5)" by fastforce
  obtain ok6 s6 where s6: "xTaskCreate E ''config'' s5 = (ok6, s6)" by fastforce
  have run: "oq \<noteq> None" "power_start E s6 = Some st1"
    using assms by (simp_all add: dashboard_start_def s1 s2 s3 oq s5 s6 Let_def split: if_splits)
  then obtain q where q: "oq = Some q" by auto
  note f = more_fields [OF more_In32 [OF s1, THEN conjunct1]] more_fields [OF more_In32 [OF s2, THEN conjunct1]]
    more_fields [OF more_In32 [OF s3, THEN conjunct1]]
  have "machine.more st1 = machine.more ?s4"
    using power_start_more [OF run(2)] create_more [OF s5] create_more [OF s6] by (simp only:)
  note this [THEN more_fields(1)] this [THEN more_fields(2)] this [THEN more_fields(3)] this [THEN more_fields(4)] this [THEN more_fields(5)] this [THEN more_fields(6)]
  with f oq q show ?thesis
    by (intro exI [of _ q] exI [of _ "m_dev s3"] exI [of _ d] exI [of _ v1] exI [of _ v2] exI [of _ v3]) simp
qed

lemma start_inv:
  assumes "queue_contract E content" and st0: "db_stats st0 = miner_stats_zero" "settings_wf (db_settings st0)" "settings_valid (db_settings st0)"
    and "dashboard_start E st0 = Some st1" "length message = MINER_TELEMETRY_MAX"
      "broadcast_start E message (st1\<lparr>m_dev := d, m_trace := tr\<rparr>) = Some (bc, st)"
  shows "dash_inv content bc st"
proof -
  from dashboard_start_spec [OF assms(5)] obtain q d1 d2 v1 v2 v3 where
    q: "de_queue_create E 32 d1 = (Some q, d2)" and f: "db_events st1 = Some q"
      "db_stats st1 = (db_stats st0)\<lparr>ts_engines := v1, ts_hw_version := v2, ts_bootloader_version := v3\<rparr>"
      "db_settings st1 = db_settings st0" by blast
  note bs = broadcast_start_spec [OF assms(7)]
  have "content q = []" using assms(1) q unfolding queue_contract_def by blast
  moreover have "stats_wf (db_stats st1) \<and> length (ts_job_id (db_stats st1)) = 128"
    using f(2) st0(1) by (simp add: stats_wf_def miner_stats_zero_def list_all_iff sample_wf_def ina700_sample_zero_def int32_def cstr_def)
  ultimately have "dash_inv content bc st1" using st0 f bs assms(6) by (simp add: dash_inv_def separate_def client_zero_def)
  then show ?thesis by (rule inv_more) (use bs in simp)
qed

lemma reach_inv:
  assumes "dash_reach E bc st" "queue_contract E content"
  shows "dash_inv content bc st"
  using assms(1)
proof induction
  case (start st0 st1 message d tr bc st)
  then show ?case using start_inv [OF assms(2)] by blast
next
  case (broadcast bc st bc' st')
  then obtain q where q: "db_events st = Some q" by (auto simp: dash_inv_def)
  obtain n request peer d where d: "de_recvfrom E 79 (m_dev st) = ((n, request, peer), d)" by (metis prod.exhaust)
  obtain now d' where d': "os_ticks E d = (now, d')" by fastforce
  obtain r q' where r: "de_queue_receive E q = (r, q')" by fastforce
  show ?case by (rule broadcast_step_spec(1) [OF assms(2) broadcast.IH d d' q r broadcast.hyps(2)])
next
  case (serve bc st st')
  obtain ok s1 where s1: "bound_socket E False 4029 st = (ok, s1)" by fastforce
  have "machine.more st' = machine.more st"
    using serve.hyps(2) s1 bound_socket_more [OF s1] by (auto simp: config_start_def split_def Let_def split: if_splits)
  then show ?case by (rule inv_more [OF serve.IH])
next
  case (config bc st out st')
  then show ?case using inv_config_step [OF assms(2)] by blast
next
  case other
  show ?case by (rule inv_more [OF other.IH]) simp
qed (use inv_detail [OF assms(2)] inv_event [OF assms(2)] inv_job [OF assms(2)] in
  \<open>auto simp: telemetry_power_def telemetry_mining_def dash_inv_def stats_wf_def\<close>)

lemma message_texts_bound:
  assumes "stats_wf s" "event_wf e" "centi \<in> {- 27367..22769}" "t \<in> set (message_texts s e seq event_seq uptime centi mac np np')"
  shows "length t \<le> 1472"
proof -
  have c: "int32 centi" using assms(3) by (simp add: int32_def)
  have "length (status_text s status_event sq event_seq uptime centi mac a b) \<le> 1472" for sq a b
    using length_status_text [OF assms(1) c, of status_event sq event_seq uptime mac a b] status_event_text(2)
    by (simp add: status_event_text(1))
  moreover have "length (event_text e sq event_seq uptime centi mac) \<le> 1472" for sq
    using length_event_text [OF assms(2) c, of sq event_seq uptime mac] by linarith
  ultimately show ?thesis using assms(4) by (auto simp: message_texts_def Let_def split: if_splits)
qed

lemma message_texts_nonempty: "message_texts s e seq event_seq uptime centi mac np np' \<noteq> []"
  by (simp add: message_texts_def Let_def)

section \<open>A concrete environment\<close>

text \<open>A quiet board: every register reads zero, the time is the device state, and the queue holds 32 events.\<close>

definition demo_peer :: sockaddr where
  "demo_peer = \<lparr>sin_address = 0x0A000001, sin_port = 5000\<rparr>"

definition quiet_env :: "(nat, miner_event list) dashboard_env" where
  "quiet_env = \<lparr>bsp_in32 = \<lambda>a d. (0, d), bsp_out32 = \<lambda>a v d. d, bsp_in8 = \<lambda>a d. (0, d), bsp_out8 = \<lambda>a v d. d,
     bsp_printf = \<lambda>f args d. d, os_ticks = \<lambda>d. (of_nat d, d), os_delay = \<lambda>n d. d + unat n, os_task_create = \<lambda>n d. (True, d),
     de_validate = \<lambda>s. False, de_search = \<lambda>s q. JSONNotFound, de_queue_create = \<lambda>n d. (Some [], d),
     de_queue_send = \<lambda>e q. if length q < 32 then (True, q @ [e]) else (False, q),
     de_queue_receive = \<lambda>q. case q of [] \<Rightarrow> (None, []) | e # q \<Rightarrow> (Some e, q),
     de_socket = \<lambda>k d. (True, d), de_bind = \<lambda>p d. (0, d), de_setsockopt = \<lambda>o' n d. d, de_close = \<lambda>d. d, de_listen = \<lambda>n d. (0, d),
     de_recvfrom = \<lambda>n d. ((17, ascii ''SCU35_SUBSCRIBE/1'', demo_peer), d + 200), de_sendto = \<lambda>m p d. d,
     de_accept = \<lambda>d. (True, d), de_recv = \<lambda>d. ((0, 0), d + 10), de_send = \<lambda>s d. (int (length s), d), de_shutdown = \<lambda>d. d,
     de_ewouldblock = 11, de_sysmon_base = 0x44a40000, de_network_up = \<lambda>d. True, de_phy_known = \<lambda>d. True\<rparr>"

definition quiet_dash :: "(nat, miner_event list) dashboard" where
  "quiet_dash = \<lparr>m_dev = 0, m_trace = [], db_events = None, db_event_seq = 0, db_stats = miner_stats_zero,
     db_settings = settings_defaults, db_generation = 0, db_active_mac = ms_mac settings_defaults\<rparr>"

lemma quiet_queue: "queue_contract quiet_env (\<lambda>q. q)"
  by (auto simp: queue_contract_def quiet_env_def split: list.splits if_splits)

lemma quiet_clock: "request_clock quiet_env (\<lambda>d. d)"
  by (simp add: request_clock_def quiet_env_def)

definition quiet_start :: "(nat, miner_event list) dashboard" where
  "quiet_start = the (dashboard_start quiet_env quiet_dash)"

lemma quiet_started: "dashboard_start quiet_env quiet_dash = Some quiet_start" "m_dev quiet_start = 0" "db_events quiet_start = Some []"
  "datagrams quiet_start = []"
  by (simp_all add: quiet_start_def dashboard_start_def quiet_env_def quiet_dash_def Xil_In32_def xTaskCreate_def power_start_def
    log_event_def datagrams_def)

definition quiet_task :: "broadcast \<times> (nat, miner_event list) dashboard" where
  "quiet_task = the (broadcast_start quiet_env (replicate MINER_TELEMETRY_MAX 0) quiet_start)"

lemma quiet_task: "broadcast_start quiet_env (replicate MINER_TELEMETRY_MAX 0) quiet_start = Some quiet_task"
  "m_dev (snd quiet_task) = 0" "db_events (snd quiet_task) = Some []" "bc_last_status (fst quiet_task) = 0"
  "bc_clients (fst quiet_task) = replicate 4 client_zero" "datagrams (snd quiet_task) = []"
  using quiet_started(2-4)
  by (simp_all add: quiet_task_def broadcast_start_def bound_socket_def quiet_env_def Xil_In32_def xTaskGetTickCount_def log_event_def
    datagrams_def)

lemma quiet_reach: "dash_reach quiet_env (fst quiet_task) (snd quiet_task)"
proof (rule dash_reach.start)
  show "dashboard_start quiet_env quiet_dash = Some quiet_start" by (rule quiet_started(1))
  show "broadcast_start quiet_env (replicate MINER_TELEMETRY_MAX 0) (quiet_start\<lparr>m_dev := m_dev quiet_start, m_trace := m_trace quiet_start\<rparr>) =
      Some (fst quiet_task, snd quiet_task)"
    using quiet_task(1) by simp
qed (simp_all add: quiet_dash_def settings_defaults_valid)

section \<open>Properties\<close>



text \<open>
  C38. The shared variables of the dashboard keep their types and bounds under every interleaving of the operations: the job
  identifier and the strings of all queued events are terminated within their arrays, both power samples
  fit 32 bits, the settings are always valid, and no peer occupies two slots of the client table.
\<close>

theorem dashboard_types:
  assumes "queue_contract E content" "dash_reach E bc st"
  shows "dash_inv content bc st"
  by (rule reach_inv [OF assms(2,1)])

theorem dashboard_types_witness: "dash_inv (\<lambda>q. q) (fst quiet_task) (telemetry_event quiet_env ''pool_connected'' (snd quiet_task))"
  by (rule dashboard_types [OF quiet_queue dash_reach.event [OF quiet_reach]])

text \<open>
  C39. A configuration request is all or nothing. The reply is always complete and ends with a newline; the settings change exactly
  when it reports success, and then to the valid settings of the request, after the EEPROM record was
  written and verified, with the generation counter advanced; every other request leaves all variables
  of the dashboard as they were. Only the EEPROM controller and the settings lock are accessed.
\<close>

theorem config_reply_safe:
  assumes "settings_wf (db_settings st)" "length out = 1024" "config_reply E line whole out 1024 st = ((n, buf), st')"
  shows "emits config_access st st' \<and> (\<exists>t. complete_reply n buf t \<and>
    (t = error_text None \<and> whole \<and> accepted E line st st' \<and> settings_valid (db_settings st') \<and> settings_wf (db_settings st') \<or>
     t \<noteq> error_text None \<and> machine.more st' = machine.more st))"
proof -
  have "settings_valid (db_settings st') \<and> settings_wf (db_settings st')" if "accepted E line st st'"
  proof -
    from that have "miner_config_parse (de_validate E) (de_search E) line (db_settings st) settings_defaults = (None, db_settings st')"
      by (auto simp: accepted_def)
    from config_parse_fields [OF this assms(1)] show ?thesis by blast
  qed
  with config_reply_spec [OF assms(2,3)] show ?thesis by blast
qed

theorem config_reply_safe_witness:
  "\<exists>n buf st. config_reply quiet_env (ascii ''x'') True (replicate 1024 0) 1024 quiet_dash = ((n, buf), st) \<and>
     complete_reply n buf (error_text (Some ''invalid JSON request'')) \<and> db_settings st = settings_defaults"
proof -
  have r: "config_reply quiet_env (ascii ''x'') True (replicate 1024 0) 1024 quiet_dash =
      (snprintf_to (replicate 1024 0) 1024 (error_text (Some ''invalid JSON request'')), quiet_dash)"
    by (simp add: config_reply_def quiet_env_def Let_def split_def)
  obtain n buf where p: "snprintf_to (replicate 1024 0) 1024 (error_text (Some ''invalid JSON request'')) = (n, buf)" by fastforce
  from config_reply_safe [OF _ _ r [unfolded p]] obtain t where t: "complete_reply n buf t"
    by (auto simp: quiet_dash_def settings_defaults_valid)
  moreover have "t = error_text (Some ''invalid JSON request'')"
    using t printed [OF length_error_text _ p] by (simp add: complete_reply_def)
  ultimately show ?thesis using r p by (auto simp: quiet_dash_def)
qed

text \<open>
  C40. The configuration server never hangs on a client: whatever and however slowly it sends, and also when it disconnects and the receive
  fails at once, an iteration of \<open>config_task\<close>
  ends, because every pass of the read loop stores a byte of at most 1024, ends the loop, or waits while the three seconds run down,
  also across the wrap-around of the tick counter. It is assumed only that the tick counter gives the time and that a receive that times out takes some.
\<close>

theorem config_step_ends:
  assumes "request_clock E t"
  shows "\<exists>st'. config_step E out st = Some st'"
  by (rule config_step_total [OF assms])

text \<open>A client that sends nothing, and one that hangs up: every receive fails in no time.\<close>

definition hangup_env :: "(nat, miner_event list) dashboard_env" where
  "hangup_env = quiet_env\<lparr>de_recv := \<lambda>d. ((-128, 0), d)\<rparr>"

lemma hangup_clock: "request_clock hangup_env (\<lambda>d. d)"
  by (simp add: request_clock_def hangup_env_def quiet_env_def)

theorem config_step_ends_witness:
  "(\<exists>st'. config_step quiet_env (replicate 1024 0) quiet_dash = Some st') \<and> (\<exists>st'. config_step hangup_env (replicate 1024 0) quiet_dash = Some st')"
  using config_step_ends [OF quiet_clock] config_step_ends [OF hangup_clock] by blast

end
