(* ===== verification/Telemetry_Atomic.thy ===== *)
theory Telemetry_Atomic
  imports Dashboard_Reach "HOL-Library.Multiset"
begin

text \<open>
  Preemption inside the telemetry calls of \<open>dashboard.c\<close>. A call of \<open>telemetry_detail\<close> is three atomic actions: the critical section that
  counts, the queue operation, and the critical section that counts a drop; other tasks may run between them. Any number of calls
  are in progress at once, together with the telemetry task. Under all these interleavings no update is lost and no event disappears uncounted.
\<close>

section \<open>The atomic actions\<close>

definition detail_count :: "miner_event \<Rightarrow> ('d, 'q) dashboard \<Rightarrow> ('d, 'q) dashboard" where
  "detail_count event st = st\<lparr>db_stats := count_event (cstr (ev_name event)) (db_stats st)\<rparr>"

definition detail_queue :: "('d, 'q) dashboard_env \<Rightarrow> miner_event \<Rightarrow> ('d, 'q) dashboard \<Rightarrow> bool \<times> ('d, 'q) dashboard" where
  "detail_queue E event st =
     (case db_events st of None \<Rightarrow> (True, st)
      | Some q \<Rightarrow> let (ok, q) = de_queue_send E event q in (ok, st\<lparr>db_events := Some q\<rparr>))"

definition detail_drop :: "('d, 'q) dashboard \<Rightarrow> ('d, 'q) dashboard" where
  "detail_drop st = st\<lparr>db_stats := (db_stats st)\<lparr>ts_dropped := ts_dropped (db_stats st) + 1\<rparr>\<rparr>"

definition job_count :: "bytes \<Rightarrow> ('d, 'q) dashboard \<Rightarrow> u32 \<times> ('d, 'q) dashboard" where
  "job_count jid st =
     (let s = db_stats st; s = s\<lparr>ts_jobs := ts_jobs s + 1\<rparr>;
          s = s\<lparr>ts_job_id := snd (snprintf_to (ts_job_id s) 128 (cstr jid))\<rparr>
      in (ts_jobs s, st\<lparr>db_stats := s\<rparr>))"

text \<open>The iteration of the telemetry task takes one event off the queue.\<close>

definition take_event :: "('d, 'q) dashboard_env \<Rightarrow> ('d, 'q) dashboard \<Rightarrow> miner_event option \<times> ('d, 'q) dashboard" where
  "take_event E st =
     (let (received, st) = (case db_events st of None \<Rightarrow> (None, st)
        | Some q \<Rightarrow> let (e, q) = de_queue_receive E q in (e, st\<lparr>db_events := Some q\<rparr>))
      in (received, if received \<noteq> None then st\<lparr>db_event_seq := db_event_seq st + 1\<rparr> else st))"

text \<open>The functions of the file run these actions one after the other.\<close>

lemma telemetry_detail_atomic:
  "telemetry_detail E event st =
     (let (ok, st) = detail_queue E event (detail_count event st) in if ok then st else detail_drop st)"
  by (simp add: telemetry_detail_def detail_queue_def detail_count_def detail_drop_def Let_def split: option.split prod.split)

lemma telemetry_job_atomic:
  "telemetry_job E jid st = (let (number, st) = job_count jid st in (number, telemetry_event E ''mining_job_received'' st))"
  by (simp add: telemetry_job_def job_count_def Let_def)

section \<open>Interleavings\<close>

datatype call = Counted (call_event: miner_event) | Refused (call_event: miner_event)

text \<open>
  The dashboard with the calls in progress, the events reported, delivered to the telemetry task, and dropped, in the order in
  which that happened.
\<close>

inductive tele_run ::
  "('d, 'q) dashboard_env \<Rightarrow> ('d, 'q) dashboard \<Rightarrow> call list \<Rightarrow> miner_event list \<Rightarrow> miner_event list \<Rightarrow> miner_event list \<Rightarrow> bool"
  for E where
  start: "db_stats st0 = miner_stats_zero \<Longrightarrow> db_event_seq st0 = 0 \<Longrightarrow> dashboard_start E st0 = Some st \<Longrightarrow> tele_run E st [] [] [] []"
| counted: "tele_run E st calls rep del lost \<Longrightarrow> tele_run E (detail_count e st) (Counted e # calls) (rep @ [e]) del lost"
| queued: "tele_run E st (xs @ Counted e # ys) rep del lost \<Longrightarrow> detail_queue E e st = (True, st') \<Longrightarrow> tele_run E st' (xs @ ys) rep del lost"
| refused: "tele_run E st (xs @ Counted e # ys) rep del lost \<Longrightarrow> detail_queue E e st = (False, st') \<Longrightarrow>
    tele_run E st' (xs @ Refused e # ys) rep del lost"
| dropped: "tele_run E st (xs @ Refused e # ys) rep del lost \<Longrightarrow> tele_run E (detail_drop st) (xs @ ys) rep del (lost @ [e])"
| received: "tele_run E st calls rep del lost \<Longrightarrow> take_event E st = (r, st') \<Longrightarrow>
    tele_run E st' calls rep (case r of None \<Rightarrow> del | Some e \<Rightarrow> del @ [e]) lost"
| job: "tele_run E st calls rep del lost \<Longrightarrow> tele_run E (snd (job_count jid st)) calls rep del lost"
| mining: "tele_run E st calls rep del lost \<Longrightarrow> tele_run E (telemetry_mining active st) calls rep del lost"
| power: "tele_run E st calls rep del lost \<Longrightarrow> tele_run E (telemetry_power samples st) calls rep del lost"
| sample: "tele_run E st calls rep del lost \<Longrightarrow> sample_hashes E now bc st = (bc', st') \<Longrightarrow> tele_run E st' calls rep del lost"
| other: "tele_run E st calls rep del lost \<Longrightarrow>
    tele_run E (st\<lparr>m_dev := d, m_trace := tr, db_settings := s, db_generation := g, db_active_mac := mac\<rparr>) calls rep del lost"

text \<open>How many of the events carry a name, and the ledger that every interleaving keeps.\<close>

definition named :: "string \<Rightarrow> miner_event list \<Rightarrow> u32" where
  "named s es = of_nat (length (filter (\<lambda>e. cstr (ev_name e) = ascii s) es))"

definition ledger :: "('q \<Rightarrow> miner_event list) \<Rightarrow> ('d, 'q) dashboard \<Rightarrow> call list \<Rightarrow> miner_event list \<Rightarrow> miner_event list \<Rightarrow> miner_event list \<Rightarrow> bool" where
  "ledger content st calls rep del lost \<longleftrightarrow>
     (\<exists>q. db_events st = Some q \<and> mset rep = mset del + mset (content q) + mset (map call_event calls) + mset lost) \<and>
     db_event_seq st = of_nat (length del) \<and> ts_dropped (db_stats st) = of_nat (length lost) \<and>
     ts_submitted (db_stats st) = named ''solution_submitted'' rep \<and> ts_accepted (db_stats st) = named ''solution_accepted'' rep \<and>
     ts_rejected (db_stats st) = named ''solution_rejected'' rep \<and> ts_invalid (db_stats st) = named ''hardware_solution_invalid'' rep"

lemma named_snoc: "named s (es @ [e]) = (if cstr (ev_name e) = ascii s then named s es + 1 else named s es)"
  by (simp add: named_def)

lemma count_event_counts:
  "ts_submitted (count_event n s) = (if n = ascii ''solution_submitted'' then ts_submitted s + 1 else ts_submitted s)"
  "ts_accepted (count_event n s) = (if n = ascii ''solution_accepted'' then ts_accepted s + 1 else ts_accepted s)"
  "ts_rejected (count_event n s) = (if n = ascii ''solution_rejected'' then ts_rejected s + 1 else ts_rejected s)"
  "ts_invalid (count_event n s) = (if n = ascii ''hardware_solution_invalid'' then ts_invalid s + 1 else ts_invalid s)"
  "ts_dropped (count_event n s) = ts_dropped s"
  by (simp add: count_event_def Let_def if_distrib [of ts_submitted] if_distrib [of ts_accepted] if_distrib [of ts_rejected]
    if_distrib [of ts_invalid] if_distrib [of ts_dropped] split del: if_split cong: if_cong, simp?)+

lemma sample_hashes_counts:
  assumes "sample_hashes E now bc st = (bc', st')"
  shows "ts_submitted (db_stats st') = ts_submitted (db_stats st) \<and> ts_accepted (db_stats st') = ts_accepted (db_stats st) \<and>
    ts_rejected (db_stats st') = ts_rejected (db_stats st) \<and> ts_invalid (db_stats st') = ts_invalid (db_stats st) \<and>
    ts_dropped (db_stats st') = ts_dropped (db_stats st)"
  using assms by (auto simp: sample_hashes_def Xil_In32_def log_event_def split_def Let_def split: if_splits)

lemma ledger_counted:
  assumes "ledger content st calls rep del lost"
  shows "ledger content (detail_count e st) (Counted e # calls) (rep @ [e]) del lost"
  using assms by (auto simp: ledger_def detail_count_def count_event_counts named_snoc simp del: ascii_Cons)

lemma ledger_queue:
  assumes "queue_contract E content" "ledger content st (xs @ Counted e # ys) rep del lost" "detail_queue E e st = (ok, st')"
  shows "ok \<Longrightarrow> ledger content st' (xs @ ys) rep del lost" "\<not> ok \<Longrightarrow> ledger content st' (xs @ Refused e # ys) rep del lost"
proof -
  obtain q where q: "db_events st = Some q" using assms(2) by (auto simp: ledger_def)
  obtain q' where q': "de_queue_send E e q = (ok, q')" "st' = st\<lparr>db_events := Some q'\<rparr>"
    using assms(3) q by (auto simp: detail_queue_def split: prod.splits)
  note c = queue_send [OF assms(1) q'(1)]
  show "ok \<Longrightarrow> ledger content st' (xs @ ys) rep del lost" "\<not> ok \<Longrightarrow> ledger content st' (xs @ Refused e # ys) rep del lost"
    using assms(2) q q'(2) c by (auto simp: ledger_def)
qed

lemma ledger_received:
  assumes "queue_contract E content" "ledger content st calls rep del lost" "take_event E st = (r, st')"
  shows "ledger content st' calls rep (case r of None \<Rightarrow> del | Some e \<Rightarrow> del @ [e]) lost"
proof -
  obtain q where q: "db_events st = Some q" using assms(2) by (auto simp: ledger_def)
  obtain q' where q': "de_queue_receive E q = (r, q')" "db_events st' = Some q'" "db_stats st' = db_stats st"
    "db_event_seq st' = (if r \<noteq> None then db_event_seq st + 1 else db_event_seq st)"
    using assms(3) q by (auto simp: take_event_def Let_def split: prod.splits)
  show ?thesis using assms(2) q q'(2-4) queue_receive [OF assms(1) q'(1)] by (auto simp: ledger_def split: option.splits)
qed

lemma ledger_start:
  assumes "queue_contract E content" "db_stats st0 = miner_stats_zero" "db_event_seq st0 = 0" "dashboard_start E st0 = Some st"
  shows "ledger content st [] [] [] []"
proof -
  from dashboard_start_spec [OF assms(4)] obtain q d d' v1 v2 v3 where
    q: "de_queue_create E 32 d = (Some q, d')" "db_events st = Some q"
      "db_stats st = (db_stats st0)\<lparr>ts_engines := v1, ts_hw_version := v2, ts_bootloader_version := v3\<rparr>" "db_event_seq st = db_event_seq st0"
    by blast
  have "content q = []" using assms(1) q(1) unfolding queue_contract_def by blast
  then show ?thesis using assms(2,3) q by (simp add: ledger_def named_def miner_stats_zero_def)
qed

lemma tele_run_ledger:
  assumes "queue_contract E content" "tele_run E st calls rep del lost"
  shows "ledger content st calls rep del lost"
  using assms(2)
proof induction
  case (start st0 st)
  then show ?case using ledger_start [OF assms(1)] by blast
next
  case counted
  show ?case by (rule ledger_counted [OF counted.IH])
next
  case queued
  then show ?case using ledger_queue(1) [OF assms(1)] by blast
next
  case refused
  then show ?case using ledger_queue(2) [OF assms(1)] by blast
next
  case received
  then show ?case using ledger_received [OF assms(1)] by blast
next
  case sample
  then show ?case using sample_hashes_counts [OF sample.hyps(2)] sample_hashes_spec [OF sample.hyps(2)] by (simp add: ledger_def)
qed (auto simp: ledger_def detail_drop_def job_count_def Let_def telemetry_mining_def telemetry_power_def)

section \<open>The functions as interleavings\<close>

text \<open>A call that is not preempted, and an iteration of the telemetry task, are among the runs.\<close>

lemma run_detail:
  assumes "tele_run E st calls rep del lost"
  shows "\<exists>lost'. tele_run E (telemetry_detail E e st) calls (rep @ [e]) del lost'"
proof -
  obtain ok st' where q: "detail_queue E e (detail_count e st) = (ok, st')" by fastforce
  note c = tele_run.counted [OF assms, of e]
  have step: "telemetry_detail E e st = (if ok then st' else detail_drop st')" using q by (simp add: telemetry_detail_atomic)
  show ?thesis
  proof (cases ok)
    case True
    then have "detail_queue E e (detail_count e st) = (True, st')" using q by simp
    from tele_run.queued [of E "detail_count e st" "[]" e calls, simplified, OF c this] show ?thesis using True step by auto
  next
    case False
    then have "detail_queue E e (detail_count e st) = (False, st')" using q by simp
    from tele_run.refused [of E "detail_count e st" "[]" e calls, simplified, OF c this] have "tele_run E st' (Refused e # calls) (rep @ [e]) del lost" .
    from tele_run.dropped [of E st' "[]" e calls, simplified, OF this] show ?thesis using False step by auto
  qed
qed

lemma run_more:
  assumes "tele_run E st calls rep del lost" "machine.more st' = machine.more st"
  shows "tele_run E st' calls rep del lost"
proof -
  have "st' = st\<lparr>m_dev := m_dev st', m_trace := m_trace st', db_settings := db_settings st, db_generation := db_generation st, db_active_mac := db_active_mac st\<rparr>"
    using assms(2) by (cases st; cases st') simp
  then show ?thesis using tele_run.other [OF assms(1)] by metis
qed

lemma run_event: "tele_run E st calls rep del lost \<Longrightarrow> \<exists>e lost'. tele_run E (telemetry_event E name st) calls (rep @ [e]) del lost'"
  unfolding telemetry_event_def Let_def using run_detail by blast

lemma run_job: "tele_run E st calls rep del lost \<Longrightarrow> \<exists>e lost'. tele_run E (snd (telemetry_job E jid st)) calls (rep @ [e]) del lost'"
  unfolding telemetry_job_atomic Let_def using run_event [OF tele_run.job] by (simp add: split_def)

text \<open>An iteration of the telemetry task: it samples, takes at most one event, and sends.\<close>

lemma send_clients_more: "machine.more (snd (send_clients E msg now is (clients, st))) = machine.more st"
  by (induction "is" arbitrary: clients st) simp_all

lemma send_part_more: "machine.more (snd (send_part E discovery peer now len message cs)) = machine.more (snd cs)"
  by (cases cs) (simp add: send_part_def Let_def send_clients_more del: upt_rec_numeral)

lemma broadcast_message_more: "machine.more (snd (broadcast_message E discovery peer now event bc st)) = machine.more st"
proof -
  obtain raw s0 where s0: "Xil_In32 E (de_sysmon_base E + 0x400) st = (raw, s0)" by fastforce
  show ?thesis using more_In32 [OF s0] by (simp add: broadcast_message_def s0 split_def Let_def send_part_more)
qed

lemma broadcast_step_cases:
  assumes "broadcast_step E bc st = (bc', st')"
  obtains d now bc1 bc2 s2 r s3 where "sample_hashes E now bc1 (st\<lparr>m_dev := d\<rparr>) = (bc2, s2)" "take_event E s2 = (r, s3)"
    "machine.more st' = machine.more s3"
proof -
  obtain n request peer d where d: "de_recvfrom E 79 (m_dev st) = ((n, request, peer), d)" by (metis prod.exhaust)
  obtain now d' where "os_ticks E d = (now, d')" by fastforce
  let ?st1 = "st\<lparr>m_dev := d'\<rparr>"
  have t: "xTaskGetTickCount E (st\<lparr>m_dev := d\<rparr>) = (now, ?st1)" using \<open>os_ticks E d = _\<close> by (simp add: xTaskGetTickCount_def)
  define bc1 where "bc1 = (if 0 < n \<and> request_text n request = ascii ''SCU35_SUBSCRIBE/1''
    then bc\<lparr>bc_clients := subscribe (bc_clients bc) peer now\<rparr> else bc)"
  obtain bc2 s2 where s2: "sample_hashes E now bc1 ?st1 = (bc2, s2)" by fastforce
  obtain r s3 where s3: "take_event E s2 = (r, s3)" by fastforce
  let ?disc = "0 < n \<and> request_text n request = ascii ''SCU35_DISCOVER/1''"
  have "st' = s3 \<or> (\<exists>e bc. st' = snd (broadcast_message E ?disc peer now e bc s3))"
  proof -
    obtain r0 s0 where q: "(case db_events s2 of None \<Rightarrow> (None, s2)
             | Some q \<Rightarrow> let (e, q) = de_queue_receive E q in (e, s2\<lparr>db_events := Some q\<rparr>)) = (r0, s0)" by fastforce
    then have "r = r0" "s3 = (if r0 \<noteq> None then s0\<lparr>db_event_seq := db_event_seq s0 + 1\<rparr> else s0)" using s3 by (auto simp: take_event_def)
    note s3' = this(2)
    have arms: "t = s \<or> t = snd B" if "(if P then (a, s) else B) = (b, t)" for P a b s t and B :: "broadcast \<times> ('a, 'b) dashboard"
      using that by (auto split: if_splits)
    from arms [OF assms [unfolded broadcast_step_def d Let_def prod.case t bc1_def [symmetric] s2 q [unfolded Let_def]]]
    show ?thesis unfolding s3' by blast
  qed
  then have "machine.more st' = machine.more s3" using broadcast_message_more by metis
  with s2 s3 show ?thesis by (rule that)
qed

lemma run_broadcast:
  assumes "tele_run E st calls rep del lost" "broadcast_step E bc st = (bc', st')"
  shows "\<exists>del'. tele_run E st' calls rep del' lost"
proof -
  from assms(2) obtain d now bc1 bc2 s2 r s3 where step: "sample_hashes E now bc1 (st\<lparr>m_dev := d\<rparr>) = (bc2, s2)" "take_event E s2 = (r, s3)"
    "machine.more st' = machine.more s3" by (rule broadcast_step_cases)
  have "tele_run E (st\<lparr>m_dev := d\<rparr>) calls rep del lost" by (rule run_more [OF assms(1)]) simp
  from tele_run.received [OF tele_run.sample [OF this step(1)] step(2)] show ?thesis using run_more [OF _ step(3)] by blast
qed

section \<open>Properties\<close>

text \<open>
  C31. No event is lost uncounted and no update of a counter is lost, whatever the preemption: at any moment, with any number of
  calls in progress, the events reported so far are exactly those that the telemetry task has received, those in the queue, those whose call is still in
  progress, and those dropped; the counters of submitted, accepted, rejected and invalid shares are the numbers of such events, the drop counter is the
  number of dropped events, and the event sequence number that of received ones (all modulo the width of the counter).
\<close>

theorem events_conserved:
  assumes "queue_contract E content" "tele_run E st calls rep del lost"
  shows "\<exists>q. db_events st = Some q \<and> mset rep = mset del + mset (content q) + mset (map call_event calls) + mset lost \<and>
    db_event_seq st = of_nat (length del) \<and> ts_dropped (db_stats st) = of_nat (length lost) \<and>
    ts_submitted (db_stats st) = named ''solution_submitted'' rep \<and> ts_accepted (db_stats st) = named ''solution_accepted'' rep \<and>
    ts_rejected (db_stats st) = named ''solution_rejected'' rep \<and> ts_invalid (db_stats st) = named ''hardware_solution_invalid'' rep"
  using tele_run_ledger [OF assms] by (auto simp: ledger_def simp del: ascii_Cons)

text \<open>Two calls that overlap: both count before either is queued.\<close>

definition share_event :: miner_event where
  "share_event = miner_event_zero\<lparr>ev_name := strcpy (ev_name miner_event_zero) (ascii ''solution_submitted'' @ [0])\<rparr>"

lemma event_names: "cstr (ev_name share_event) = ascii ''solution_submitted''" "cstr (ev_name status_event) \<noteq> ascii ''solution_submitted''"
  by (simp_all add: share_event_def status_event_def miner_event_zero_def strcpy_def memcpy_at_def cstr_def)

theorem events_conserved_witness:
  "\<exists>st. tele_run quiet_env st [Counted status_event, Counted share_event] [share_event, status_event] [] [] \<and> ts_submitted (db_stats st) = 1"
proof -
  have "tele_run quiet_env quiet_start [] [] [] []"
    by (rule tele_run.start [OF _ _ quiet_started(1)]) (simp_all add: quiet_dash_def)
  from tele_run.counted [OF tele_run.counted [OF this, of share_event], of status_event]
  have run: "tele_run quiet_env (detail_count status_event (detail_count share_event quiet_start)) [Counted status_event, Counted share_event]
    [share_event, status_event] [] []" by simp
  have "named ''solution_submitted'' [share_event, status_event] = 1" by (simp add: named_def event_names del: ascii_Cons)
  with events_conserved [OF quiet_queue run] run show ?thesis by metis
qed

end
