(* ===== verification/Miner_System.thy ===== *)
theory Miner_System
  imports Stratum_Pool Telemetry_Atomic
begin

text \<open>
  The Stratum task on top of the dashboard: its telemetry calls are those of \<open>dashboard.c\<close>, its settings are the shared ones. The device below the
  task is then the dashboard, with the board below that. What the dashboard reports about the session is shown to be the truth.
\<close>

section \<open>Composition\<close>

text \<open>Calls of the board and of the IP stack pass through the dashboard.\<close>

definition on_dev :: "('d \<Rightarrow> 'a \<times> 'd) \<Rightarrow> ('d, 'q) dashboard \<Rightarrow> 'a \<times> ('d, 'q) dashboard" where
  "on_dev f D = (let (v, d) = f (m_dev D) in (v, D\<lparr>m_dev := d\<rparr>))"

definition over_dev :: "('d \<Rightarrow> 'd) \<Rightarrow> ('d, 'q) dashboard \<Rightarrow> ('d, 'q) dashboard" where
  "over_dev f D = D\<lparr>m_dev := f (m_dev D)\<rparr>"

definition read_settings :: "('d, 'q) dashboard \<Rightarrow> (miner_settings \<times> u32) \<times> ('d, 'q) dashboard" where
  "read_settings D =
     (let D = log_event (Call ''xSemaphoreTake'') D; s = db_settings D; g = db_generation D
      in ((s, g), log_event (Call ''xSemaphoreGive'') D))"

definition system_env :: "('d, 'q) dashboard_env \<Rightarrow> 'd stratum_env \<Rightarrow> ('d, 'q) dashboard stratum_env" where
  "system_env E S = \<lparr>bsp_in32 = \<lambda>a. on_dev (bsp_in32 S a), bsp_out32 = \<lambda>a v. over_dev (bsp_out32 S a v), bsp_in8 = \<lambda>a. on_dev (bsp_in8 S a),
     bsp_out8 = \<lambda>a v. over_dev (bsp_out8 S a v), bsp_printf = \<lambda>f args. over_dev (bsp_printf S f args), env_validate = env_validate S,
     env_search = env_search S, env_send = \<lambda>s. on_dev (env_send S s), env_recv = \<lambda>n. on_dev (env_recv S n), env_ewouldblock = env_ewouldblock S,
     env_ticks = on_dev (env_ticks S), env_settings = read_settings, env_network_up = \<lambda>D. env_network_up S (m_dev D), env_generation = db_generation,
     env_gethostbyname = \<lambda>s. on_dev (env_gethostbyname S s), env_socket = on_dev (env_socket S), env_setsockopt = \<lambda>s n. over_dev (env_setsockopt S s n),
     env_connect = \<lambda>a p. on_dev (env_connect S a p), env_close = over_dev (env_close S), env_delay = \<lambda>n. over_dev (env_delay S n),
     env_event = telemetry_event E, env_detail = telemetry_detail E, env_job = telemetry_job E, env_mining = telemetry_mining\<rparr>"

section \<open>The status flags\<close>

definition flags :: "('d, 'q) dashboard \<Rightarrow> bool \<times> bool \<times> bool" where
  "flags D = (ts_connected (db_stats D), ts_authorized (db_stats D), ts_mining (db_stats D))"

lemma flags_dev [simp]:
  "flags (D\<lparr>m_dev := d\<rparr>) = flags D" "flags (D\<lparr>m_trace := tr\<rparr>) = flags D" "flags (log_event e D) = flags D" "flags (snd (on_dev f D)) = flags D" "flags (over_dev g D) = flags D"
  "flags (snd (read_settings D)) = flags D"
  by (simp_all add: flags_def log_event_def on_dev_def over_dev_def read_settings_def Let_def split_def)

lemma flags_detail:
  "flags (telemetry_detail E ev D) =
     (if cstr (ev_name ev) = ascii ''pool_disconnected'' then (False, False, False)
      else (ts_connected (db_stats D) \<or> cstr (ev_name ev) = ascii ''pool_connected'',
            ts_authorized (db_stats D) \<or> cstr (ev_name ev) = ascii ''pool_authorized'', ts_mining (db_stats D)))"
proof -
  have "flags (telemetry_detail E ev D) = flags (detail_count ev D)"
    by (auto simp: telemetry_detail_atomic detail_queue_def detail_drop_def flags_def Let_def split: option.split prod.split)
  moreover have "ts_connected (count_event n s) = (n \<noteq> ascii ''pool_disconnected'' \<and> (ts_connected s \<or> n = ascii ''pool_connected''))"
    "ts_authorized (count_event n s) = (n \<noteq> ascii ''pool_disconnected'' \<and> (ts_authorized s \<or> n = ascii ''pool_authorized''))"
    "ts_mining (count_event n s) = (n \<noteq> ascii ''pool_disconnected'' \<and> ts_mining s)" for n s
    by (simp add: count_event_def Let_def if_distrib [of ts_connected] if_distrib [of ts_authorized] if_distrib [of ts_mining]
      split del: if_split cong: if_cong, simp?)+
  ultimately show ?thesis by (simp add: flags_def detail_count_def del: ascii_Cons)
qed

lemma flags_event:
  assumes "length s < 64" "0 \<notin> set (ascii s)"
  shows "flags (telemetry_event E s D) =
     (if ascii s = ascii ''pool_disconnected'' then (False, False, False)
      else (ts_connected (db_stats D) \<or> ascii s = ascii ''pool_connected'', ts_authorized (db_stats D) \<or> ascii s = ascii ''pool_authorized'',
        ts_mining (db_stats D)))"
proof -
  have "ev_name miner_event_zero = replicate 64 0" by (simp add: miner_event_zero_def)
  then have "cstr (snd (snprintf_to (ev_name miner_event_zero) 64 (ascii s))) = ascii s"
    using cstr_printed [of "ascii s" 64] assms by simp
  then show ?thesis by (simp add: telemetry_event_def Let_def flags_detail del: ascii_Cons)
qed

text \<open>The calls of the task. Only four of its events concern the flags.\<close>

lemma tel_dev:
  "m_dev (tel_event E s st) = env_event E s (m_dev st)" "m_dev (tel_detail E ev st) = env_detail E ev (m_dev st)"
  "m_dev (tel_mining E b st) = env_mining E b (m_dev st)" "m_dev (snd (tel_job E jid st)) = snd (env_job E jid (m_dev st))"
  "m_dev (log_event x st) = m_dev st" "m_dev (reg_write E a v st) = bsp_out32 E (MINER + a) v (m_dev st)"
  "m_dev (snd (reg_read E a st)) = snd (bsp_in32 E (MINER + a) (m_dev st))" "m_dev (snd (get_ticks E st)) = snd (env_ticks E (m_dev st))"
  by (simp_all add: tel_event_def tel_detail_def tel_mining_def tel_job_def log_event_def reg_write_def reg_read_def get_ticks_def
    Xil_Out32_def Xil_In32_def split_def Let_def)

lemma flags_tel [simp]:
  "flags (m_dev (tel_event (system_env E S) ''difficulty_changed'' st)) = flags (m_dev st)"
  "flags (m_dev (tel_event (system_env E S) ''authorization_failed'' st)) = flags (m_dev st)"
  "flags (m_dev (tel_event (system_env E S) ''result_fifo_overflow'' st)) = flags (m_dev st)"
  "flags (m_dev (tel_event (system_env E S) ''hardware_solution_invalid'' st)) = flags (m_dev st)"
  "flags (m_dev (tel_event (system_env E S) ''share_queue_full'' st)) = flags (m_dev st)"
  "flags (m_dev (tel_event (system_env E S) ''pool_dns_failed'' st)) = flags (m_dev st)"
  "flags (m_dev (tel_event (system_env E S) ''pool_connected'' st)) = (True, snd (flags (m_dev st)))"
  "flags (m_dev (tel_event (system_env E S) ''pool_authorized'' st)) = (fst (flags (m_dev st)), True, snd (snd (flags (m_dev st))))"
  "flags (m_dev (tel_event (system_env E S) ''pool_disconnected'' st)) = (False, False, False)"
  by (simp_all add: tel_dev system_env_def flags_event) (simp_all add: flags_def)

lemma flags_mining [simp]:
  "flags (m_dev (tel_mining (system_env E S) b st)) = (fst (flags (m_dev st)), fst (snd (flags (m_dev st))), b)"
  by (simp add: tel_dev system_env_def telemetry_mining_def flags_def)

lemma flags_job [simp]: "flags (m_dev (snd (tel_job (system_env E S) jid st))) = flags (m_dev st)"
proof -
  have "flags (snd (telemetry_job E jid D)) = flags D" for D
    by (simp add: telemetry_job_atomic split_def Let_def flags_event) (simp add: flags_def job_count_def Let_def)
  then show ?thesis by (simp add: tel_dev system_env_def)
qed

lemma flags_io [simp]:
  "flags (m_dev (reg_write (system_env E S) a v st)) = flags (m_dev st)" "flags (m_dev (snd (reg_read (system_env E S) a st))) = flags (m_dev st)"
  "flags (m_dev (snd (get_ticks (system_env E S) st))) = flags (m_dev st)"
  "flags (env_delay (system_env E S) n D) = flags D" "flags (env_close (system_env E S) D) = flags D"
  "flags (env_setsockopt (system_env E S) q t D) = flags D" "flags (snd (env_connect (system_env E S) ad p D)) = flags D"
  "flags (snd (env_recv (system_env E S) k D)) = flags D" "flags (snd (env_gethostbyname (system_env E S) h D)) = flags D"
  "flags (snd (env_socket (system_env E S) D)) = flags D" "flags (snd (env_settings (system_env E S) D)) = flags D"
  "flags (snd (env_send (system_env E S) s D)) = flags D"
  by (simp_all add: tel_dev system_env_def)

lemma flags_log [simp]: "flags (m_dev (log_event e (st :: ('d, 'q) dashboard session))) = flags (m_dev st)"
  by (simp add: tel_dev)

lemma flags_send [simp]: "flags (m_dev (snd (send_line (system_env E S) s st))) = flags (m_dev st)"
proof (induction "system_env E S" s st rule: send_line.induct)
  case (1 s st)
  show ?case
  proof (cases "s = [] \<or> fst (env_send (system_env E S) s (m_dev st)) \<le> 0")
    case True
    then show ?thesis by (subst send_line.simps) (auto simp: split_def Let_def)
  next
    case False
    with 1 [OF _ refl prod.collapse] show ?thesis by (subst send_line.simps) (simp add: split_def Let_def)
  qed
qed

section \<open>Truthful status\<close>

text \<open>What the dashboard shows agrees with the session.\<close>

definition truthful :: "('d, 'q) dashboard session \<Rightarrow> bool" where
  "truthful st \<longleftrightarrow> flags (m_dev st) = (True, ss_authorized st, ss_running st) \<and> (ss_running st \<longrightarrow> ss_authorized st)"

lemma truthful_more: "machine.more st' = machine.more st \<Longrightarrow> flags (m_dev st') = flags (m_dev st) \<Longrightarrow> truthful st' = truthful st"
  using more_stratum [of st' st] by (simp add: truthful_def)

lemma flags_stop: "flags (m_dev (stop (system_env E S) st)) = (fst (flags (m_dev st)), fst (snd (flags (m_dev st))), False)"
  by (simp add: stop_def Let_def)

lemma truthful_stop: "truthful st \<Longrightarrow> truthful (stop (system_env E S) st)"
  by (simp add: truthful_def flags_stop)

lemma truthful_start_range: "truthful st \<Longrightarrow> ss_authorized st \<Longrightarrow> truthful (start_range (system_env E S) st)"
  by (simp add: truthful_def start_range_def Let_def)

lemma flags_fold: "(\<And>i st. flags (m_dev (f i st)) = flags (m_dev st)) \<Longrightarrow> flags (m_dev (fold f is st)) = flags (m_dev (st :: ('d, 'q) dashboard session))"
  by (induction "is" arbitrary: st) simp_all

lemma truthful_load: "truthful (load_registers (system_env E S) mid target tail st) = truthful st"
  by (rule truthful_more, rule load_registers_more, simp add: load_registers_def Let_def flags_fold del: upt_rec_numeral)

lemma truthful_upd [simp]:
  "truthful (st\<lparr>ss_extra2_hex := h\<rparr>) = truthful st" "truthful (st\<lparr>ss_header := h\<rparr>) = truthful st" "truthful (st\<lparr>ss_job := j\<rparr>) = truthful st"
  "truthful (st\<lparr>ss_have_job := b\<rparr>) = truthful st" "truthful (st\<lparr>ss_range_start := r\<rparr>) = truthful st" "truthful (st\<lparr>ss_pending := p\<rparr>) = truthful st"
  "truthful (st\<lparr>ss_next_id := n\<rparr>) = truthful st" "truthful (st\<lparr>ss_pending_target := t\<rparr>) = truthful st" "truthful (st\<lparr>ss_extra1 := e\<rparr>) = truthful st"
  "truthful (st\<lparr>ss_extra2 := e\<rparr>) = truthful st" "truthful (st\<lparr>ss_extra_exhausted := w\<rparr>) = truthful st"
  "truthful (st\<lparr>ss_extra1_size := n1\<rparr>) = truthful st" "truthful (st\<lparr>ss_extra2_size := n2\<rparr>) = truthful st" "truthful (st\<lparr>ss_subscribed := b\<rparr>) = truthful st"
  "truthful (snd (get_ticks (system_env E S) st)) = truthful st" "truthful (snd (reg_read (system_env E S) a st)) = truthful st"
  "truthful (reg_write (system_env E S) a v st) = truthful st" "truthful (snd (send_line (system_env E S) s st)) = truthful st"
  "truthful (snd (tel_job (system_env E S) jid st)) = truthful st"
  by (simp_all add: truthful_def)

lemma truthful_build: "truthful st \<Longrightarrow> ss_authorized st \<Longrightarrow> truthful (snd (build_header (system_env E S) st))"
  by (simp add: build_header_def Let_def split_def truthful_load truthful_start_range)

text \<open>Reading a job touches only the job.\<close>

definition job_only :: "'d session \<Rightarrow> int \<times> 'd session \<Rightarrow> bool" where
  "job_only st r \<longleftrightarrow> (\<exists>j. snd r = st\<lparr>ss_job := j\<rparr>)"

lemma job_onlyI:
  "(\<And>j. job_only st (b j)) \<Longrightarrow> job_only st (let j = t :: pool_job in b j)"
  "(\<And>k v. job_only st (f k v)) \<Longrightarrow> job_only st (let (k, v) = p in f k v)"
  "job_only st r \<Longrightarrow> job_only st r' \<Longrightarrow> job_only st (if c then r else r')"
  "(\<And>v t. job_only st (h v t)) \<Longrightarrow> job_only st r \<Longrightarrow> job_only st r' \<Longrightarrow> job_only st (case_json_found h r r' q')"
  "job_only st (rc, st\<lparr>ss_job := j\<rparr>)"
  by (auto simp: job_only_def Let_def split: prod.split json_found.split)

lemma notify_fields_only: "job_only st (notify_fields E s st)"
  unfolding notify_fields_def by (intro job_onlyI)

lemma notify_branches_truthful: "truthful (snd (notify_branches E s left i st)) = truthful st"
proof (induction E s left i st rule: notify_branches.induct)
  case (2 E s left i st)
  then show ?case by (auto simp: Let_def split: json_found.split prod.split)
qed simp

lemma notify_fields_truthful: "truthful (snd (notify_fields E s st)) = truthful st"
  using notify_fields_only [of st E s] by (auto simp: job_only_def)

lemma notify_job_truthful: "truthful st \<Longrightarrow> truthful (snd (notify_job (system_env E S) s st))"
  by (simp add: notify_job_def Let_def split_def truthful_stop truthful_build notify_fields_truthful notify_branches_truthful)

lemma set_extranonce_truthful: "truthful st \<Longrightarrow> truthful (snd (set_extranonce (system_env E S) s st))"
  by (simp add: set_extranonce_def Let_def split_def truthful_stop split: option.split)

lemma set_difficulty_truthful: "truthful st \<Longrightarrow> truthful (snd (set_difficulty (system_env E S) s st))"
  by (auto simp: set_difficulty_def truthful_def split: json_found.split option.split)

lemma reply_subscribe_truthful: "truthful st \<Longrightarrow> truthful (snd (reply_subscribe (system_env E S) s st))"
  by (simp add: reply_subscribe_def Let_def split_def split: option.split)

lemma reply_authorize_truthful:
  assumes "truthful st"
  shows "truthful (snd (reply_authorize (system_env E S) s st))"
proof -
  have "truthful (tel_event (system_env E S) ''pool_authorized'' (st\<lparr>ss_authorized := True\<rparr>))"
    "truthful (tel_event (system_env E S) ''authorization_failed'' st)" using assms by (simp_all add: truthful_def)
  then show ?thesis using assms by (simp add: reply_authorize_def Let_def split_def truthful_build del: ascii_Cons)
qed

lemma flags_verdict:
  "cstr (ev_name ev) \<in> {ascii ''solution_accepted'', ascii ''solution_rejected'', ascii ''solution_submitted'', ascii ''share_reply_timeout''} \<Longrightarrow>
     flags (m_dev (tel_detail (system_env E S) ev st)) = flags (m_dev st)"
  by (auto simp: tel_dev system_env_def flags_detail) (simp_all add: flags_def)

lemma truthful_detail:
  "cstr (ev_name ev) \<in> {ascii ''solution_accepted'', ascii ''solution_rejected'', ascii ''solution_submitted'', ascii ''share_reply_timeout''} \<Longrightarrow>
     truthful (tel_detail (system_env E S) ev st) = truthful st"
  by (simp add: truthful_def flags_verdict del: ascii_Cons)

lemma cstr_snprintf: "length s < cap \<Longrightarrow> 0 \<notin> set s \<Longrightarrow> cstr (snd (snprintf_to out cap s)) = s"
  by (simp add: snprintf_to_def memcpy_at_def cstr_append_nul)

lemma cstr_strcpy: "0 \<notin> set s \<Longrightarrow> cstr (strcpy dst (s @ [0])) = s"
  by (simp add: strcpy_def memcpy_at_def cstr_append_nul)

lemma event_texts: "0 \<notin> set (ascii ''share_reply_timeout'')" "0 \<notin> set (ascii ''solution_accepted'')" "0 \<notin> set (ascii ''solution_rejected'')"
  "length (ascii ''solution_accepted'') < 64" "length (ascii ''solution_rejected'') < 64"
  by simp_all

lemma reply_share_truthful: "truthful (reply_share (system_env E S) s rid is st) = truthful st"
proof (induction "is" arbitrary: st)
  case (Cons i "is")
  then show ?case by (simp add: Let_def truthful_detail cstr_snprintf event_texts del: ascii_Cons)
qed simp

lemma handle_line_truthful: "truthful st \<Longrightarrow> truthful (snd (handle_line (system_env E S) s st))"
  by (simp add: handle_line_def notification_def reply_def split_def Let_def set_difficulty_truthful set_extranonce_truthful notify_job_truthful
    reply_subscribe_truthful reply_authorize_truthful reply_share_truthful del: ascii_Cons split: json_found.split option.split)

lemma truthful_event:
  "ev \<in> {''hardware_solution_invalid'', ''share_queue_full'', ''result_fifo_overflow''} \<Longrightarrow> truthful (tel_event (system_env E S) ev st) = truthful st"
  by (auto simp: truthful_def)

lemma submit_share_truthful: "truthful (snd (submit_share (system_env E S) nonce st)) = truthful st"
  by (simp add: submit_share_def Let_def split_def truthful_event truthful_detail submitted_event_name del: ascii_Cons split: option.split)

lemma submit_share_authorized: "ss_authorized (snd (submit_share E nonce st)) = ss_authorized st"
  by (simp add: submit_share_def Let_def split_def split: option.split)

lemma drain_results_authorized: "ss_authorized (snd (drain_results E k st)) = ss_authorized st"
  by (induction k arbitrary: st) (simp_all add: Let_def split_def submit_share_authorized)

lemma truthful_authorized: "truthful st \<Longrightarrow> ss_running st \<Longrightarrow> ss_authorized st"
  by (simp add: truthful_def)

lemma drain_results_truthful: "truthful (snd (drain_results (system_env E S) k st)) = truthful st"
  by (induction k arbitrary: st) (simp_all add: Let_def split_def submit_share_truthful)

lemma service_results_truthful: "truthful st \<Longrightarrow> truthful (snd (service_results (system_env E S) st))"
  by (simp add: drain_results_authorized truthful_authorized service_results_def Let_def split_def truthful_event drain_results_truthful truthful_stop truthful_build truthful_start_range)

lemma session_rx_truthful:
  "session_rx (system_env E S) chunk line last_rx st = (bad, line', last', st') \<Longrightarrow> truthful st \<Longrightarrow> truthful st'"
proof (induction chunk arbitrary: line last_rx st)
  case (Cons c chunk)
  obtain rc s1 where s1: "(if line = [] then (0, st) else handle_line (system_env E S) line st) = (rc, s1)" by fastforce
  have t1: "truthful s1" using s1 Cons.prems(2) handle_line_truthful [of st E S line] by (auto split: if_splits)
  obtain now s2 where s2: "get_ticks (system_env E S) s1 = (now, s2)" by fastforce
  have "truthful s2" using t1 s2 by (metis snd_conv truthful_upd(15))
  with t1 show ?case using Cons s1 s2 by (auto split: if_splits)
qed simp

lemma session_timeouts_truthful: "truthful (snd (session_timeouts (system_env E S) now is bad st)) = truthful st"
proof (induction "is" arbitrary: bad st)
  case (Cons i "is")
  then show ?case by (simp add: Let_def truthful_detail cstr_strcpy event_texts del: ascii_Cons)
qed simp

lemma session_receive_truthful:
  assumes "truthful st" "session_receive (system_env E S) started line last_rx st = (r, st')"
  shows "truthful st'"
proof -
  obtain n chunk d where d: "env_recv (system_env E S) 512 (m_dev st) = ((n, chunk), d)" by (metis prod.exhaust)
  have t0: "truthful (st\<lparr>m_dev := d\<rparr>)" using assms(1) flags_io(8) [of E S 512 "m_dev st"] d by (simp add: truthful_def)
  obtain bad l t s1 where s1: "session_rx (system_env E S) (take (nat n) chunk) line last_rx (st\<lparr>m_dev := d\<rparr>) = (bad, l, t, s1)" by (metis prod.exhaust)
  obtain now s2 where s2: "get_ticks (system_env E S) s1 = (now, s2)" by fastforce
  have "truthful s2" using session_rx_truthful [OF s1 t0] s2 by (metis snd_conv truthful_upd(15))
  then show ?thesis using assms(2) t0 by (auto simp: session_receive_def d s1 s2 Let_def split: if_splits)
qed

lemma session_service_truthful:
  assumes "truthful st" "session_service (system_env E S) now st = (ok, st')"
  shows "truthful st'"
proof -
  obtain rc s1 where s1: "service_results (system_env E S) st = (rc, s1)" by fastforce
  have "truthful s1" using service_results_truthful [OF assms(1), of E S] s1 by simp
  then show ?thesis using assms(2) s1 session_timeouts_truthful [of E S now "[0..<8]" False s1]
    by (auto simp: session_service_def Let_def split: if_splits prod.splits)
qed

section \<open>The other tasks\<close>

text \<open>They share the statistics with the session, and leave its flags alone.\<close>

lemma flags_more: "machine.more D' = machine.more D \<Longrightarrow> flags D' = flags D"
  using more_fields(1) [of D' D] by (simp add: flags_def)

lemma flags_broadcast:
  assumes "broadcast_step E bc D = (bc', D')"
  shows "flags D' = flags D"
proof -
  from assms obtain d now bc1 bc2 s2 r s3 where step: "sample_hashes E now bc1 (D\<lparr>m_dev := d\<rparr>) = (bc2, s2)" "take_event E s2 = (r, s3)"
    "machine.more D' = machine.more s3" by (rule broadcast_step_cases)
  have "flags s2 = flags D" using step(1) by (auto simp: sample_hashes_def Xil_In32_def log_event_def flags_def split_def Let_def split: if_splits)
  moreover have "flags s3 = flags s2" using step(2) by (auto simp: take_event_def flags_def Let_def split: option.splits prod.splits if_splits)
  ultimately show ?thesis using flags_more [OF step(3)] by simp
qed

lemma flags_configure: "flags (snd (configure E line D)) = flags D"
proof -
  let ?s0 = "log_event (Call ''xSemaphoreTake'') D"
  obtain error nxt where p: "miner_config_parse (de_validate E) (de_search E) line (db_settings ?s0) settings_defaults = (error, nxt)" by fastforce
  obtain rc s1 where s1: "settings_save nxt (eeprom_read E) (eeprom_write E) ?s0 = (rc, s1)" by fastforce
  have "ee_only ?s0 s1" using ee_only_save [OF ee_only_refl, of ?s0 nxt E] s1 by simp
  then have f1: "flags s1 = flags D" using flags_more [of s1 D] by (simp add: ee_only_def)
  have "flags (telemetry_event E ''settings_saved'' s) = flags s" for s by (simp add: flags_event) (simp add: flags_def)
  moreover have "flags (s1\<lparr>db_settings := nxt, db_generation := db_generation s1 + 1\<rparr>) = flags D" using f1 by (simp add: flags_def)
  ultimately show ?thesis using p s1 f1 by (cases error) (simp_all add: configure_def Let_def)
qed

lemma flags_config_reply: "flags (snd (config_reply E line whole out cap D)) = flags D"
proof -
  let ?s0 = "log_event (Call ''xSemaphoreTake'') D"
  have "flags (snd (settings_load (eeprom_read E) ?s0)) = flags D"
    using ee_only_load [OF ee_only_refl, of ?s0 E] by (intro flags_more) (simp add: ee_only_def)
  then show ?thesis by (simp add: config_reply_def Let_def split_def flags_configure del: ascii_Cons)
qed

lemma flags_config_step:
  assumes "config_step E out D = Some D'"
  shows "flags D' = flags D"
proof (cases "fst (de_accept E (m_dev D))")
  case False
  then show ?thesis using assms by (auto simp: config_step_def split_def vTaskDelay_def)
next
  case True
  let ?s0 = "D\<lparr>m_dev := de_setsockopt E ''SNDTIMEO'' 50 (de_setsockopt E ''RCVTIMEO'' 10 (snd (de_accept E (m_dev D))))\<rparr>"
  obtain start s1 where s1: "xTaskGetTickCount E ?s0 = (start, s1)" by fastforce
  have f1: "flags s1 = flags D" using s1 by (auto simp: xTaskGetTickCount_def split_def Let_def)
  obtain l whole s2 where s2: "request_loop E start [] s1 = Some ((l, whole), s2)"
    using assms True s1 by (auto simp: config_step_def split_def Let_def split: option.splits)
  have f2: "flags s2 = flags D" using flags_more [of s2 s1] request_loop_more [OF s2] f1 by simp
  obtain n buf s3 where s3: "config_reply E l whole out 1024 s2 = ((n, buf), s3)" by (metis prod.exhaust)
  have f3: "flags s3 = flags D" using flags_config_reply [of E l whole out 1024 s2] s3 f2 by simp
  then have "flags (send_reply E msg s3) = flags D" for msg using flags_more [OF send_reply_more [of E msg s3]] by simp
  then show ?thesis using assms True s1 s2 s3 f3 by (auto simp: config_step_def split_def Let_def split: if_splits)
qed

section \<open>Reachable states of the system\<close>

text \<open>
  The Stratum task starts after the dashboard. Its steps, the calls of the power task, the iterations of the telemetry and the configuration task and
  changes of the board come in any order.
\<close>

inductive system_reach :: "('d, 'q) dashboard_env \<Rightarrow> 'd stratum_env \<Rightarrow> task_point \<Rightarrow> ('d, 'q) dashboard session \<Rightarrow> bool" for E S where
  boot: "db_stats D0 = miner_stats_zero \<Longrightarrow> dashboard_start E D0 = Some D \<Longrightarrow>
    stratum_boot (system_env E S) (D\<lparr>m_dev := d, m_trace := tr\<rparr>) = (pt, st) \<Longrightarrow> system_reach E S pt st"
| step: "system_reach E S pt st \<Longrightarrow> stratum_step (system_env E S) (pt, st) = (pt', st') \<Longrightarrow> system_reach E S pt' st'"
| power: "system_reach E S pt st \<Longrightarrow> system_reach E S pt (st\<lparr>m_dev := telemetry_power samples (m_dev st)\<rparr>)"
| broadcast: "system_reach E S pt st \<Longrightarrow> broadcast_step E bc (m_dev st) = (bc', D) \<Longrightarrow> system_reach E S pt (st\<lparr>m_dev := D\<rparr>)"
| config: "system_reach E S pt st \<Longrightarrow> config_step E out (m_dev st) = Some D \<Longrightarrow> system_reach E S pt (st\<lparr>m_dev := D\<rparr>)"
| board: "system_reach E S pt st \<Longrightarrow> system_reach E S pt (st\<lparr>m_dev := (m_dev st)\<lparr>m_dev := d, m_trace := tr\<rparr>\<rparr>)"

definition system_inv :: "task_point \<Rightarrow> ('d, 'q) dashboard session \<Rightarrow> bool" where
  "system_inv pt st \<longleftrightarrow> (if pt = Connecting then flags (m_dev st) = (False, False, False) \<and> \<not> ss_running st else truthful st)"

lemma system_inv_flags: "system_inv pt st \<Longrightarrow> flags D = flags (m_dev st) \<Longrightarrow> system_inv pt (st\<lparr>m_dev := D\<rparr>)"
  by (simp add: system_inv_def truthful_def split: if_splits)

lemma end_inv: "system_inv Connecting (session_end (system_env E S) st)"
  by (simp add: system_inv_def session_end_def Let_def log_event_def)

lemma open_inv:
  assumes "flags (m_dev st) = (False, False, False)" "session_open (system_env E S) generation address st = (pt, st')"
  shows "system_inv pt st'"
proof -
  let ?E = "system_env E S"
  define s0 where "s0 = session_reset (st\<lparr>m_dev := env_setsockopt ?E ''FREERTOS_SO_RCVTIMEO'' 300 (env_setsockopt ?E ''FREERTOS_SO_SNDTIMEO'' 300 (m_dev st))\<rparr>)"
  have s0: "flags (m_dev s0) = (False, False, False)" "\<not> ss_authorized s0" "\<not> ss_running s0" using assms(1) by (simp_all add: s0_def session_reset_def)
  obtain rc d where d: "env_connect ?E address (ms_port (ss_session s0)) (m_dev s0) = (rc, d)" by fastforce
  obtain rc' s1 where s1: "send_line ?E subscribe_text (s0\<lparr>m_dev := d\<rparr>) = (rc', s1)" by fastforce
  have "flags d = (False, False, False)" using flags_io(7) [of E S address "ms_port (ss_session s0)" "m_dev s0"] d s0(1) by simp
  then have "flags (m_dev s1) = (False, False, False)" "\<not> ss_authorized s1" "\<not> ss_running s1"
    using flags_send [of E S subscribe_text "s0\<lparr>m_dev := d\<rparr>"] send_line_fields(13,15) [of ?E subscribe_text "s0\<lparr>m_dev := d\<rparr>"] s0 s1 by simp_all
  then have "truthful (snd (get_ticks ?E (tel_event ?E ''pool_connected'' (s1\<lparr>m_dev := env_setsockopt ?E ''FREERTOS_SO_RCVTIMEO'' 10 (m_dev s1)\<rparr>))))"
    by (simp add: truthful_def)
  then show ?thesis using assms(2) end_inv
    by (auto simp: session_open_def s0_def [symmetric] d s1 Let_def split_def system_inv_def [of "Receiving a b c e" for a b c e] split: if_splits)
qed

lemma connect_inv:
  assumes "system_inv Connecting st" "session_connect (system_env E S) st = (pt, st')"
  shows "system_inv pt st'"
proof -
  let ?E = "system_env E S"
  obtain s g d where d: "env_settings ?E (m_dev st) = ((s, g), d)" by (metis prod.exhaust)
  obtain address d1 where d1: "env_gethostbyname ?E (cstr (ms_host s)) d = (address, d1)" by fastforce
  obtain valid d2 where d2: "env_socket ?E d1 = (valid, d2)" by fastforce
  have f: "flags d = (False, False, False)" "flags d1 = (False, False, False)" "flags d2 = (False, False, False)"
    using assms(1) flags_io(11) [of E S "m_dev st"] flags_io(9) [of E S "cstr (ms_host s)" d] flags_io(10) [of E S d1] d d1 d2
    by (simp_all add: system_inv_def)
  have r: "\<not> ss_running st" using assms(1) by (simp add: system_inv_def)
  let ?st2 = "st\<lparr>ss_session := s, m_dev := d2\<rparr>"
  have "system_inv pt st'" if "session_open ?E g address ?st2 = (pt, st')" using open_inv [OF _ that] f(3) by simp
  then show ?thesis using assms(2) f r by (auto simp: session_connect_def d d1 d2 delay_ticks_def system_inv_def Let_def split: if_splits)
qed

lemma step_inv:
  assumes "system_inv pt st" "stratum_step (system_env E S) (pt, st) = (pt', st')"
  shows "system_inv pt' st'"
proof (cases pt)
  case Connecting
  then show ?thesis using assms connect_inv by simp
next
  case (Receiving g t0 line t1)
  obtain r s where r: "session_receive (system_env E S) t0 line t1 st = (r, s)" by fastforce
  have "truthful s" using assms(1) session_receive_truthful [OF _ r] Receiving by (simp add: system_inv_def)
  then show ?thesis using assms(2) Receiving r end_inv by (auto simp: system_inv_def [of "Serving a b c e f" for a b c e f] split: if_splits option.splits)
next
  case (Serving g t0 line t1 now)
  obtain ok s where r: "session_service (system_env E S) now st = (ok, s)" by fastforce
  have "truthful s" using assms(1) session_service_truthful [OF _ r] Serving by (simp add: system_inv_def)
  then show ?thesis using assms(2) Serving r end_inv by (auto simp: system_inv_def [of "Receiving a b c e" for a b c e] split: bool.splits)
qed

lemma system_reach_inv: "system_reach E S pt st \<Longrightarrow> system_inv pt st"
proof (induction rule: system_reach.induct)
  case (boot D0 D d tr pt st)
  from dashboard_start_spec [OF boot(2)] have "flags D = (False, False, False)" using boot(1) by (auto simp: flags_def miner_stats_zero_def)
  then show ?case using boot(3) by (auto simp: stratum_boot_def system_inv_def flags_stop stratum_init_def)
next
  case (step pt st pt' st')
  then show ?case using step_inv by blast
next
  case (broadcast pt st bc bc' D)
  then show ?case using flags_broadcast system_inv_flags by blast
next
  case (config pt st out D)
  then show ?case using flags_config_step system_inv_flags by blast
qed (auto intro: system_inv_flags simp: flags_def telemetry_power_def)

section \<open>Properties\<close>

text \<open>
  C17. The status that the dashboard reports is that of the Stratum session, however the tasks are interleaved and whatever
  the pool, the clients and the board do: at every control point of the Stratum task, the pool is shown as connected exactly while the receive loop runs, the
  worker as authorized exactly when the pool has accepted it on this connection, and mining as active exactly when the engines
  have been started on a range and not been stopped since. Mining is shown only with authorization, authorization only with a connection.
\<close>

theorem telemetry_truthful:
  assumes "system_reach E S pt st" and s: "s = db_stats (m_dev st)"
  shows "ts_connected s = (pt \<noteq> Connecting) \<and> ts_authorized s = (pt \<noteq> Connecting \<and> ss_authorized st) \<and> ts_mining s = ss_running st \<and>
    (ts_mining s \<longrightarrow> ts_authorized s) \<and> (ts_authorized s \<longrightarrow> ts_connected s)"
  using system_reach_inv [OF assms(1)] by (auto simp: s system_inv_def truthful_def flags_def split: if_splits)

text \<open>The scripted pool under the quiet board, after the first connection.\<close>

lemma quiet_send: "fst (send_line (system_env quiet_env pool_env) s st) = 0"
  by (subst send_line.simps) (simp add: system_env_def pool_env_def on_dev_def send_line.simps)

lemma quiet_connect:
  assumes "db_settings (m_dev st) = pool_settings"
  shows "fst (stratum_step (system_env quiet_env pool_env) (Connecting, st)) \<noteq> Connecting"
    "\<not> ss_authorized (snd (stratum_step (system_env quiet_env pool_env) (Connecting, st)))"
proof -
  let ?E = "system_env quiet_env pool_env"
  have calls: "fst (fst (env_settings ?E D)) = db_settings D" "env_network_up ?E D" "fst (env_gethostbyname ?E h D) = 1" "fst (env_socket ?E D)"
    "fst (env_connect ?E a p D) = 0" for D h a p
    by (simp_all add: system_env_def read_settings_def on_dev_def pool_env_def log_event_def)
  have "ms_host pool_settings ! 0 \<noteq> 0" "ms_worker pool_settings ! 0 \<noteq> 0" by (simp_all add: pool_settings_def)
  then show "fst (stratum_step ?E (Connecting, st)) \<noteq> Connecting" "\<not> ss_authorized (snd (stratum_step ?E (Connecting, st)))"
    using assms by (simp_all add: session_connect_def session_open_def session_reset_def calls quiet_send split_def Let_def)
qed

theorem telemetry_truthful_witness:
  "\<exists>pt st. system_reach quiet_env pool_env pt st \<and> ts_connected (db_stats (m_dev st)) \<and> \<not> ts_authorized (db_stats (m_dev st))"
proof -
  let ?E = "system_env quiet_env pool_env" and ?D0 = "quiet_dash\<lparr>db_settings := pool_settings\<rparr>"
  obtain D where D: "dashboard_start quiet_env ?D0 = Some D" "db_settings D = pool_settings"
    by (simp add: dashboard_start_def quiet_env_def quiet_dash_def Xil_In32_def xTaskCreate_def power_start_def log_event_def)
  define st0 where "st0 = stop ?E (stratum_init (D\<lparr>m_dev := 0, m_trace := []\<rparr>))"
  have r0: "system_reach quiet_env pool_env Connecting st0"
    by (rule system_reach.boot [OF _ D(1)]) (simp_all add: quiet_dash_def stratum_boot_def st0_def)
  have "db_settings (m_dev st0) = pool_settings"
    using D(2) by (simp add: st0_def stop_def tel_dev system_env_def over_dev_def telemetry_mining_def stratum_init_def Let_def)
  note c = quiet_connect [OF this]
  obtain pt st where st: "stratum_step ?E (Connecting, st0) = (pt, st)" by fastforce
  have r: "system_reach quiet_env pool_env pt st" by (rule system_reach.step [OF r0 st])
  with telemetry_truthful [OF r refl] c st show ?thesis by auto
qed

end
