(* ===== verification/Eeprom_Chip.thy ===== *)
theory Eeprom_Chip
  imports Eeprom
begin

text \<open>
  The EEPROM driver implements the storage interface of the settings. The device below it is a concrete one that follows the
  data sheets: an IIC controller with its transmit and receive FIFOs in dynamic mode, and a memory that
  programs a page when a write command stops, wrapping inside the page of 32 bytes, and answers a burst
  read. On it the driver is a \<open>reliable_storage\<close>.
\<close>

section \<open>The device\<close>

record chip =
  ch_mem :: "nat \<Rightarrow> u8"
  ch_tx :: "u32 list"
  ch_rx :: bytes

definition chip_page :: "nat \<Rightarrow> bytes \<Rightarrow> (nat \<Rightarrow> u8) \<Rightarrow> nat \<Rightarrow> u8" where
  "chip_page a bs f = fold (\<lambda>i g. g(32 * (a div 32) + (a + i) mod 32 := bs ! i)) [0..<length bs] f"

definition chip_command :: "u32 list \<Rightarrow> chip \<Rightarrow> chip" where
  "chip_command ws d =
     (let a = unat (ws ! 1) * 256 + unat (ws ! 2)
      in if ws ! 3 = 0x1a1 then d\<lparr>ch_rx := mem_image (ch_mem d) a (unat (last ws AND 255))\<rparr>
         else d\<lparr>ch_mem := chip_page a (map (\<lambda>w. ucast (w AND 255)) (drop 3 ws)) (ch_mem d)\<rparr>)"

text \<open>A word in the transmit FIFO; the stop bit of a word after the address completes the command.\<close>

definition chip_word :: "u32 \<Rightarrow> chip \<Rightarrow> chip" where
  "chip_word v d =
     (let ws = ch_tx d @ [v]
      in if 3 < length ws \<and> v AND 0x200 \<noteq> 0 then chip_command ws (d\<lparr>ch_tx := []\<rparr>) else d\<lparr>ch_tx := ws\<rparr>)"

definition chip_out :: "u32 \<Rightarrow> u32 \<Rightarrow> chip \<Rightarrow> chip" where
  "chip_out a v d =
     (if a = EE_IIC + 0x40 then d\<lparr>ch_tx := [], ch_rx := []\<rparr>
      else if a = EE_IIC + 0x100 \<and> v AND 2 \<noteq> 0 then d\<lparr>ch_tx := []\<rparr>
      else if a = EE_IIC + 0x108 then chip_word v d else d)"

definition chip_in :: "u32 \<Rightarrow> chip \<Rightarrow> u32 \<times> chip" where
  "chip_in a d =
     (if a = EE_IIC + 0x104 then (if ch_rx d = [] then 0xc0 else 0x80, d)
      else if a = EE_IIC + 0x10c then (case ch_rx d of [] \<Rightarrow> (0, d) | b # bs \<Rightarrow> (ucast b, d\<lparr>ch_rx := bs\<rparr>))
      else (0, d))"

definition chip_like :: "(chip, 'b) rtos_scheme \<Rightarrow> bool" where
  "chip_like R \<longleftrightarrow> bsp_in32 R = chip_in \<and> bsp_out32 R = chip_out \<and> (\<forall>n d. os_delay R n d = d)"

section \<open>The operations of the driver on it\<close>

named_theorems chip_simps

lemma chip_wr [chip_simps]: "chip_like R \<Longrightarrow> m_dev (ee_wr R r v st) = chip_out (EE_IIC + r) v (m_dev st)"
  by (simp add: ee_wr_def Xil_Out32_def log_event_def chip_like_def)

lemma chip_rd [chip_simps]:
  "chip_like R \<Longrightarrow> fst (ee_rd R r st) = fst (chip_in (EE_IIC + r) (m_dev st))"
  "chip_like R \<Longrightarrow> m_dev (snd (ee_rd R r st)) = snd (chip_in (EE_IIC + r) (m_dev st))"
  by (simp_all add: ee_rd_def Xil_In32_def log_event_def chip_like_def split_def Let_def)

lemma chip_delay [chip_simps]: "chip_like R \<Longrightarrow> m_dev (vTaskDelay R n st) = m_dev st"
  by (simp add: vTaskDelay_def log_event_def chip_like_def)

lemma chip_wait [chip_simps]:
  assumes "chip_like R" "(if ch_rx (m_dev st) = [] then 0xc0 else 0x80) AND msk = expected"
  shows "fst (ee_wait_status R msk expected st)" "m_dev (snd (ee_wait_status R msk expected st)) = m_dev st"
proof -
  have "fst (ee_rd R 0x104 st) AND msk = expected" using assms by (simp add: chip_rd chip_in_def)
  moreover have "m_dev (snd (ee_rd R 0x104 st)) = m_dev st" using assms(1) by (simp add: chip_rd chip_in_def)
  ultimately have "fst (ee_wait R msk expected (Suc n) st) \<and> m_dev (snd (ee_wait R msk expected (Suc n) st)) = m_dev st" for n
    by (simp add: split_def Let_def)
  from this [of 99999] show "fst (ee_wait_status R msk expected st)" "m_dev (snd (ee_wait_status R msk expected st)) = m_dev st"
    by (simp_all add: ee_wait_status_def)
qed

lemma chip_start:
  assumes "chip_like R"
  shows "fst (ee_start R a st)"
    "m_dev (snd (ee_start R a st)) =
       (m_dev st)\<lparr>ch_tx := [0x1a0, of_nat (unat a div 256), of_nat (unat a mod 256)], ch_rx := []\<rparr>"
proof -
  have w: "fst (ee_wait_status R 4 0 st)" "m_dev (snd (ee_wait_status R 4 0 st)) = m_dev st" by (rule chip_wait [OF assms]; simp)+
  show "fst (ee_start R a st)" using w by (simp add: ee_start_def split_def Let_def)
  show "m_dev (snd (ee_start R a st)) =
       (m_dev st)\<lparr>ch_tx := [0x1a0, of_nat (unat a div 256), of_nat (unat a mod 256)], ch_rx := []\<rparr>"
    using w by (simp add: ee_start_def split_def Let_def chip_wr [OF assms] chip_rd [OF assms] chip_out_def chip_in_def chip_word_def
      address_parts)
qed

lemma chip_finish:
  assumes "chip_like R" shows "fst (ee_finish R st)" "m_dev (snd (ee_finish R st)) = m_dev st"
proof -
  have w: "fst (ee_wait_status R 0x80 0x80 s)" "m_dev (snd (ee_wait_status R 0x80 0x80 s)) = m_dev s"
    "fst (ee_wait_status R 4 0 s)" "m_dev (snd (ee_wait_status R 4 0 s)) = m_dev s" for s :: "(chip, 'b) machine_scheme"
    by (rule chip_wait [OF assms]; simp)+
  show "fst (ee_finish R st)" "m_dev (snd (ee_finish R st)) = m_dev st"
    by (simp_all add: ee_finish_def split_def Let_def w chip_rd [OF assms] chip_in_def)
qed

lemma data_word:
  fixes b :: u8
  shows "ucast b AND (0x200 :: u32) = 0" "(ucast b OR 0x200) AND (0x200 :: u32) \<noteq> 0"
    "ucast ((ucast b :: u32) AND 255) = b" "ucast ((ucast b OR 0x200 :: u32) AND 255) = b"
    "(ucast b :: u32) \<noteq> 0x1a1" "(ucast b OR 0x200 :: u32) \<noteq> 0x1a1"
proof -
  have "bit (2 ^ 9 :: u32) n \<longleftrightarrow> n = 9" for n by (simp only: bit_exp_iff possible_bit_word) auto
  moreover have "bit (2 ^ 9 :: int) n \<longleftrightarrow> n = 9" for n by (simp only: bit_exp_iff possible_bit_int) auto
  ultimately have e: "bit (0x200 :: u32) n \<longleftrightarrow> n = 9" "bit (0x200 :: int) n \<longleftrightarrow> n = 9" for n by simp_all
  have m: "(255 :: u32) = mask 8" by (simp add: mask_eq_exp_minus_1)
  show "ucast b AND (0x200 :: u32) = 0" "ucast ((ucast b :: u32) AND 255) = b" "ucast ((ucast b OR 0x200 :: u32) AND 255) = b"
    unfolding m by (intro bit_eqI; auto simp: bit_simps e)+
  have "bit ((ucast b OR 0x200) AND (0x200 :: u32)) 9" by (simp add: bit_simps e)
  then show "(ucast b OR 0x200) AND (0x200 :: u32) \<noteq> 0" by auto
  have "bit (0x1a1 :: u32) 8" by (simp add: bit_iff_odd drop_bit_eq_div)
  moreover have "\<not> bit (ucast b :: u32) 8" "\<not> bit (ucast b OR 0x200 :: u32) 8" by (simp_all add: bit_simps e)
  ultimately show "(ucast b :: u32) \<noteq> 0x1a1" "(ucast b OR 0x200 :: u32) \<noteq> 0x1a1" by auto
qed

lemma page_data_words: "page_data bs \<noteq> [] \<longleftrightarrow> bs \<noteq> []" "map (\<lambda>w. ucast (w AND 255)) (page_data bs) = bs" "0x1a1 \<notin> set (page_data bs)"
proof -
  show "page_data bs \<noteq> [] \<longleftrightarrow> bs \<noteq> []" by (cases bs) (simp_all add: page_data_Cons, simp add: page_data_def)
  show "map (\<lambda>w. ucast (w AND 255)) (page_data bs) = bs"
    by (induction bs) (simp add: page_data_def, simp add: page_data_Cons data_word)
  show "0x1a1 \<notin> set (page_data bs)"
    using data_word(5,6) by (induction bs) (simp add: page_data_def, auto simp: page_data_Cons)
qed

lemma chip_page_write:
  assumes "chip_like R" "bs \<noteq> []" "ch_tx (m_dev st) = ws" "3 \<le> length ws"
  shows "fst (ee_write_page R bs st) \<and>
    m_dev (snd (ee_write_page R bs st)) = chip_command (ws @ page_data bs) ((m_dev st)\<lparr>ch_tx := []\<rparr>)"
  using assms(2-)
proof (induction bs arbitrary: st ws)
  case (Cons b bs)
  let ?w = "ucast b OR (if bs = [] then 0x200 else 0) :: u32"
  have w: "fst (ee_wait_status R 0x10 0 st)" "m_dev (snd (ee_wait_status R 0x10 0 st)) = m_dev st" by (rule chip_wait [OF assms(1)]; simp)+
  let ?st = "ee_wr R 0x108 ?w (snd (ee_wait_status R 0x10 0 st))"
  have dev: "m_dev ?st = chip_word ?w (m_dev st)" using w by (simp add: chip_wr [OF assms(1)] chip_out_def)
  have step: "ee_write_page R (b # bs) st = ee_write_page R bs ?st" using w by (simp add: split_def Let_def)
  show ?case
  proof (cases "bs = []")
    case True
    then show ?thesis using step dev Cons.prems by (simp add: chip_word_def data_word page_data_def)
  next
    case False
    then have d: "m_dev ?st = (m_dev st)\<lparr>ch_tx := ws @ [?w]\<rparr>" using dev Cons.prems by (simp add: chip_word_def data_word)
    have "fst (ee_write_page R bs ?st) \<and> m_dev (snd (ee_write_page R bs ?st)) = chip_command ((ws @ [?w]) @ page_data bs) ((m_dev ?st)\<lparr>ch_tx := []\<rparr>)"
      using False d Cons.prems by (intro Cons.IH) simp_all
    then show ?thesis unfolding step page_data_Cons d by simp
  qed
qed simp

text \<open>Inside a page nothing wraps.\<close>

definition overwrite :: "nat \<Rightarrow> bytes \<Rightarrow> (nat \<Rightarrow> u8) \<Rightarrow> nat \<Rightarrow> u8" where
  "overwrite a bs f = (\<lambda>x. if a \<le> x \<and> x < a + length bs then bs ! (x - a) else f x)"

lemma overwrite_Nil [simp]: "overwrite a [] f = f"
  by (rule ext) (auto simp: overwrite_def)

lemma chip_page_inside:
  assumes "a mod 32 + length bs \<le> 32"
  shows "chip_page a bs f = overwrite a bs f"
proof -
  have idx: "32 * (a div 32) + (a + i) mod 32 = a + i" if "i < length bs" for i
  proof -
    have "a mod 32 + i < 32" using that assms by linarith
    then have "(a + i) mod 32 = a mod 32 + i" using mod_add_left_eq [of a 32 i] by (simp only: mod_less)
    then show ?thesis using mult_div_mod_eq [of 32 a] by linarith
  qed
  have "k \<le> length bs \<Longrightarrow> fold (\<lambda>i g. g(32 * (a div 32) + (a + i) mod 32 := bs ! i)) [0..<k] f =
      (\<lambda>x. if a \<le> x \<and> x < a + k then bs ! (x - a) else f x)" for k
  proof (induction k)
    case (Suc k)
    then have "fold (\<lambda>i g. g(32 * (a div 32) + (a + i) mod 32 := bs ! i)) [0..<Suc k] f =
        (\<lambda>x. if a \<le> x \<and> x < a + k then bs ! (x - a) else f x)(a + k := bs ! k)"
      by (simp only: upt_Suc_append zero_le fold_append comp_apply fold_simps id_apply idx Suc_le_eq less_imp_le)
    also have "\<dots> = (\<lambda>x. if a \<le> x \<and> x < a + Suc k then bs ! (x - a) else f x)"
      by (rule ext) auto
    finally show ?case .
  qed (auto simp: fun_eq_iff)
  then show ?thesis by (simp add: chip_page_def overwrite_def)
qed

lemma overwrite_split: "n \<le> length bs \<Longrightarrow> overwrite (a + n) (drop n bs) (overwrite a (take n bs) f) = overwrite a bs f"
  by (auto simp: overwrite_def fun_eq_iff)

lemma chip_write_loop:
  assumes "chip_like R"
  shows "unat a + length buf \<le> 0x1400 \<Longrightarrow> fst (eeprom_write_loop R a buf st) \<and>
    ch_mem (m_dev (snd (eeprom_write_loop R a buf st))) = overwrite (unat a) buf (ch_mem (m_dev st))"
proof (induction "length buf" arbitrary: a buf st rule: less_induct)
  case less
  show ?case
  proof (cases "buf = []")
    case True
    then show ?thesis by (simp add: eeprom_write_loop.simps)
  next
    case False
    define n where "n = (if length buf < 32 - unat (a AND 31) then length buf else 32 - unat (a AND 31))"
    have n: "0 < n" "n \<le> length buf" "unat a mod 32 + n \<le> 32" using False by (auto simp: n_def address_parts)
    let ?s1 = "snd (ee_start R a st)" let ?s2 = "snd (ee_write_page R (take n buf) ?s1)" let ?s3 = "snd (ee_finish R ?s2)"
    note s1 = chip_start [OF assms, of a st]
    let ?ws = "[0x1a0, of_nat (unat a div 256), of_nat (unat a mod 256)] :: u32 list"
    have s2: "fst (ee_write_page R (take n buf) ?s1)" "m_dev ?s2 = chip_command (?ws @ page_data (take n buf)) ((m_dev ?s1)\<lparr>ch_tx := []\<rparr>)"
      using chip_page_write [OF assms, of "take n buf" ?s1 ?ws] s1 n False by simp_all
    have step: "eeprom_write_loop R a buf st = eeprom_write_loop R (a + of_nat n) (drop n buf) (vTaskDelay R 2 ?s3)"
      by (subst eeprom_write_loop.simps)
        (simp only: Let_def n_def [symmetric], simp add: split_def False s1 s2 chip_finish [OF assms])
    have ne: "page_data (take n buf) \<noteq> []" using n False by (simp add: page_data_words)
    then have "(?ws @ page_data (take n buf)) ! 3 \<noteq> 0x1a1" using page_data_words(3) [of "take n buf"] by (cases "page_data (take n buf)") auto
    moreover have "unat a < 0x1400" using less.prems False by (cases buf) auto
    then have addr: "unat (of_nat (unat a div 256) :: u32) * 256 + unat (of_nat (unat a mod 256) :: u32) = unat a"
      by (simp add: unat_of_nat)
    ultimately have "ch_mem (m_dev ?s2) = chip_page (unat a) (take n buf) (ch_mem (m_dev st))"
      unfolding s2(2) using s1 by (simp add: chip_command_def page_data_words(2) addr)
    then have mem: "ch_mem (m_dev (vTaskDelay R 2 ?s3)) = overwrite (unat a) (take n buf) (ch_mem (m_dev st))"
      using n by (simp add: chip_delay [OF assms] chip_finish [OF assms] chip_page_inside)
    have un: "unat (a + of_nat n) = unat a + n" using less.prems n by (simp add: unat_word_ariths unat_of_nat)
    have "fst (eeprom_write_loop R (a + of_nat n) (drop n buf) (vTaskDelay R 2 ?s3)) \<and>
      ch_mem (m_dev (snd (eeprom_write_loop R (a + of_nat n) (drop n buf) (vTaskDelay R 2 ?s3)))) =
        overwrite (unat (a + of_nat n)) (drop n buf) (ch_mem (m_dev (vTaskDelay R 2 ?s3)))"
      using less.prems n un by (intro less.hyps) auto
    then show ?thesis unfolding step un mem using n by (simp add: overwrite_split)
  qed
qed

lemma chip_burst:
  assumes "chip_like R"
  shows "ch_rx (m_dev st) = bs \<Longrightarrow> length bs = k \<Longrightarrow> fst (ee_read_burst R k acc st) = Some (acc @ bs) \<and>
    m_dev (snd (ee_read_burst R k acc st)) = (m_dev st)\<lparr>ch_rx := []\<rparr>"
proof (induction k arbitrary: bs acc st)
  case 0
  then show ?case by simp
next
  case (Suc k)
  then obtain b bs' where bs: "bs = b # bs'" "length bs' = k" by (cases bs) auto
  have w: "fst (ee_wait_status R 0x40 0 st)" "m_dev (snd (ee_wait_status R 0x40 0 st)) = m_dev st"
    using Suc.prems bs by (intro chip_wait [OF assms]; simp)+
  let ?s1 = "snd (ee_wait_status R 0x40 0 st)" let ?s2 = "snd (ee_rd R 0x10c ?s1)"
  have r: "fst (ee_rd R 0x10c ?s1) = ucast b" "m_dev ?s2 = (m_dev st)\<lparr>ch_rx := bs'\<rparr>"
    using w Suc.prems bs by (simp_all add: chip_rd [OF assms] chip_in_def)
  have "ucast (ucast b :: u32) = b" by (rule bit_eqI) (simp add: bit_simps)
  then have step: "ee_read_burst R (Suc k) acc st = ee_read_burst R k (acc @ [b]) ?s2"
    using w r by (simp add: split_def Let_def)
  have "fst (ee_read_burst R k (acc @ [b]) ?s2) = Some ((acc @ [b]) @ bs') \<and>
      m_dev (snd (ee_read_burst R k (acc @ [b]) ?s2)) = (m_dev ?s2)\<lparr>ch_rx := []\<rparr>"
    using r bs by (intro Suc.IH) simp_all
  then show ?case unfolding step r bs by simp
qed

lemma mem_image_split: "n \<le> m \<Longrightarrow> mem_image f a m = mem_image f a n @ mem_image f (a + n) (m - n)"
  by (auto simp: mem_image_def nth_append intro!: nth_equalityI)

lemma chip_read_command:
  assumes "ch_tx d = [0x1a0, of_nat (a div 256), of_nat (a mod 256)]" "a < 0x10000" "n \<le> 16"
  shows "chip_word (0x200 OR of_nat n) (chip_word 0x1a1 d) = d\<lparr>ch_tx := [], ch_rx := mem_image (ch_mem d) a n\<rparr>"
proof -
  have "\<forall>k\<in>set [0..<17]. (0x200 OR of_nat k :: u32) AND 0x200 \<noteq> 0 \<and> unat ((0x200 OR of_nat k :: u32) AND 255) = k"
    by (simp add: upt_rec)
  then have n: "(0x200 OR of_nat n :: u32) AND 0x200 \<noteq> 0" "unat ((0x200 OR of_nat n :: u32) AND 255) = n"
    using assms(3) by simp_all
  have start: "(0x1a1 :: u32) AND 0x200 = 0" by simp
  have "unat (of_nat (a div 256) :: u32) * 256 + unat (of_nat (a mod 256) :: u32) = a"
    using assms(2) by (simp add: unat_of_nat)
  then show ?thesis using n start assms(1) by (simp add: chip_word_def chip_command_def)
qed

lemma chip_read_loop:
  assumes "chip_like R"
  shows "unat a + n \<le> 0x2000 \<Longrightarrow> fst (eeprom_read_loop R a n acc st) = Some (acc @ mem_image (ch_mem (m_dev st)) (unat a) n) \<and>
    ch_mem (m_dev (snd (eeprom_read_loop R a n acc st))) = ch_mem (m_dev st)"
proof (induction n arbitrary: a acc st rule: less_induct)
  case (less n)
  show ?case
  proof (cases "n = 0")
    case True
    then show ?thesis by (simp add: eeprom_read_loop.simps mem_image_def)
  next
    case False
    define k where "k = (if 16 < n then 16 else n)"
    have k: "0 < k" "k \<le> n" "k \<le> 16" using False by (auto simp: k_def)
    let ?f = "ch_mem (m_dev st)" let ?bs = "mem_image ?f (unat a) k"
    let ?s1 = "snd (ee_start R a st)" let ?s2 = "ee_wr R 0x108 (0x200 OR of_nat k) (ee_wr R 0x108 0x1a1 ?s1)"
    let ?s3 = "snd (ee_read_burst R k acc ?s2)" let ?s4 = "snd (ee_wait_status R 4 0 ?s3)" let ?s5 = "snd (ee_rd R 0x20 ?s4)"
    note s1 = chip_start [OF assms, of a st]
    have s2: "m_dev ?s2 = (m_dev st)\<lparr>ch_tx := [], ch_rx := ?bs\<rparr>"
      using chip_read_command [of "m_dev ?s1" "unat a" k] s1 k unat_u16_less [of a]
      by (simp add: chip_wr [OF assms] chip_out_def)
    have "ch_rx (m_dev ?s2) = ?bs" "length ?bs = k" by (simp_all add: s2 mem_image_def)
    from chip_burst [OF assms this] have s3: "fst (ee_read_burst R k acc ?s2) = Some (acc @ ?bs)"
      "m_dev ?s3 = (m_dev st)\<lparr>ch_tx := [], ch_rx := []\<rparr>" using s2 by simp_all
    have s4: "fst (ee_wait_status R 4 0 ?s3)" "m_dev ?s4 = m_dev ?s3" by (rule chip_wait [OF assms]; simp)+
    have s5: "fst (ee_rd R 0x20 ?s4) = 0" "m_dev ?s5 = m_dev ?s3" using s4 by (simp_all add: chip_rd [OF assms] chip_in_def)
    have step: "eeprom_read_loop R a n acc st = eeprom_read_loop R (a + of_nat k) (n - k) (acc @ ?bs) ?s5"
      by (subst eeprom_read_loop.simps)
        (simp only: Let_def k_def [symmetric], simp add: split_def False s1 s3 s4 s5)
    have un: "unat (a + of_nat k) = unat a + k" using less.prems k by (simp add: unat_word_ariths unat_of_nat)
    have "fst (eeprom_read_loop R (a + of_nat k) (n - k) (acc @ ?bs) ?s5) =
        Some ((acc @ ?bs) @ mem_image (ch_mem (m_dev ?s5)) (unat (a + of_nat k)) (n - k)) \<and>
      ch_mem (m_dev (snd (eeprom_read_loop R (a + of_nat k) (n - k) (acc @ ?bs) ?s5))) = ch_mem (m_dev ?s5)"
      using less.prems k un by (intro less.IH) auto
    then show ?thesis unfolding step un using s5 s3 mem_image_split [OF k(2), of ?f "unat a"] by simp
  qed
qed

section \<open>The storage interface\<close>

abbreviation chip_memory :: "(chip, 'z) machine_scheme \<Rightarrow> nat \<Rightarrow> u8" where
  "chip_memory st \<equiv> ch_mem (m_dev st)"

lemma chip_accesses:
  assumes "chip_like R"
  shows "in_slots a n \<Longrightarrow> fst (eeprom_read R a n st) = Some (mem_image (chip_memory st) (unat a) n)"
    "in_slots a n \<Longrightarrow> chip_memory (snd (eeprom_read R a n st)) = chip_memory st"
    "in_slots a (length bs) \<Longrightarrow> fst (eeprom_write R a bs st)"
    "in_slots a (length bs) \<Longrightarrow> chip_memory (snd (eeprom_write R a bs st)) = overwrite (unat a) bs (chip_memory st)"
  using chip_read_loop [OF assms, of a n "[]" st] chip_write_loop [OF assms, of a bs st]
  by (simp_all add: eeprom_read_def eeprom_write_def in_slots_def SETTINGS_SLOT0_def SETTINGS_SLOT1_def word_less_nat_alt)

lemma chip_reliable:
  assumes "chip_like R"
  shows "reliable_storage (eeprom_read R) (eeprom_write R) chip_memory (\<lambda>st. True)"
  by unfold_locales (auto simp: chip_accesses [OF assms] overwrite_def mem_image_def intro!: nth_equalityI)

text \<open>The driver on the device, and the settings on top of both.\<close>

definition chip_bus :: "chip rtos" where
  "chip_bus = \<lparr>bsp_in32 = chip_in, bsp_out32 = chip_out, bsp_in8 = \<lambda>a d. (0, d), bsp_out8 = \<lambda>a v d. d, bsp_printf = \<lambda>f args d. d,
     os_ticks = \<lambda>d. (0, d), os_delay = \<lambda>n d. d, os_task_create = \<lambda>n d. (True, d)\<rparr>"

lemma chip_bus_like: "chip_like chip_bus"
  by (simp add: chip_like_def chip_bus_def)

interpretation eeprom_chip: reliable_storage "eeprom_read chip_bus" "eeprom_write chip_bus" chip_memory "\<lambda>st. True"
  by (rule chip_reliable [OF chip_bus_like])

lemmas chip_save_reload = eeprom_chip.save_reload [OF TrueI]

end
