(* ===== verification/Config_Durable.thy ===== *)
theory Config_Durable
  imports Config_Server Eeprom_Chip
begin

text \<open>
  The configuration path from the request to the memory and back: \<open>config_task\<close> over \<open>settings.c\<close> over \<open>eeprom.c\<close>. When the storage
  works, a well-formed request is accepted, survives in the EEPROM and is what a later request reads. The
  storage is the interface \<open>reliable_storage\<close>; the driver on the device of \<open>Eeprom_Chip\<close> is an instance of it.
\<close>

text \<open>The storage contract of the EEPROM driver below the dashboard: memory and health are those of the device.\<close>

definition durable_device :: "('d, 'q) dashboard_env \<Rightarrow> ('d \<Rightarrow> nat \<Rightarrow> u8) \<Rightarrow> ('d \<Rightarrow> bool) \<Rightarrow> bool" where
  "durable_device E contents up \<longleftrightarrow>
     reliable_storage (eeprom_read E) (eeprom_write E) (\<lambda>st :: ('d, 'q) dashboard. contents (m_dev st)) (\<lambda>st. up (m_dev st))"

lemma dev_log [simp]: "m_dev (log_event e st) = m_dev st"
  by (simp add: log_event_def)

lemma dev_telemetry [simp]: "m_dev (telemetry_event E s st) = m_dev st"
  by (simp add: telemetry_event_def telemetry_detail_def Let_def split_def split: option.split)

text \<open>A name that fits the command buffer is found as it is.\<close>

lemma json_command:
  assumes "search line (ascii ''command'') = JSONSuccess v JSONString" "length v < 24" "list_all json_char_ok v"
  shows "\<exists>command. json_string search line ''command'' (replicate 24 0) 24 = (0, command) \<and> cstr command = v"
proof -
  obtain rc command where c: "json_string search line ''command'' (replicate 24 0) 24 = (rc, command)" by fastforce
  with assms have "rc = 0" by (simp add: json_string_def)
  with c have "json_string search line ''command'' (replicate 24 0) 24 = (0, command)" by simp
  moreover from json_string_stored [OF this] assms(1) have "cstr command = v" by fastforce
  ultimately show ?thesis by blast
qed

lemma configure_durable:
  assumes dev: "durable_device E contents up" and st: "up (m_dev st)" "settings_wf (db_settings st)"
    and p: "miner_config_parse (de_validate E) (de_search E) line (db_settings st) settings_defaults = (None, nxt)"
  shows "\<exists>st'. configure E line st = (None, st') \<and> db_settings st' = nxt \<and> db_generation st' = db_generation st + 1 \<and>
    db_active_mac st' = db_active_mac st \<and> up (m_dev st') \<and> stored (contents (m_dev st')) = Some nxt"
proof -
  let ?s0 = "log_event (Call ''xSemaphoreTake'') st"
  have v: "settings_wf nxt" "settings_valid nxt" by (rule config_parse_fields [OF p st(2)]; simp)+
  from reliable_storage.save_reload [OF dev [unfolded durable_device_def], of ?s0 nxt] v st(1)
  obtain s1 where s1: "settings_save nxt (eeprom_read E) (eeprom_write E) ?s0 = (0, s1)" "up (m_dev s1)"
    "stored (contents (m_dev s1)) = Some nxt" by auto
  have "machine.more s1 = machine.more ?s0" using ee_only_save [OF ee_only_refl, of ?s0 nxt E] s1(1) by (simp add: ee_only_def)
  then have m1: "machine.more s1 = machine.more st" by simp
  let ?s2 = "log_event (Call ''xSemaphoreGive'') (s1\<lparr>db_settings := nxt, db_generation := db_generation s1 + 1\<rparr>)"
  have set0: "db_settings ?s0 = db_settings st" by (simp add: log_event_def)
  have "configure E line st = (None, telemetry_event E ''settings_saved'' ?s2)" using p s1(1) set0 by (simp add: configure_def)
  moreover have "db_settings ?s2 = nxt" "db_generation ?s2 = db_generation s1 + 1" "db_active_mac ?s2 = db_active_mac s1"
    by (simp_all add: log_event_def)
  ultimately show ?thesis using s1(2,3) more_fields [OF m1] by simp
qed

lemma get_settings_reply:
  assumes dev: "durable_device E contents up" and st: "up (m_dev st)" "stored (contents (m_dev st)) = Some s"
    and get: "de_validate E line" "de_search E line (ascii ''command'') = JSONSuccess (ascii ''get_settings'') JSONString"
    and out: "length out = 1024"
  shows "\<exists>n buf st'. config_reply E line True out 1024 st = ((n, buf), st') \<and> complete_reply n buf (config_text s True (db_active_mac st))"
proof -
  let ?s0 = "log_event (Call ''xSemaphoreTake'') st"
  from json_command [of "de_search E", OF get(2)] obtain command where
    c: "json_string (de_search E) line ''command'' (replicate 24 0) 24 = (0, command)" "cstr command = ascii ''get_settings''"
    by (auto simp: json_char_ok_def)
  from reliable_storage.load_up [OF dev [unfolded durable_device_def], of ?s0 s] st
  obtain s1 where s1: "settings_load (eeprom_read E) ?s0 = ((1, s), s1)" by (auto simp: prod_eq_iff)
  have "machine.more s1 = machine.more ?s0" using ee_only_load [OF ee_only_refl, of ?s0 E] s1 by (simp add: ee_only_def)
  then have "machine.more (log_event (Call ''xSemaphoreGive'') s1) = machine.more st" by simp
  note mac = more_fields(6) [OF this]
  have ok: "settings_valid s" "length (ms_host s) \<le> 96" "length (ms_worker s) \<le> 128"
    using load_valid [of "eeprom_read E" ?s0] load_lengths [of "eeprom_read E" ?s0] s1 by simp_all
  obtain n buf where b: "snprintf_to out 1024 (config_text s True (db_active_mac st)) = (n, buf)" by fastforce
  have "config_reply E line True out 1024 st = ((n, buf), log_event (Call ''xSemaphoreGive'') s1)"
    using c get(1) s1 ok(1) mac b by (simp add: config_reply_def miner_config_json_def)
  with reply_printed [OF length_config_text [OF ok(2,3)] config_text_end(1,2) out b] show ?thesis by blast
qed

section \<open>A dashboard on the device\<close>

text \<open>
  The device of \<open>Eeprom_Chip\<close> below the dashboard, and a JSON library that knows two requests: the complete command of
  \<open>Miner_Protocol\<close>, and \<open>get\<close>, which asks for the settings.
\<close>

definition desk_search :: json_search where
  "desk_search s q = (if s = ascii ''get'' then (if q = ascii ''command'' then JSONSuccess (ascii ''get_settings'') JSONString else JSONNotFound)
     else demo_search s q)"

definition desk_env :: "(chip, miner_event list) dashboard_env" where
  "desk_env = \<lparr>bsp_in32 = chip_in, bsp_out32 = chip_out, bsp_in8 = \<lambda>a d. (0, d), bsp_out8 = \<lambda>a v d. d,
     bsp_printf = \<lambda>f args d. d, os_ticks = \<lambda>d. (0, d), os_delay = \<lambda>n d. d, os_task_create = \<lambda>n d. (True, d),
     de_validate = \<lambda>s. True, de_search = desk_search, de_queue_create = \<lambda>n d. (Some [], d),
     de_queue_send = \<lambda>e q. (False, q), de_queue_receive = \<lambda>q. (None, q),
     de_socket = \<lambda>k d. (True, d), de_bind = \<lambda>p d. (0, d), de_setsockopt = \<lambda>o' n d. d, de_close = \<lambda>d. d, de_listen = \<lambda>n d. (0, d),
     de_recvfrom = \<lambda>n d. ((0, [], \<lparr>sin_address = 0, sin_port = 0\<rparr>), d), de_sendto = \<lambda>m p d. d,
     de_accept = \<lambda>d. (True, d), de_recv = \<lambda>d. ((0, 0), d), de_send = \<lambda>s d. (int (length s), d), de_shutdown = \<lambda>d. d,
     de_ewouldblock = 11, de_sysmon_base = 0x44a40000, de_network_up = \<lambda>d. True, de_phy_known = \<lambda>d. True\<rparr>"

definition desk :: "(chip, miner_event list) dashboard" where
  "desk = \<lparr>m_dev = \<lparr>ch_mem = \<lambda>a. 0xff, ch_tx = [], ch_rx = []\<rparr>, m_trace = [], db_events = None, db_event_seq = 0,
     db_stats = miner_stats_zero, db_settings = demo_settings, db_generation = 0, db_active_mac = replicate 6 2\<rparr>"

lemma desk_durable: "durable_device desk_env ch_mem (\<lambda>d. True)"
  unfolding durable_device_def by (rule chip_reliable) (simp add: chip_like_def desk_env_def)

lemma desk_parse: "fst (miner_config_parse (\<lambda>s. True) desk_search [] demo_settings settings_defaults) = None"
  by code_simp

section \<open>Properties\<close>

text \<open>
  C34. The configuration is durable and reads back. On storage whose accesses succeed, a request whose fields form valid settings is
  always answered with success, becomes the current configuration with the next generation number, and is what \<open>settings_load\<close> then
  finds in the EEPROM, as after a restart; a later \<open>get_settings\<close> request is answered with the text of exactly these settings, marked as
  stored, and the address in use.
\<close>

theorem config_durable:
  assumes "durable_device E contents up" "up (m_dev st)" "settings_wf (db_settings st)" "length out = 1024"
    and parse: "miner_config_parse (de_validate E) (de_search E) line (db_settings st) settings_defaults = (None, nxt)"
    and get: "de_validate E line'" "de_search E line' (ascii ''command'') = JSONSuccess (ascii ''get_settings'') JSONString"
  shows "\<exists>n buf st' n' buf' st''. config_reply E line True out 1024 st = ((n, buf), st') \<and> complete_reply n buf (error_text None) \<and>
    db_settings st' = nxt \<and> db_generation st' = db_generation st + 1 \<and> fst (settings_load (eeprom_read E) st') = (1, nxt) \<and>
    config_reply E line' True out 1024 st' = ((n', buf'), st'') \<and> complete_reply n' buf' (config_text nxt True (db_active_mac st))"
proof -
  from configure_durable [OF assms(1-3) parse] obtain st' where
    st': "configure E line st = (None, st')" "db_settings st' = nxt" "db_generation st' = db_generation st + 1"
    "db_active_mac st' = db_active_mac st" "up (m_dev st')" "stored (contents (m_dev st')) = Some nxt" by blast
  have "de_search E line (ascii ''command'') = JSONSuccess (ascii ''configure'') JSONString"
    by (rule config_parse_fields [OF parse assms(3)])
  from json_command [of "de_search E", OF this] obtain command where
    "json_string (de_search E) line ''command'' (replicate 24 0) 24 = (0, command)" "cstr command = ascii ''configure''"
    by (auto simp: json_char_ok_def)
  moreover have "de_validate E line" using parse by (auto simp: miner_config_parse_def split: if_splits)
  moreover obtain n buf where b: "snprintf_to out 1024 (error_text None) = (n, buf)" by fastforce
  ultimately have "config_reply E line True out 1024 st = ((n, buf), st')" using st'(1) by (simp add: config_reply_def)
  moreover have "complete_reply n buf (error_text None)"
    by (rule reply_printed [OF length_error_text error_text_end(1,2) assms(4) b]) simp
  moreover have "fst (settings_load (eeprom_read E) st') = (1, nxt)"
    using reliable_storage.load_up [OF assms(1) [unfolded durable_device_def]] st'(5,6) by blast
  ultimately show ?thesis using get_settings_reply [OF assms(1) st'(5,6) get assms(4)] st'(2-4) by metis
qed

theorem config_durable_witness:
  "\<exists>n buf st nxt. config_reply desk_env [] True (replicate 1024 0) 1024 desk = ((n, buf), st) \<and> complete_reply n buf (error_text None) \<and>
     db_generation st = 1 \<and> fst (settings_load (eeprom_read desk_env) st) = (1, nxt) \<and> db_settings st = nxt"
proof -
  have env: "de_validate desk_env = (\<lambda>s. True)" "de_search desk_env = desk_search" by (simp_all add: desk_env_def)
  have wf: "settings_wf (db_settings desk)" by (simp add: desk_def settings_wf_def demo_settings_def)
  obtain nxt where "miner_config_parse (\<lambda>s. True) desk_search [] demo_settings settings_defaults = (None, nxt)"
    using desk_parse by (metis prod.collapse)
  then have p: "miner_config_parse (de_validate desk_env) (de_search desk_env) [] (db_settings desk) settings_defaults = (None, nxt)"
    by (simp add: env desk_def)
  have get: "de_validate desk_env (ascii ''get'')"
    "de_search desk_env (ascii ''get'') (ascii ''command'') = JSONSuccess (ascii ''get_settings'') JSONString"
    by (simp_all add: env desk_search_def)
  from config_durable [OF desk_durable TrueI wf length_replicate p get, of 0] show ?thesis by (auto simp: desk_def)
qed

end
