(* ===== verification/App_Main.thy ===== *)
theory App_Main
  imports Dashboard_Reach Console
begin

text \<open>
  \<open>application/main.c\<close>: the start of the application, the pseudo-random numbers of the IP stack and the network hooks. The
  globals that the dashboard shares are in its state; the caches, the mutex and the IP stack are parameters.
\<close>

section \<open>The code\<close>

record ('d, 'q) app =
  ap_dash :: "('d, 'q) dashboard"
  ap_random_state :: u32
  ap_network_up :: bool

record 'd app_env =
  ae_mutex_create :: "'d \<Rightarrow> bool \<times> 'd"
  ae_ip_init :: "bytes list \<Rightarrow> bytes \<Rightarrow> 'd \<Rightarrow> bool \<times> 'd"
  ae_ip_address :: "'d \<Rightarrow> u32"
  ae_is_network_up :: "'d \<Rightarrow> bool"
  ae_retry_dhcp :: "'d \<Rightarrow> 'd"

definition xorshift :: "u32 \<Rightarrow> u32" where
  "xorshift x = (let x = x XOR push_bit 13 x; x = x XOR drop_bit 17 x in x XOR push_bit 5 x)"

definition xApplicationGetRandomNumber :: "('d, 'q) app \<Rightarrow> u32 \<times> ('d, 'q) app" where
  "xApplicationGetRandomNumber a = (let x = xorshift (ap_random_state a) in (x, a\<lparr>ap_random_state := x\<rparr>))"

definition ulApplicationGetNextSequenceNumber ::
  "u32 \<Rightarrow> u16 \<Rightarrow> u32 \<Rightarrow> u16 \<Rightarrow> ('d, 'q) app \<Rightarrow> u32 \<times> ('d, 'q) app" where
  "ulApplicationGetNextSequenceNumber src sp dst dp a =
     (let (n, a) = xApplicationGetRandomNumber a in (n XOR src XOR dst XOR push_bit 16 (ucast sp) XOR ucast dp, a))"

definition vApplicationIPNetworkEventHook ::
  "('d, 'q) dashboard_env \<Rightarrow> 'd app_env \<Rightarrow> bool \<Rightarrow> ('d, 'q) app \<Rightarrow> ('d, 'q) app" where
  "vApplicationIPNetworkEventHook E A event_up a =
     (let up = (event_up \<and> ae_ip_address A (m_dev (ap_dash a)) \<noteq> 0)
      in a\<lparr>ap_network_up := up, ap_dash := xil_printf E (if up then ''Network up'' else ''Network down'') [] (ap_dash a)\<rparr>)"

text \<open>One iteration of the loop of \<open>network_watch\<close>.\<close>

definition network_watch_step :: "('d, 'q) dashboard_env \<Rightarrow> 'd app_env \<Rightarrow> ('d, 'q) app \<Rightarrow> ('d, 'q) app" where
  "network_watch_step E A a =
     (let st = vTaskDelay E (pdMS_TO_TICKS 10000) (ap_dash a);
          st = (if ae_is_network_up A (m_dev st) \<and> ae_ip_address A (m_dev st) = 0
                then st\<lparr>m_dev := ae_retry_dhcp A (m_dev st)\<rparr> else st)
      in a\<lparr>ap_dash := st\<rparr>)"

definition seed_random :: "u32 \<Rightarrow> u32 \<Rightarrow> bytes \<Rightarrow> u32" where
  "seed_random state timer mac = foldl (\<lambda>r b. r * 33 + ucast b) (state XOR timer) (take 6 mac)"

text \<open>\<open>stratum_start\<close> of \<open>application/stratum.c\<close>; \<open>None\<close> is a failed assertion, here and in \<open>main\<close>.\<close>

definition stratum_start :: "('d, 'q) dashboard_env \<Rightarrow> ('d, 'q) dashboard \<Rightarrow> ('d, 'q) dashboard option" where
  "stratum_start E st = (let (ok, st) = xTaskCreate E ''stratum'' st in if ok then Some st else None)"

text \<open>The state in which the scheduler is started.\<close>

definition app_main :: "('d, 'q) dashboard_env \<Rightarrow> 'd app_env \<Rightarrow> ('d, 'q) app \<Rightarrow> ('d, 'q) app option" where
  "app_main E A a =
     (let st = console_init E (ap_dash a);
          st = log_event (Call ''Xil_ICacheEnable'') st; st = log_event (Call ''Xil_DCacheEnable'') st;
          st = xil_printf E ''SCU35 Bitcoin miner v1.1.0 / FreeRTOS 202604-LTS / CPU 50MHz'' [] st;
          (hw, st) = Xil_In32 E MINER_HW_VERSION_REG st; (boot, st) = Xil_In32 E MINER_BOOT_VERSION_REG st;
          (lanes, st) = Xil_In32 E MINER_ENGINES_REG st;
          st = xil_printf E ''Hardware version %08x / bootloader version %08x / lanes %d'' [hw, boot, lanes] st;
          ((from_store, s), st) = settings_load (eeprom_read E) st;
          st = st\<lparr>db_settings := s, db_active_mac := take 6 (ms_mac s)\<rparr>;
          (timer, st) = Xil_In32 E 0x41c00008 st;
          a = a\<lparr>ap_random_state := seed_random (ap_random_state a) timer (db_active_mac st)\<rparr>;
          st = xil_printf E ''EEPROM settings %d; MAC %02x:%02x:%02x:%02x:%02x:%02x''
                 (of_int from_store # map ucast (db_active_mac st)) st;
          (ok, d) = ae_mutex_create A (m_dev st); st = st\<lparr>m_dev := d\<rparr>
      in if \<not> ok then None
      else let (ok, d) = ae_ip_init A [[0, 0, 0, 0], [255, 255, 255, 0], [0, 0, 0, 0], [0, 0, 0, 0]] (db_active_mac st) (m_dev st); st = st\<lparr>m_dev := d\<rparr>
      in if \<not> ok then None
      else case dashboard_start E st of None \<Rightarrow> None
      | Some st \<Rightarrow>
     (case stratum_start E st of None \<Rightarrow> None
      | Some st \<Rightarrow>
          let (ok, st) = xTaskCreate E ''network_watch'' st
          in if ok then Some (a\<lparr>ap_dash := st\<rparr>) else None))"

text \<open>The zero-initialised globals.\<close>

definition app_init :: "'d \<Rightarrow> ('d, 'q) app" where
  "app_init d =
     \<lparr>ap_dash = \<lparr>m_dev = d, m_trace = [], db_events = None, db_event_seq = 0, db_stats = miner_stats_zero,
        db_settings = \<lparr>ms_mac = replicate 6 0, ms_port = 0, ms_host = replicate 96 0, ms_worker = replicate 128 0, ms_password = replicate 64 0\<rparr>,
        db_generation = 0, db_active_mac = replicate 6 0\<rparr>,
      ap_random_state = 0x712ae951, ap_network_up = False\<rparr>"

section \<open>The settings after the start\<close>

lemma eeprom_read_length: "eeprom_read R a n st = (Some b, st') \<Longrightarrow> length b = n"
  using read_loop_rx [of a n R "[]" st "Some b" st'] by (auto simp: eeprom_read_def split: if_splits)

lemma unpack_wf: "length b = 512 \<Longrightarrow> settings_wf (unpack s b)"
  by (simp add: unpack_def settings_wf_def)

lemma load_wf: "settings_wf (snd (fst (settings_load (eeprom_read R) st)))"
proof -
  have "select_slot b0 b1 < 2" for b0 b1 by (simp add: select_slot_def Let_def)
  moreover have "settings_wf (unpack settings_defaults ([b0, b1] ! nat k))" if "length b0 = 512" "length b1 = 512" "0 \<le> k" "k < 2" for b0 b1 and k :: int
  proof -
    have "k = 0 \<or> k = 1" using that by linarith
    then show ?thesis using that by (auto intro: unpack_wf)
  qed
  ultimately show ?thesis
    by (auto simp: settings_load_def read_slots_def Let_def settings_defaults_valid not_less split: prod.splits option.splits dest!: eeprom_read_length)
qed

lemma printf_more [simp]: "machine.more (xil_printf E f args st) = machine.more st"
  by (simp add: xil_printf_def)

lemma console_more [simp]: "machine.more (console_init E st) = machine.more st"
  by (simp add: console_init_def Xil_Out32_def Let_def)

lemma same_but_devices: "machine.more st' = machine.more st \<Longrightarrow> st' = st\<lparr>m_dev := m_dev st', m_trace := m_trace st'\<rparr>"
  for st st' :: "('d, 'q) dashboard"
  by (cases st; cases st') simp

lemma app_main_run:
  assumes "app_main E A a = Some a'"
  obtains st0 st1 where "db_stats st0 = db_stats (ap_dash a)" "settings_wf (db_settings st0)" "settings_valid (db_settings st0)"
    "db_active_mac st0 = ms_mac (db_settings st0)" "dashboard_start E st0 = Some st1" "machine.more (ap_dash a') = machine.more st1"
proof -
  let ?s0 = "log_event (Call ''Xil_DCacheEnable'') (log_event (Call ''Xil_ICacheEnable'') (console_init E (ap_dash a)))"
  let ?s1 = "xil_printf E ''SCU35 Bitcoin miner v1.1.0 / FreeRTOS 202604-LTS / CPU 50MHz'' [] ?s0"
  obtain hw s2 where s2: "Xil_In32 E MINER_HW_VERSION_REG ?s1 = (hw, s2)" by fastforce
  obtain boot s3 where s3: "Xil_In32 E MINER_BOOT_VERSION_REG s2 = (boot, s3)" by fastforce
  obtain lanes s4 where s4: "Xil_In32 E MINER_ENGINES_REG s3 = (lanes, s4)" by fastforce
  let ?s5 = "xil_printf E ''Hardware version %08x / bootloader version %08x / lanes %d'' [hw, boot, lanes] s4"
  obtain k s s6 where s6: "settings_load (eeprom_read E) ?s5 = ((k, s), s6)" by (metis prod.exhaust)
  have wf: "settings_wf s" "settings_valid s" using load_wf [of E ?s5] load_valid [of "eeprom_read E" ?s5] s6 by simp_all
  then have mac: "take 6 (ms_mac s) = ms_mac s" by (simp add: settings_wf_def)
  let ?s7 = "s6\<lparr>db_settings := s, db_active_mac := ms_mac s\<rparr>"
  obtain timer s8 where s8: "Xil_In32 E 0x41c00008 ?s7 = (timer, s8)" by fastforce
  have a8: "db_active_mac s8 = ms_mac s" using more_fields(6) [OF more_In32 [OF s8, THEN conjunct1]] by simp
  define s9 where "s9 = xil_printf E ''EEPROM settings %d; MAC %02x:%02x:%02x:%02x:%02x:%02x'' (of_int k # map ucast (ms_mac s)) s8"
  have m9: "machine.more s9 = machine.more s8" by (simp add: s9_def)
  have a9: "db_active_mac s9 = ms_mac s" using more_fields(6) [OF m9] a8 by simp
  obtain ok d where d: "ae_mutex_create A (m_dev s9) = (ok, d)" by fastforce
  obtain ok' d' where d': "ae_ip_init A [[0, 0, 0, 0], [255, 255, 255, 0], [0, 0, 0, 0], [0, 0, 0, 0]] (ms_mac s) d = (ok', d')" by fastforce
  let ?st0 = "s9\<lparr>m_dev := d'\<rparr>"
  have "ee_only ?s5 s6" using ee_only_load [OF ee_only_refl, of ?s5 E] s6 by simp
  then have m6: "machine.more s6 = machine.more (ap_dash a)"
    using more_In32 [OF s2] more_In32 [OF s3] more_In32 [OF s4] by (simp add: ee_only_def)
  have m0: "machine.more ?st0 = machine.more ?s7" using more_In32 [OF s8] m9 by simp
  have f: "db_stats ?st0 = db_stats (ap_dash a)" "db_settings ?st0 = s" "db_active_mac ?st0 = ms_mac s"
    using more_fields [OF m0] more_fields [OF m6] by simp_all
  obtain st1 where st1: "dashboard_start E ?st0 = Some st1" "machine.more (ap_dash a') = machine.more st1"
  proof -
    have run: "(case dashboard_start E ?st0 of None \<Rightarrow> None
      | Some st \<Rightarrow> (case stratum_start E st of None \<Rightarrow> None
        | Some st \<Rightarrow> let (ok, st) = xTaskCreate E ''network_watch'' st
            in if ok then Some (a\<lparr>ap_random_state := seed_random (ap_random_state a) timer (db_active_mac s8), ap_dash := st\<rparr>) else None)) = Some a'"
      using assms by (simp add: app_main_def s2 s3 s4 s6 mac s8 a8 s9_def [symmetric] a9 d d' Let_def split: if_splits)
    then obtain st1 st2 st3 where x: "dashboard_start E ?st0 = Some st1" "stratum_start E st1 = Some st2"
      "xTaskCreate E ''network_watch'' st2 = (True, st3)" "ap_dash a' = st3"
      by (auto split: option.splits prod.splits if_splits)
    have "machine.more st2 = machine.more st1"
      using x(2) create_more [of E "''stratum''" st1] by (auto simp: stratum_start_def split: prod.splits if_splits)
    with create_more [OF x(3)] x show thesis using that by simp
  qed
  show thesis by (rule that [of ?st0 st1]) (use f wf st1 in simp_all)
qed

section \<open>Random numbers\<close>

text \<open>Both shifts of the generator are invertible, so it permutes the non-zero states, but zero is a fixed point.\<close>

lemma xor_zero: "x XOR y = 0 \<Longrightarrow> x = y" for x y :: u32
  by (simp add: bit_eq_iff bit_xor_iff)

lemma xor_push_zero:
  fixes x :: u32
  assumes "x XOR push_bit k x = 0" "0 < k"
  shows "x = 0"
proof (rule bit_eqI)
  fix n
  have eq: "x = push_bit k x" using assms(1) by (rule xor_zero)
  have "\<not> bit x n"
  proof (induction n rule: less_induct)
    case (less n)
    have "bit x n = (k \<le> n \<and> n < 32 \<and> bit x (n - k))" using arg_cong [OF eq, of "\<lambda>x. bit x n"] by (auto simp: bit_simps dest: bit_imp_le_length)
    then show ?case using less.IH [of "n - k"] assms(2) by auto
  qed
  then show "bit x n = bit 0 n" by simp
qed

lemma xor_drop_zero:
  fixes x :: u32
  assumes "x XOR drop_bit 17 x = 0"
  shows "x = 0"
proof (rule bit_eqI)
  fix n
  have eq: "x = drop_bit 17 x" using assms by (rule xor_zero)
  have step: "bit x m = bit x (17 + m)" for m using arg_cong [OF eq, of "\<lambda>x. bit x m"] by (simp add: bit_simps)
  have "\<not> bit x (17 + (17 + n))" using bit_imp_le_length [of x "17 + (17 + n)"] by auto
  then show "bit x n = bit 0 n" using step [of n] step [of "17 + n"] by simp
qed

lemma xorshift_zero: "xorshift x = 0 \<longleftrightarrow> x = 0"
proof
  assume "xorshift x = 0"
  then have "(x XOR push_bit 13 x) XOR drop_bit 17 (x XOR push_bit 13 x) = 0"
    unfolding xorshift_def Let_def by (rule xor_push_zero) simp
  then have "x XOR push_bit 13 x = 0" by (rule xor_drop_zero)
  then show "x = 0" by (rule xor_push_zero) simp
qed (simp add: xorshift_def)

lemma random_stays_nonzero:
  "ap_random_state a \<noteq> 0 \<Longrightarrow> xApplicationGetRandomNumber a = (n, a') \<Longrightarrow> n \<noteq> 0 \<and> ap_random_state a' = n"
  by (auto simp: xApplicationGetRandomNumber_def xorshift_zero Let_def)

text \<open>For every address some timer value makes the seed zero; from then on every random number is zero.\<close>

lemma fold33_onto: "\<exists>r :: u32. foldl (\<lambda>r b. r * 33 + ucast (b :: u8)) r bs = t"
proof (induction bs arbitrary: t rule: rev_induct)
  case (snoc b bs)
  define c :: u32 where "c = 0x3E0F83E1"
  have "c * 33 = 1" by (simp add: c_def)
  then have inv: "(t - ucast b) * c * 33 + ucast b = t" by (simp only: mult.assoc) simp
  obtain r where "foldl (\<lambda>r b. r * 33 + ucast (b :: u8)) r bs = (t - ucast b) * c" using snoc.IH by blast
  then have "foldl (\<lambda>r b. r * 33 + ucast (b :: u8)) r (bs @ [b]) = t" by (simp only: foldl_append foldl.simps inv)
  then show ?case by blast
qed simp

lemma seed_can_vanish: "\<exists>timer. seed_random state timer mac = 0 \<and> (\<forall>a. ap_random_state a = 0 \<longrightarrow> xApplicationGetRandomNumber a = (0, a))"
proof -
  obtain r where r: "foldl (\<lambda>r b. r * 33 + ucast b) r (take 6 mac) = (0 :: u32)" using fold33_onto by blast
  have "state XOR (state XOR r) = r" by (simp add: xor.assoc [symmetric])
  then have "seed_random state (state XOR r) mac = 0" using r by (simp add: seed_random_def)
  moreover have "xApplicationGetRandomNumber a = (0, a)" if "ap_random_state a = 0" for a :: "('x, 'y) app"
    using that by (simp add: xApplicationGetRandomNumber_def Let_def xorshift_def)
  ultimately show ?thesis by blast
qed

section \<open>Properties\<close>

text \<open>
  C33. The start of the application establishes what its tasks rely on: whatever the EEPROM returns, the settings in use are valid,
  the active address is the one of the settings, and the first state of the telemetry task is a
  reachable state of the dashboard, in which the invariant of the shared variables holds.
\<close>

theorem app_boot:
  assumes "queue_contract E content" "app_main E A (app_init d) = Some a"
    and "length message = MINER_TELEMETRY_MAX" "broadcast_start E message (ap_dash a) = Some (bc, st)"
  shows "settings_valid (db_settings (ap_dash a)) \<and> settings_wf (db_settings (ap_dash a)) \<and>
    db_active_mac (ap_dash a) = ms_mac (db_settings (ap_dash a)) \<and> dash_reach E bc st \<and> dash_inv content bc st"
proof -
  obtain st0 st1 where run: "db_stats st0 = miner_stats_zero" "settings_wf (db_settings st0)" "settings_valid (db_settings st0)"
    "db_active_mac st0 = ms_mac (db_settings st0)" "dashboard_start E st0 = Some st1" "machine.more (ap_dash a) = machine.more st1"
    by (rule app_main_run [OF assms(2)]) (simp add: app_init_def)
  from dashboard_start_spec [OF run(5)] more_fields [OF run(6)]
  have f: "db_settings (ap_dash a) = db_settings st0" "db_active_mac (ap_dash a) = db_active_mac st0" by auto
  have "broadcast_start E message (st1\<lparr>m_dev := m_dev (ap_dash a), m_trace := m_trace (ap_dash a)\<rparr>) = Some (bc, st)"
    using assms(4) same_but_devices [OF run(6)] by simp
  then have "dash_reach E bc st" by (rule dash_reach.start [OF run(1-3,5) assms(3)])
  then show ?thesis using f run reach_inv [OF _ assms(1)] by simp
qed

definition quiet_app :: "nat app_env" where
  "quiet_app = \<lparr>ae_mutex_create = \<lambda>d. (True, d), ae_ip_init = \<lambda>m a d. (True, d), ae_ip_address = \<lambda>d. 0, ae_is_network_up = \<lambda>d. True,
     ae_retry_dhcp = \<lambda>d. d\<rparr>"

lemma quiet_io [simp]:
  "fst (Xil_In32 quiet_env r st) = 0" "fst (xTaskCreate quiet_env n st)" "de_queue_create quiet_env k d = (Some [], d)"
  "fst (bound_socket quiet_env b p st)"
  by (simp_all add: quiet_env_def Xil_In32_def xTaskCreate_def bound_socket_def)

lemma quiet_dashboard: "\<exists>st'. dashboard_start quiet_env st = Some st'"
  by (simp add: dashboard_start_def power_start_def split_def Let_def)

lemma quiet_main: "\<exists>a'. app_main quiet_env quiet_app a = Some a'"
proof -
  have "\<exists>st'. stratum_start quiet_env st = Some st'" for st by (simp add: stratum_start_def split_def)
  then show ?thesis
    using quiet_dashboard by (auto simp: app_main_def quiet_app_def split_def Let_def split: option.split) (metis option.distinct(1))+
qed

theorem app_boot_witness:
  "\<exists>a bc st. app_main quiet_env quiet_app (app_init 0) = Some a \<and>
     broadcast_start quiet_env (replicate MINER_TELEMETRY_MAX 0) (ap_dash a) = Some (bc, st) \<and>
     settings_valid (db_settings (ap_dash a)) \<and> dash_inv (\<lambda>q. q) bc st"
proof -
  obtain a where a: "app_main quiet_env quiet_app (app_init 0) = Some a" using quiet_main by blast
  obtain bc st where b: "broadcast_start quiet_env (replicate MINER_TELEMETRY_MAX 0) (ap_dash a) = Some (bc, st)"
    by (simp add: broadcast_start_def split_def Let_def)
  from app_boot [OF quiet_queue a _ b] a b show ?thesis by auto
qed

end
