(* ===== verification/Network_Interface.thy ===== *)
theory Network_Interface
  imports Mmio
begin

text \<open>
  \<open>application/NetworkInterface.c\<close>: the Ethernet driver between the vendor's EmacLite functions and the FreeRTOS IP stack. Both are
  fields of an environment record, with the constants of their headers. The trace records which receive buffer is looked at
  (\<open>NextReceive\<close>, \<open>RxStatus\<close>, \<open>SetRxStatus\<close>), the register
  reads of the frame check, the buffers taken from and returned to the stack, the frames received from
  the hardware, delivered to the stack (\<open>Deliver\<close> with the length) and sent.
\<close>

section \<open>State and environment\<close>

record 'd network = "'d machine" +
  nw_rx_task :: bool
  nw_iface :: bool
  nw_phy :: int

definition network_vars :: "'d \<Rightarrow> mmio list \<Rightarrow> 'd network" where
  "network_vars d tr = \<lparr>m_dev = d, m_trace = tr, nw_rx_task = False, nw_iface = False, nw_phy = -1\<rparr>"

record 'd network_env = "'d rtos" +
  XEL_RSR_RECV_DONE_MASK :: u32
  XEL_BUFFER_OFFSET :: u32
  XEL_RXBUFF_OFFSET :: u32
  XEL_HEADER_IP_LENGTH_OFFSET :: u32
  XEL_ETHER_PROTO_TYPE_ARP :: u16
  XEL_ETHER_PROTO_TYPE_IP :: u16
  XEL_FCS_SIZE :: nat
  ipBUFFER_PADDING :: nat
  ne_next_recv_addr :: "'d \<Rightarrow> u32 \<times> 'd"
  ne_rx_status :: "u32 \<Rightarrow> 'd \<Rightarrow> u32 \<times> 'd"
  ne_set_rx_status :: "u32 \<Rightarrow> u32 \<Rightarrow> 'd \<Rightarrow> 'd"
  ne_read_reg :: "u32 \<Rightarrow> 'd \<Rightarrow> u32 \<times> 'd"
  ne_recv :: "'d \<Rightarrow> (nat \<times> bytes) \<times> 'd"
  ne_notify_give :: "'d \<Rightarrow> 'd"
  ne_notify_take :: "u32 \<Rightarrow> 'd \<Rightarrow> 'd"
  ne_get_buffer :: "nat \<Rightarrow> 'd \<Rightarrow> bool \<times> 'd"
  ne_release :: "'d \<Rightarrow> 'd"
  ne_endpoint :: "bytes \<Rightarrow> 'd \<Rightarrow> bool \<times> 'd"
  ne_send_event :: "'d \<Rightarrow> bool \<times> 'd"
  ne_phy_read :: "u32 \<Rightarrow> u32 \<Rightarrow> 'd \<Rightarrow> u16 option \<times> 'd"
  ne_phy_write :: "u32 \<Rightarrow> u32 \<Rightarrow> u16 \<Rightarrow> 'd \<Rightarrow> 'd"
  ne_network_down :: "'d \<Rightarrow> 'd"
  ne_tx_available :: "'d \<Rightarrow> bool \<times> 'd"
  ne_send :: "bytes \<Rightarrow> 'd \<Rightarrow> bool \<times> 'd"
  ne_lookup_config :: "'d \<Rightarrow> bool \<times> 'd"
  ne_cfg_initialize :: "'d \<Rightarrow> bool \<times> 'd"
  ne_set_mac :: "'d \<Rightarrow> 'd"
  ne_set_handlers :: "'d \<Rightarrow> 'd"
  ne_install_handler :: "'d \<Rightarrow> bool \<times> 'd"
  ne_enable_interrupts :: "'d \<Rightarrow> 'd"
  ne_add_interface :: "'d \<Rightarrow> 'd"

definition ipconfigNETWORK_MTU :: nat where "ipconfigNETWORK_MTU = 1500"
definition ipconfigNUM_NETWORK_BUFFER_DESCRIPTORS :: nat where "ipconfigNUM_NETWORK_BUFFER_DESCRIPTORS = 24"

section \<open>Receive\<close>

text \<open>The static buffers: each descriptor points behind the padding of its own row; the result is the usable size.\<close>

definition BUFFER_BYTES :: "nat \<Rightarrow> nat" where
  "BUFFER_BYTES padding = (1536 + padding + 31) div 32 * 32"

definition uxNetworkInterfaceAllocateRAMToBuffers :: "nat \<Rightarrow> nat \<times> (nat \<times> nat) list" where
  "uxNetworkInterfaceAllocateRAMToBuffers padding =
     (BUFFER_BYTES padding - padding, map (\<lambda>i. (i * BUFFER_BYTES padding, i * BUFFER_BYTES padding + padding))
        [0..<ipconfigNUM_NETWORK_BUFFER_DESCRIPTORS])"

text \<open>The interrupt handlers.\<close>

definition receive_irq :: "'d network_env \<Rightarrow> 'd network \<Rightarrow> 'd network" where
  "receive_irq E st = st\<lparr>m_dev := ne_notify_give E (m_dev st)\<rparr>"

definition sent_irq :: "'d network \<Rightarrow> 'd network" where
  "sent_irq st = st"

text \<open>The big-endian half word in the low half of a register.\<close>

definition swapped :: "u32 \<Rightarrow> u32" where
  "swapped w = push_bit 8 (w AND 255) OR (drop_bit 8 w AND 255)"

definition emac_call :: "mmio \<Rightarrow> ('d \<Rightarrow> 'a \<times> 'd) \<Rightarrow> 'd network \<Rightarrow> 'a \<times> 'd network" where
  "emac_call e f st = (let (v, d) = f (m_dev st) in (v, log_event e (st\<lparr>m_dev := d\<rparr>)))"

definition XEmacLite_ReadReg :: "'d network_env \<Rightarrow> u32 \<Rightarrow> 'd network \<Rightarrow> u32 \<times> 'd network" where
  "XEmacLite_ReadReg E a st = (let (v, d) = ne_read_reg E a (m_dev st) in (v, log_event (In32 a v) (st\<lparr>m_dev := d\<rparr>)))"

definition XEmacLite_NextReceiveAddr :: "'d network_env \<Rightarrow> 'd network \<Rightarrow> u32 \<times> 'd network" where
  "XEmacLite_NextReceiveAddr E st = (let (a, d) = ne_next_recv_addr E (m_dev st) in (a, log_event (NextReceive a) (st\<lparr>m_dev := d\<rparr>)))"

definition XEmacLite_GetRxStatus :: "'d network_env \<Rightarrow> u32 \<Rightarrow> 'd network \<Rightarrow> u32 \<times> 'd network" where
  "XEmacLite_GetRxStatus E base st = (let (v, d) = ne_rx_status E base (m_dev st) in (v, log_event (RxStatus base v) (st\<lparr>m_dev := d\<rparr>)))"

definition XEmacLite_SetRxStatus :: "'d network_env \<Rightarrow> u32 \<Rightarrow> u32 \<Rightarrow> 'd network \<Rightarrow> 'd network" where
  "XEmacLite_SetRxStatus E base v st = log_event (SetRxStatus base v) (st\<lparr>m_dev := ne_set_rx_status E base v (m_dev st)\<rparr>)"

text \<open>The buffer to look at: the one the vendor's driver reads next, or the other one when that is empty.\<close>

definition pick_buffer :: "'d network_env \<Rightarrow> 'd network \<Rightarrow> (u32 \<times> u32) \<times> 'd network" where
  "pick_buffer E st =
     (let (base, st) = XEmacLite_NextReceiveAddr E st; (status, st) = XEmacLite_GetRxStatus E base st
      in if status AND XEL_RSR_RECV_DONE_MASK E = 0 then
           let base = base XOR XEL_BUFFER_OFFSET E; (status, st) = XEmacLite_GetRxStatus E base st in ((base, status), st)
         else ((base, status), st))"

text \<open>\<open>bounded_receive\<close>: the result and the frame, which is empty unless the hardware delivered one.\<close>

definition bounded_receive :: "'d network_env \<Rightarrow> 'd network \<Rightarrow> (int \<times> bytes) \<times> 'd network" where
  "bounded_receive E st =
     (let done = XEL_RSR_RECV_DONE_MASK E; ((base, status), st) = pick_buffer E st
      in if status AND done = 0 then ((0, []), st)
      else let (type_word, st) = XEmacLite_ReadReg E (base + XEL_RXBUFF_OFFSET E + 12) st;
               ftype = (ucast (swapped type_word) :: u16);
               (valid, st) = (if ftype = XEL_ETHER_PROTO_TYPE_IP E then
                    let (word, st) = XEmacLite_ReadReg E (base + XEL_RXBUFF_OFFSET E + XEL_HEADER_IP_LENGTH_OFFSET E) st;
                        len = unat (swapped word)
                    in (20 \<le> len \<and> len \<le> ipconfigNETWORK_MTU, st)
                  else (ftype = XEL_ETHER_PROTO_TYPE_ARP E, st))
      in if \<not> valid then ((-1, []), XEmacLite_SetRxStatus E base (status AND NOT done) st)
      else let ((n, frame), st) = emac_call (Call ''XEmacLite_Recv'') (ne_recv E) st
      in ((if XEL_FCS_SIZE E \<le> n then int (n - XEL_FCS_SIZE E) else -1, frame), st))"

definition get_buffer :: "'d network_env \<Rightarrow> 'd network \<Rightarrow> bool \<times> 'd network" where
  "get_buffer E st =
     (let (ok, d) = ne_get_buffer E 1536 (m_dev st); st = st\<lparr>m_dev := d\<rparr>
      in (ok, if ok then log_event (Call ''pxGetNetworkBufferWithDescriptor'') st else st))"

definition release_buffer :: "'d network_env \<Rightarrow> 'd network \<Rightarrow> 'd network" where
  "release_buffer E st = log_event (Call ''vReleaseNetworkBufferAndDescriptor'') (st\<lparr>m_dev := ne_release E (m_dev st)\<rparr>)"

text \<open>One pass of the inner loop of \<open>receive_task\<close>, and whether the loop goes on.\<close>

definition receive_frame :: "'d network_env \<Rightarrow> 'd network \<Rightarrow> bool \<times> 'd network" where
  "receive_frame E st =
     (let (b, st) = get_buffer E st; ((n, frame), st) = bounded_receive E st
      in if n = 0 then (False, if b then release_buffer E st else st)
      else if n < 0 then (True, if b then release_buffer E st else st)
      else if \<not> b then (True, st)
      else let (ep, d) = ne_endpoint E frame (m_dev st); st = st\<lparr>m_dev := d\<rparr>
      in if n < 14 \<or> int ipconfigNETWORK_MTU + 14 < n \<or> \<not> ep then (True, release_buffer E st)
      else let (ok, d) = ne_send_event E (m_dev st); st = st\<lparr>m_dev := d\<rparr>
      in if \<not> ok then (True, release_buffer E st) else (True, log_event (Deliver (nat n)) st))"

text \<open>The inner loop runs as long as frames arrive; one wait and one run of it is one iteration of the task.\<close>

partial_function (option) receive_loop :: "'d network_env \<Rightarrow> 'd network \<Rightarrow> 'd network option" where
  "receive_loop E st = (let (again, st) = receive_frame E st in if again then receive_loop E st else Some st)"

definition receive_step :: "'d network_env \<Rightarrow> 'd network \<Rightarrow> 'd network option" where
  "receive_step E st = receive_loop E (st\<lparr>m_dev := ne_notify_take E 10 (m_dev st)\<rparr>)"

section \<open>Link and output\<close>

definition link_status :: "'d network_env \<Rightarrow> 'd network \<Rightarrow> bool \<times> 'd network" where
  "link_status E st =
     (if nw_phy st < 0 then (True, st)
      else let (r1, d) = ne_phy_read E (of_int (nw_phy st)) 1 (m_dev st); st = st\<lparr>m_dev := d\<rparr>
      in if r1 = None then (False, st)
      else let (r2, d) = ne_phy_read E (of_int (nw_phy st)) 1 (m_dev st); st = st\<lparr>m_dev := d\<rparr>
      in case r2 of None \<Rightarrow> (False, st) | Some status \<Rightarrow> (status AND 4 \<noteq> 0, st))"

definition ethernet_phy_known :: "'d network \<Rightarrow> bool" where
  "ethernet_phy_known st \<longleftrightarrow> 0 \<le> nw_phy st"

definition ethernet_retry_dhcp :: "'d network_env \<Rightarrow> 'd network \<Rightarrow> 'd network" where
  "ethernet_retry_dhcp E st = (if nw_iface st then st\<lparr>m_dev := ne_network_down E (m_dev st)\<rparr> else st)"

partial_function (option) output_loop :: "'d network_env \<Rightarrow> u32 \<Rightarrow> bytes \<Rightarrow> 'd network \<Rightarrow> (bool \<times> 'd network) option" where
  "output_loop E start frame st =
     (let (avail, d) = ne_tx_available E (m_dev st); st = st\<lparr>m_dev := d\<rparr>
      in if avail then
           (if length frame \<le> 1514 then let (ok, st) = emac_call (Send frame) (ne_send E frame) st in Some (ok, st)
            else Some (False, st))
         else let st = vTaskDelay E 1 st; (now, st) = xTaskGetTickCount E st
         in if now - start < 2 then output_loop E start frame st else Some (False, st))"

definition eth_output :: "'d network_env \<Rightarrow> bytes \<Rightarrow> bool \<Rightarrow> 'd network \<Rightarrow> (bool \<times> 'd network) option" where
  "eth_output E frame release st =
     (let (start, st) = xTaskGetTickCount E st
      in case output_loop E start frame st of None \<Rightarrow> None
         | Some (ok, st) \<Rightarrow> Some (ok, if release then release_buffer E st else st))"

section \<open>Initialisation\<close>

fun find_phy :: "'d network_env \<Rightarrow> nat list \<Rightarrow> 'd network \<Rightarrow> 'd network" where
  "find_phy E [] st = st"
| "find_phy E (p # ps) st =
     (let (r, d) = ne_phy_read E (of_nat p) 2 (m_dev st); st = st\<lparr>m_dev := d\<rparr>
      in case r of None \<Rightarrow> find_phy E ps st
         | Some v \<Rightarrow> if v \<noteq> 0 \<and> v \<noteq> 0xffff then st\<lparr>nw_phy := int p\<rparr> else find_phy E ps st)"

definition configure_phy :: "'d network_env \<Rightarrow> 'd network \<Rightarrow> 'd network" where
  "configure_phy E st =
     (if nw_phy st < 0 then st
      else let phy = of_int (nw_phy st);
               (gigabit, d) = ne_phy_read E phy 9 (m_dev st);
               d = (case gigabit of None \<Rightarrow> d | Some g \<Rightarrow> ne_phy_write E phy 9 (g AND NOT 0x300) d);
               d = ne_phy_write E phy 4 0x0141 d;
               (control, d) = ne_phy_read E phy 0 d;
               d = (case control of None \<Rightarrow> d | Some c \<Rightarrow> ne_phy_write E phy 0 ((c AND NOT 0xcc00) OR 0x1200) d)
           in st\<lparr>m_dev := d\<rparr>)"

text \<open>\<open>None\<close> is the failed assertion.\<close>

definition initialise :: "'d network_env \<Rightarrow> 'd network \<Rightarrow> (bool \<times> 'd network) option" where
  "initialise E st =
     (if nw_rx_task st then Some (link_status E st)
      else let st = st\<lparr>nw_iface := True\<rparr>; (cfg, d) = ne_lookup_config E (m_dev st); st = st\<lparr>m_dev := d\<rparr>
      in if \<not> cfg then Some (False, st)
      else let (ok, d) = ne_cfg_initialize E (m_dev st); st = st\<lparr>m_dev := d\<rparr>
      in if \<not> ok then Some (False, st)
      else let st = st\<lparr>m_dev := ne_set_mac E (m_dev st)\<rparr>;
               st = find_phy E [0..<32] st;
               st = xil_printf E ''PHY MDIO address %d (-1 = strapped/unknown)'' [of_int (nw_phy st)] st;
               st = configure_phy E st;
               (ok, st) = xTaskCreate E ''ether_rx'' st
      in if \<not> ok then Some (False, st)
      else let st = st\<lparr>nw_rx_task := True, m_dev := ne_set_handlers E (m_dev st)\<rparr>;
               (ok, d) = ne_install_handler E (m_dev st); st = st\<lparr>m_dev := d\<rparr>
      in if \<not> ok then None
      else Some (link_status E (st\<lparr>m_dev := ne_enable_interrupts E (m_dev st)\<rparr>)))"

text \<open>The descriptor that the driver registers with the IP stack.\<close>

record 'd interface =
  pcName :: string
  pfInitialise :: "'d network \<Rightarrow> (bool \<times> 'd network) option"
  pfOutput :: "bytes \<Rightarrow> bool \<Rightarrow> 'd network \<Rightarrow> (bool \<times> 'd network) option"
  pfGetPhyLinkStatus :: "'d network \<Rightarrow> bool \<times> 'd network"

definition pxFillInterfaceDescriptor :: "'d network_env \<Rightarrow> 'd network \<Rightarrow> 'd interface \<times> 'd network" where
  "pxFillInterfaceDescriptor E st =
     (\<lparr>pcName = ''eth0'', pfInitialise = initialise E, pfOutput = eth_output E, pfGetPhyLinkStatus = link_status E\<rparr>,
      st\<lparr>m_dev := ne_add_interface E (m_dev st)\<rparr>)"

section \<open>Buffers and initialisation\<close>

text \<open>Every buffer holds a frame of 1536 bytes, and the rows of two buffers do not overlap.\<close>

lemma buffers_hold_frames:
  assumes "uxNetworkInterfaceAllocateRAMToBuffers padding = (usable, bs)"
  shows "1536 \<le> usable" "i < j \<Longrightarrow> j < length bs \<Longrightarrow> snd (bs ! i) + usable \<le> fst (bs ! j)"
    "i < length bs \<Longrightarrow> snd (bs ! i) = fst (bs ! i) + padding \<and> fst (bs ! i) mod 32 = 0"
proof -
  let ?B = "BUFFER_BYTES padding"
  have B: "1536 + padding \<le> ?B" by (simp add: BUFFER_BYTES_def)
  have bs: "usable = ?B - padding" "bs = map (\<lambda>i. (i * ?B, i * ?B + padding)) [0..<24]"
    using assms by (simp_all add: uxNetworkInterfaceAllocateRAMToBuffers_def ipconfigNUM_NETWORK_BUFFER_DESCRIPTORS_def del: upt_rec_numeral)
  show "1536 \<le> usable" using B bs by simp
  show "snd (bs ! i) + usable \<le> fst (bs ! j)" if "i < j" "j < length bs"
  proof -
    have "Suc i * ?B \<le> j * ?B" using that(1) by (intro mult_le_mono1) simp
    then show ?thesis using that bs B by (simp del: upt_rec_numeral)
  qed
  show "snd (bs ! i) = fst (bs ! i) + padding \<and> fst (bs ! i) mod 32 = 0" if "i < length bs"
    using that bs(2) by (simp add: BUFFER_BYTES_def del: upt_rec_numeral)
qed

text \<open>The transceiver that is found is one of the 32 addresses; without one the driver reports the link as up.\<close>

lemma find_phy_range: "set ps \<subseteq> {..<32} \<Longrightarrow> nw_phy st < 32 \<Longrightarrow> - 1 \<le> nw_phy st \<Longrightarrow> nw_phy (find_phy E ps st) \<in> {- 1..31}"
  by (induction ps arbitrary: st) (auto simp: split_def Let_def split: option.split)

lemma link_without_phy: "nw_phy st = -1 \<Longrightarrow> link_status E st = (True, st) \<and> \<not> ethernet_phy_known st"
  by (simp add: link_status_def ethernet_phy_known_def)

section \<open>What a pass of the receive loop does\<close>

text \<open>
  A received frame sits in one of two buffers of the hardware: the one that is read next, when its status has the mark of a received
  frame, otherwise the other one. (Which of them the vendor's copy routine reads when it is called is decided by that routine, outside
  the repository.) The header fields are big-endian half words: of the register that holds them,
  the first byte is the low one.
\<close>

definition frame_found :: "'d network_env \<Rightarrow> u32 \<Rightarrow> u32 \<Rightarrow> mmio list \<Rightarrow> bool" where
  "frame_found E base status es \<longleftrightarrow> status AND XEL_RSR_RECV_DONE_MASK E \<noteq> 0 \<and>
     (es = [NextReceive base, RxStatus base status] \<or>
      (\<exists>a s. s AND XEL_RSR_RECV_DONE_MASK E = 0 \<and> base = a XOR XEL_BUFFER_OFFSET E \<and> es = [NextReceive a, RxStatus a s, RxStatus base status]))"

definition none_found :: "'d network_env \<Rightarrow> mmio list \<Rightarrow> bool" where
  "none_found E es \<longleftrightarrow> (\<exists>a s s'. s AND XEL_RSR_RECV_DONE_MASK E = 0 \<and> s' AND XEL_RSR_RECV_DONE_MASK E = 0 \<and>
     es = [NextReceive a, RxStatus a s, RxStatus (a XOR XEL_BUFFER_OFFSET E) s'])"

definition half_word :: "u32 \<Rightarrow> nat" where
  "half_word w = 256 * (unat w mod 256) + unat w div 256 mod 256"

text \<open>The header of the buffer at \<open>base\<close> is read, and is acceptable or not: ARP, or IPv4 with a length of 20 to 1500 bytes.\<close>

definition header_read :: "'d network_env \<Rightarrow> u32 \<Rightarrow> bool \<Rightarrow> mmio list \<Rightarrow> bool" where
  "header_read E base ok es \<longleftrightarrow>
     (\<exists>w. es = [In32 (base + XEL_RXBUFF_OFFSET E + 12) w] \<and> half_word w \<noteq> unat (XEL_ETHER_PROTO_TYPE_IP E) \<and>
        ok = (half_word w = unat (XEL_ETHER_PROTO_TYPE_ARP E))) \<or>
     (\<exists>w l. es = [In32 (base + XEL_RXBUFF_OFFSET E + 12) w, In32 (base + XEL_RXBUFF_OFFSET E + XEL_HEADER_IP_LENGTH_OFFSET E) l] \<and>
        half_word w = unat (XEL_ETHER_PROTO_TYPE_IP E) \<and> ok = (20 \<le> half_word l \<and> half_word l \<le> 1500))"

definition frame_copied :: "'d network_env \<Rightarrow> mmio list \<Rightarrow> bool" where
  "frame_copied E es \<longleftrightarrow> (\<exists>base status pk hd. es = pk @ hd @ [Call ''XEmacLite_Recv''] \<and> frame_found E base status pk \<and> header_read E base True hd)"

definition frame_discarded :: "'d network_env \<Rightarrow> mmio list \<Rightarrow> bool" where
  "frame_discarded E es \<longleftrightarrow> (\<exists>base status pk hd. es = pk @ hd @ [SetRxStatus base (status AND NOT (XEL_RSR_RECV_DONE_MASK E))] \<and>
     frame_found E base status pk \<and> header_read E base False hd)"

lemma swapped_half: "unat (swapped w) = half_word w" "((ucast (swapped w) :: u16) = t) = (half_word w = unat t)"
proof -
  have m: "unat (x AND 255) = unat x mod 256" for x :: u32
  proof -
    have "unat (x AND 255) = take_bit 8 (unat x)" by (simp add: unsigned_and_eq take_bit_eq_mask mask_eq_exp_minus_1)
    then show ?thesis by (simp add: take_bit_eq_mod)
  qed
  have "push_bit 8 (w AND 255) AND (drop_bit 8 w AND 255) = 0"
  proof (rule bit_word_eqI)
    fix n :: nat
    have "bit (mask 8 :: u32) n \<Longrightarrow> n < 8" by (simp add: bit_mask_iff)
    moreover have "(255 :: u32) = mask 8" by (simp add: mask_eq_exp_minus_1)
    ultimately have "bit (255 :: u32) n \<Longrightarrow> n < 8" by simp
    then show "bit (push_bit 8 (w AND 255) AND (drop_bit 8 w AND 255)) n = bit 0 n" by (auto simp: bit_simps)
  qed
  then have "swapped w = push_bit 8 (w AND 255) + (drop_bit 8 w AND 255)" by (simp add: swapped_def disjunctive_add_eq_or)
  also have "\<dots> = 256 * (w AND 255) + (drop_bit 8 w AND 255)" by (simp add: push_bit_eq_mult)
  finally have "unat (swapped w) = unat (256 * (w AND 255) + (drop_bit 8 w AND 255))" by simp
  also have "\<dots> = half_word w" by (simp add: unat_word_ariths m unat_drop_bit_div half_word_def)
  finally show s: "unat (swapped w) = half_word w" .
  have "half_word w < 65536" unfolding half_word_def using mod_less_divisor [of 256 "unat w"] mod_less_divisor [of 256 "unat w div 256"] by linarith
  then have "unat (ucast (swapped w) :: u16) = half_word w" using s by (simp add: unat_ucast_mod)
  then show "((ucast (swapped w) :: u16) = t) = (half_word w = unat t)" by (simp add: word_unat_eq_iff)
qed

lemma emac_call_trace [simp]: "m_trace (snd (emac_call e f st)) = m_trace st @ [e]"
  by (simp add: emac_call_def log_event_def split_def Let_def)

lemma pick_buffer_trace:
  assumes "pick_buffer E st = ((base, status), st')"
  shows "\<exists>es. m_trace st' = m_trace st @ es \<and> (if status AND XEL_RSR_RECV_DONE_MASK E = 0 then none_found E es else frame_found E base status es)"
proof -
  obtain a s1 where s1: "XEmacLite_NextReceiveAddr E st = (a, s1)" by fastforce
  obtain v s2 where s2: "XEmacLite_GetRxStatus E a s1 = (v, s2)" by fastforce
  obtain v' s3 where s3: "XEmacLite_GetRxStatus E (a XOR XEL_BUFFER_OFFSET E) s2 = (v', s3)" by fastforce
  have t2: "m_trace s2 = m_trace st @ [NextReceive a, RxStatus a v]"
    using s1 s2 by (auto simp: XEmacLite_NextReceiveAddr_def XEmacLite_GetRxStatus_def log_event_def split: prod.splits)
  then have t3: "m_trace s3 = m_trace st @ [NextReceive a, RxStatus a v, RxStatus (a XOR XEL_BUFFER_OFFSET E) v']"
    using s3 by (auto simp: XEmacLite_GetRxStatus_def log_event_def split: prod.splits)
  show ?thesis
  proof (cases "v AND XEL_RSR_RECV_DONE_MASK E = 0")
    case True
    then have "base = a XOR XEL_BUFFER_OFFSET E" "status = v'" "st' = s3" using assms by (simp_all add: pick_buffer_def s1 s2 s3)
    then show ?thesis using t3 True by (auto simp: none_found_def frame_found_def)
  next
    case False
    then have "base = a" "status = v" "st' = s2" using assms by (simp_all add: pick_buffer_def s1 s2)
    then show ?thesis using t2 False by (auto simp: frame_found_def)
  qed
qed

lemma bounded_receive_trace:
  assumes "bounded_receive E st = ((n, frame), st')"
  shows "\<exists>es. m_trace st' = m_trace st @ es \<and> (frame_copied E es \<or> frame_discarded E es \<and> n = -1 \<or> none_found E es \<and> n = 0)"
proof -
  obtain base status s1 where s1: "pick_buffer E st = ((base, status), s1)" by (metis prod.exhaust)
  from pick_buffer_trace [OF s1] obtain pk where t1: "m_trace s1 = m_trace st @ pk"
    and pk: "if status AND XEL_RSR_RECV_DONE_MASK E = 0 then none_found E pk else frame_found E base status pk" by blast
  let ?a = "base + XEL_RXBUFF_OFFSET E" and ?ip = "unat (XEL_ETHER_PROTO_TYPE_IP E)" and ?arp = "unat (XEL_ETHER_PROTO_TYPE_ARP E)"
  obtain w s2 where s2: "XEmacLite_ReadReg E (?a + 12) s1 = (w, s2)" by fastforce
  obtain l s3 where s3: "XEmacLite_ReadReg E (?a + XEL_HEADER_IP_LENGTH_OFFSET E) s2 = (l, s3)" by fastforce
  define valid where "valid = (if half_word w = ?ip then 20 \<le> half_word l \<and> half_word l \<le> 1500 else half_word w = ?arp)"
  define s where "s = (if half_word w = ?ip then s3 else s2)"
  define hd where "hd = drop (length (m_trace s1)) (m_trace s)"
  have t2: "m_trace s2 = m_trace s1 @ [In32 (?a + 12) w]" using s2 by (auto simp: XEmacLite_ReadReg_def log_event_def split: prod.splits)
  have t3: "m_trace s3 = m_trace s1 @ [In32 (?a + 12) w, In32 (?a + XEL_HEADER_IP_LENGTH_OFFSET E) l]"
    using s3 t2 by (auto simp: XEmacLite_ReadReg_def log_event_def split: prod.splits)
  have hd: "m_trace s = m_trace st @ pk @ hd" "header_read E base valid hd"
    using t1 t2 t3 by (auto simp: hd_def s_def valid_def header_read_def)
  have body: "bounded_receive E st =
     (if status AND XEL_RSR_RECV_DONE_MASK E = 0 then ((0, []), s1)
      else if \<not> valid then ((-1, []), XEmacLite_SetRxStatus E base (status AND NOT (XEL_RSR_RECV_DONE_MASK E)) s)
      else let ((n, frame), s) = emac_call (Call ''XEmacLite_Recv'') (ne_recv E) s
      in ((if XEL_FCS_SIZE E \<le> n then int (n - XEL_FCS_SIZE E) else -1, frame), s))"
    by (simp add: bounded_receive_def s1 s2 s3 Let_def ipconfigNETWORK_MTU_def swapped_half valid_def s_def)
  consider "status AND XEL_RSR_RECV_DONE_MASK E = 0" | "status AND XEL_RSR_RECV_DONE_MASK E \<noteq> 0" "\<not> valid"
    | "status AND XEL_RSR_RECV_DONE_MASK E \<noteq> 0" "valid" by blast
  then show ?thesis
  proof cases
    case 1
    then show ?thesis using assms body t1 pk by (intro exI [of _ pk]) auto
  next
    case 2
    let ?e = "SetRxStatus base (status AND NOT (XEL_RSR_RECV_DONE_MASK E))"
    have "m_trace st' = m_trace st @ pk @ hd @ [?e]" "n = -1"
      using assms body 2 hd(1) by (auto simp: XEmacLite_SetRxStatus_def log_event_def)
    moreover have "frame_discarded E (pk @ hd @ [?e])" using 2 pk hd(2) unfolding frame_discarded_def by (simp, blast)
    ultimately show ?thesis by blast
  next
    case 3
    have "st' = snd (emac_call (Call ''XEmacLite_Recv'') (ne_recv E) s)" using assms body 3 by (simp add: split_def Let_def)
    then have "m_trace st' = m_trace st @ pk @ hd @ [Call ''XEmacLite_Recv'']" using hd(1) by simp
    moreover have "frame_copied E (pk @ hd @ [Call ''XEmacLite_Recv''])" using 3 pk hd(2) unfolding frame_copied_def by (simp, blast)
    ultimately show ?thesis by blast
  qed
qed

text \<open>
  What one pass may do, as a trace: look for a frame, with or without a network buffer in hand; a buffer is returned, or
  handed to the IP task with a copied frame of an admissible length.
\<close>

definition frame_events :: "'d network_env \<Rightarrow> mmio list \<Rightarrow> bool" where
  "frame_events E es \<longleftrightarrow> (\<exists>pre mid post. es = pre @ mid @ post \<and> (frame_copied E mid \<or> frame_discarded E mid \<or> none_found E mid) \<and>
     (pre = [] \<and> post = [] \<or>
      pre = [Call ''pxGetNetworkBufferWithDescriptor''] \<and> post = [Call ''vReleaseNetworkBufferAndDescriptor''] \<or>
      pre = [Call ''pxGetNetworkBufferWithDescriptor''] \<and> frame_copied E mid \<and> (\<exists>k. post = [Deliver k] \<and> 14 \<le> k \<and> k \<le> 1514)))"

lemma receive_frame_trace:
  assumes "receive_frame E st = (again, st')"
  shows "\<exists>es. m_trace st' = m_trace st @ es \<and> frame_events E es"
proof -
  let ?get = "Call ''pxGetNetworkBufferWithDescriptor''" let ?rel = "Call ''vReleaseNetworkBufferAndDescriptor''"
  obtain b s1 where s1: "get_buffer E st = (b, s1)" by fastforce
  define pre where "pre = (if b then [?get] else [])"
  have t1: "m_trace s1 = m_trace st @ pre" using s1 by (auto simp: get_buffer_def pre_def log_event_def Let_def split: prod.splits)
  obtain n frame s2 where s2: "bounded_receive E s1 = ((n, frame), s2)" by (metis prod.exhaust)
  from bounded_receive_trace [OF s2] obtain es where
    es: "m_trace s2 = m_trace s1 @ es" "frame_copied E es \<or> frame_discarded E es \<and> n = -1 \<or> none_found E es \<and> n = 0" by blast
  have rel: "m_trace (release_buffer E (s\<lparr>m_dev := d\<rparr>)) = m_trace s @ [?rel]" "m_trace (release_buffer E s) = m_trace s @ [?rel]"
    for s :: "'a network" and d by (simp_all add: release_buffer_def log_event_def)
  have "\<exists>post. m_trace st' = m_trace s2 @ post \<and>
      (post = [?rel] \<and> b \<or> post = [] \<and> \<not> b \<or> post = [Deliver (nat n)] \<and> b \<and> 14 \<le> n \<and> n \<le> 1514)"
    using assms s1 s2 rel
    by (auto simp: receive_frame_def ipconfigNETWORK_MTU_def log_event_def split_def Let_def split: if_splits)
  then obtain post where post: "m_trace st' = m_trace s2 @ post"
    "post = [?rel] \<and> b \<or> post = [] \<and> \<not> b \<or> post = [Deliver (nat n)] \<and> b \<and> 14 \<le> n \<and> n \<le> 1514" by blast
  have "frame_events E (pre @ es @ post)"
    unfolding frame_events_def using post(2) es(2)
    by (intro exI [of _ pre] exI [of _ es] exI [of _ post]) (auto simp: pre_def)
  then show ?thesis using t1 es(1) post(1) by auto
qed

lemma receive_loop_trace:
  assumes "receive_loop E st = Some st'"
  shows "\<exists>ess. m_trace st' = m_trace st @ concat ess \<and> list_all (frame_events E) ess"
proof (rule receive_loop.raw_induct [OF _ assms, where P = "\<lambda>E st st'. \<exists>ess. m_trace st' = m_trace st @ concat ess \<and> list_all (frame_events E) ess"])
  fix loop and E :: "'a network_env" and st st' :: "'a network"
  assume IH: "\<And>(E :: 'a network_env) (st :: 'a network) st'. loop E st = Some st' \<Longrightarrow>
      \<exists>ess. m_trace st' = m_trace st @ concat ess \<and> list_all (frame_events E) ess"
    and run: "(let (again, st) = receive_frame E st in if again then loop E st else Some st) = Some st'"
  obtain again s1 where s1: "receive_frame E st = (again, s1)" by fastforce
  from receive_frame_trace [OF s1] obtain es where es: "m_trace s1 = m_trace st @ es" "frame_events E es" by blast
  show "\<exists>ess. m_trace st' = m_trace st @ concat ess \<and> list_all (frame_events E) ess"
  proof (cases again)
    case True
    then obtain ess where "m_trace st' = m_trace s1 @ concat ess" "list_all (frame_events E) ess" using run s1 IH [of E s1 st'] by auto
    then show ?thesis using es by (intro exI [of _ "es # ess"]) simp
  next
    case False
    then show ?thesis using run s1 es by (intro exI [of _ "[es]"]) simp
  qed
qed

section \<open>Output ends\<close>

definition output_clock :: "'d network_env \<Rightarrow> ('d \<Rightarrow> nat) \<Rightarrow> bool" where
  "output_clock E t \<longleftrightarrow>
     (\<forall>d. fst (os_ticks E d) = of_nat (t d) \<and> t d \<le> t (snd (os_ticks E d)) \<and> t (snd (os_ticks E d)) \<le> t d + 2 ^ 29) \<and>
     (\<forall>d. t d \<le> t (snd (ne_tx_available E d)) \<and> t (snd (ne_tx_available E d)) \<le> t d + 2 ^ 29) \<and>
     (\<forall>d. t d + 1 \<le> t (os_delay E 1 d) \<and> t (os_delay E 1 d) \<le> t d + 2 ^ 29)"

definition output_events :: "bytes \<Rightarrow> bool \<Rightarrow> mmio list \<Rightarrow> bool" where
  "output_events frame ok es \<longleftrightarrow> (\<exists>k \<le> 2. es = replicate k (Call ''vTaskDelay'') \<and> \<not> ok \<or>
     es = replicate k (Call ''vTaskDelay'') @ [Send frame] \<and> length frame \<le> 1514)"

lemma output_loop_ends:
  assumes "output_clock E t"
  shows "t0 \<le> t (m_dev st) \<Longrightarrow> t (m_dev st) - t0 \<le> 2 ^ 31 \<Longrightarrow> k \<le> 1 \<Longrightarrow> k \<le> t (m_dev st) - t0 \<Longrightarrow>
    \<exists>ok st' j. output_loop E (of_nat t0) frame st = Some (ok, st') \<and> k + j \<le> 2 \<and>
      (m_trace st' = m_trace st @ replicate j (Call ''vTaskDelay'') \<and> \<not> ok \<or>
       m_trace st' = m_trace st @ replicate j (Call ''vTaskDelay'') @ [Send frame] \<and> length frame \<le> 1514)"
proof (induction "2 - k" arbitrary: k st rule: less_induct)
  case less
  obtain avail d1 where d1: "ne_tx_available E (m_dev st) = (avail, d1)" by fastforce
  let ?s1 = "st\<lparr>m_dev := d1\<rparr>" let ?s2 = "vTaskDelay E 1 ?s1"
  obtain now s3 where s3: "xTaskGetTickCount E ?s2 = (now, s3)" by fastforce
  have c1: "t (m_dev st) \<le> t d1" "t d1 \<le> t (m_dev st) + 2 ^ 29"
    using assms d1 unfolding output_clock_def by (metis snd_conv)+
  have c2: "t d1 + 1 \<le> t (m_dev ?s2)" "t (m_dev ?s2) \<le> t d1 + 2 ^ 29"
    using assms unfolding output_clock_def by (simp_all add: vTaskDelay_def log_event_def)
  have c3: "now = of_nat (t (m_dev ?s2))" "t (m_dev ?s2) \<le> t (m_dev s3)" "t (m_dev s3) \<le> t (m_dev ?s2) + 2 ^ 29"
    "m_trace s3 = m_trace st @ [Call ''vTaskDelay'']"
    using assms s3 unfolding output_clock_def by (auto simp: xTaskGetTickCount_def vTaskDelay_def log_event_def split: prod.splits) (metis fst_conv snd_conv)+
  note unroll = output_loop.simps [of E "of_nat t0" frame st]
  show ?case
  proof (cases "avail \<or> \<not> now - of_nat t0 < 2")
    case True
    show ?thesis
    proof (cases avail)
      case True
      obtain ok s where s: "emac_call (Send frame) (ne_send E frame) ?s1 = (ok, s)" by fastforce
      then have m: "m_trace s = m_trace st @ [Send frame]" using emac_call_trace [of "Send frame" "ne_send E frame" ?s1] by simp
      have "output_loop E (of_nat t0) frame st = (if length frame \<le> 1514 then Some (ok, s) else Some (False, ?s1))"
        by (subst unroll) (simp add: d1 True s)
      then show ?thesis using m less.prems(3) by (cases "length frame \<le> 1514") (force intro!: exI [of _ "0 :: nat"])+
    next
      case False
      then have "output_loop E (of_nat t0) frame st = Some (False, s3)" using True by (subst unroll) (simp add: d1 s3)
      then show ?thesis using less.prems(3) c3(4) by (force intro!: exI [of _ "1 :: nat"])
    qed
  next
    case False
    have "(of_nat (t (m_dev ?s2)) :: u32) - of_nat t0 = of_nat (t (m_dev ?s2) - t0)" using less.prems(1) c1 c2 by (simp add: of_nat_diff)
    then have "unat (now - of_nat t0) = t (m_dev ?s2) - t0"
      unfolding c3(1) using less.prems(2) c1 c2 by (simp add: unat_of_nat)
    then have el: "t (m_dev ?s2) - t0 < 2" using False by (simp add: word_less_nat_alt)
    then have k: "k = 0" using less.prems c1 c2 by linarith
    have step: "output_loop E (of_nat t0) frame st = output_loop E (of_nat t0) frame s3"
      using False by (subst unroll) (simp add: d1 s3)
    have "\<exists>ok st' j. output_loop E (of_nat t0) frame s3 = Some (ok, st') \<and> 1 + j \<le> 2 \<and>
      (m_trace st' = m_trace s3 @ replicate j (Call ''vTaskDelay'') \<and> \<not> ok \<or>
       m_trace st' = m_trace s3 @ replicate j (Call ''vTaskDelay'') @ [Send frame] \<and> length frame \<le> 1514)"
      using less.prems c1 c2 c3 el k by (intro less.hyps) auto
    then obtain ok st' j where "output_loop E (of_nat t0) frame s3 = Some (ok, st')" "1 + j \<le> 2"
      "m_trace st' = m_trace s3 @ replicate j (Call ''vTaskDelay'') \<and> \<not> ok \<or>
       m_trace st' = m_trace s3 @ replicate j (Call ''vTaskDelay'') @ [Send frame] \<and> length frame \<le> 1514" by blast
    then show ?thesis unfolding step using k c3(4) by (intro exI [of _ ok] exI [of _ st'] exI [of _ "Suc j"]) auto
  qed
qed

section \<open>Properties\<close>

text \<open>
  C8. Receiving is safe and leaks nothing. A pass of the receive loop looks for a frame in the hardware buffer that is read next and, when
  that has none, in the other one. The vendor's copy routine, which trusts the length field of the packet, runs at most once, and only right
  after the header of the very buffer in which the frame was found was read and says ARP, or IPv4 with a length of 20 to 1500 bytes (type and
  length as big-endian half words); any other frame is discarded by clearing the mark of that buffer. Only copied frames of 14 to 1514 bytes
  reach the IP stack; and a network
  buffer taken in the pass is returned or handed over before the pass ends, exactly once. A whole run of the
  receive task is a sequence of such passes.
\<close>

theorem receive_safe:
  "(\<exists>es. m_trace (snd (receive_frame E st)) = m_trace st @ es \<and> frame_events E es) \<and>
   (\<forall>st'. receive_step E st = Some st' \<longrightarrow> (\<exists>ess. m_trace st' = m_trace st @ concat ess \<and> list_all (frame_events E) ess))"
  using receive_frame_trace [of E st "fst (receive_frame E st)"] receive_loop_trace [of E "st\<lparr>m_dev := ne_notify_take E 10 (m_dev st)\<rparr>"]
  by (auto simp: receive_step_def)

text \<open>Hardware with no frame waiting and a transmit buffer that is always busy.\<close>

definition quiet_net :: "nat network_env" where
  "quiet_net = \<lparr>bsp_in32 = \<lambda>a d. (0, d), bsp_out32 = \<lambda>a v d. d, bsp_in8 = \<lambda>a d. (0, d), bsp_out8 = \<lambda>a v d. d,
     bsp_printf = \<lambda>f args d. d, os_ticks = \<lambda>d. (of_nat d, d), os_delay = \<lambda>n d. d + unat n, os_task_create = \<lambda>n d. (True, d),
     XEL_RSR_RECV_DONE_MASK = 1, XEL_BUFFER_OFFSET = 0x800, XEL_RXBUFF_OFFSET = 0x1000, XEL_HEADER_IP_LENGTH_OFFSET = 16,
     XEL_ETHER_PROTO_TYPE_ARP = 0x806, XEL_ETHER_PROTO_TYPE_IP = 0x800, XEL_FCS_SIZE = 4, ipBUFFER_PADDING = 14,
     ne_next_recv_addr = \<lambda>d. (0, d), ne_rx_status = \<lambda>a d. (0, d), ne_set_rx_status = \<lambda>a v d. d, ne_read_reg = \<lambda>a d. (0, d),
     ne_recv = \<lambda>d. ((0, []), d), ne_notify_give = \<lambda>d. d, ne_notify_take = \<lambda>n d. d, ne_get_buffer = \<lambda>n d. (True, d), ne_release = \<lambda>d. d,
     ne_endpoint = \<lambda>f d. (True, d), ne_send_event = \<lambda>d. (True, d), ne_phy_read = \<lambda>p r d. (None, d), ne_phy_write = \<lambda>p r v d. d,
     ne_network_down = \<lambda>d. d, ne_tx_available = \<lambda>d. (False, d), ne_send = \<lambda>f d. (True, d), ne_lookup_config = \<lambda>d. (True, d),
     ne_cfg_initialize = \<lambda>d. (True, d), ne_set_mac = \<lambda>d. d, ne_set_handlers = \<lambda>d. d, ne_install_handler = \<lambda>d. (True, d),
     ne_enable_interrupts = \<lambda>d. d, ne_add_interface = \<lambda>d. d\<rparr>"

text \<open>
  Hardware with one IPv4 packet of 100 bytes in the buffer that is not the next one: the device state counts the frames copied. The first
  register holds the type, the second the length, each with its first byte lowest.
\<close>

definition frame_net :: "nat network_env" where
  "frame_net = quiet_net\<lparr>ne_next_recv_addr := \<lambda>d. (0x40e00000, d), ne_rx_status := \<lambda>a d. (if d = 0 \<and> a = 0x40e00800 then 1 else 0, d),
     ne_read_reg := \<lambda>a d. (if a = 0x40e0180c then 0x0008 else if a = 0x40e01810 then 0x6400 else 0, d),
     ne_recv := \<lambda>d. ((118, replicate 118 0), Suc d)\<rparr>"

abbreviation frame_pass :: "mmio list" where
  "frame_pass \<equiv> [Call ''pxGetNetworkBufferWithDescriptor'', NextReceive 0x40e00000, RxStatus 0x40e00000 0, RxStatus 0x40e00800 1,
     In32 0x40e0180c 0x0008, In32 0x40e01810 0x6400, Call ''XEmacLite_Recv'', Deliver 114]"

abbreviation idle_pass :: "mmio list" where
  "idle_pass \<equiv> [Call ''pxGetNetworkBufferWithDescriptor'', NextReceive 0x40e00000, RxStatus 0x40e00000 0, RxStatus 0x40e00800 0,
     Call ''vReleaseNetworkBufferAndDescriptor'']"

lemmas frame_net_defs = frame_net_def quiet_net_def network_vars_def receive_frame_def get_buffer_def bounded_receive_def pick_buffer_def
  XEmacLite_NextReceiveAddr_def XEmacLite_GetRxStatus_def XEmacLite_ReadReg_def emac_call_def release_buffer_def log_event_def swapped_def
  ipconfigNETWORK_MTU_def

lemma frame_receive: "receive_step frame_net (network_vars 0 []) = Some (network_vars 1 (frame_pass @ idle_pass))"
proof -
  have "receive_frame frame_net (network_vars 0 []) = (True, network_vars 1 frame_pass)"
    "receive_frame frame_net (network_vars 1 frame_pass) = (False, network_vars 1 (frame_pass @ idle_pass))"
    by (simp_all add: frame_net_defs)
  moreover have "(network_vars 0 [])\<lparr>m_dev := ne_notify_take frame_net 10 (m_dev (network_vars 0 []))\<rparr> = network_vars 0 []"
    by (simp add: frame_net_defs)
  ultimately show ?thesis by (simp only: receive_step_def) (subst receive_loop.simps, simp, subst receive_loop.simps, simp)
qed

theorem receive_safe_witness:
  "\<exists>ess. frame_pass @ idle_pass = concat ess \<and> list_all (frame_events frame_net) ess"
  using receive_safe [THEN conjunct2, rule_format, OF frame_receive] by (simp add: network_vars_def)

text \<open>
  C35. Transmitting never blocks the IP task: whatever the hardware does, \<open>output\<close> returns within two ticks of waiting; it hands the
  frame to the hardware at most once, never one of more than 1514 bytes, reports success only then, and
  releases the buffer exactly once when asked to and never otherwise.
\<close>

theorem output_ends:
  assumes "output_clock E t"
  shows "\<exists>ok st' es. eth_output E frame release st = Some (ok, st') \<and> output_events frame ok es \<and>
    m_trace st' = m_trace st @ es @ (if release then [Call ''vReleaseNetworkBufferAndDescriptor''] else [])"
proof -
  obtain start s1 where s1: "xTaskGetTickCount E st = (start, s1)" by fastforce
  have "fst (os_ticks E (m_dev st)) = of_nat (t (m_dev st)) \<and> t (m_dev st) \<le> t (snd (os_ticks E (m_dev st))) \<and>
      t (snd (os_ticks E (m_dev st))) \<le> t (m_dev st) + 2 ^ 29"
    using assms unfolding output_clock_def by blast
  then have c: "start = of_nat (t (m_dev st))" "t (m_dev st) \<le> t (m_dev s1)" "t (m_dev s1) - t (m_dev st) \<le> 2 ^ 31" "m_trace s1 = m_trace st"
    using s1 by (auto simp: xTaskGetTickCount_def split: prod.splits)
  from output_loop_ends [OF assms c(2,3), of 0 frame] obtain ok st' j where
    o': "output_loop E start frame s1 = Some (ok, st')" "j \<le> 2"
      "m_trace st' = m_trace st @ replicate j (Call ''vTaskDelay'') \<and> \<not> ok \<or>
       m_trace st' = m_trace st @ replicate j (Call ''vTaskDelay'') @ [Send frame] \<and> length frame \<le> 1514"
    unfolding c(1,4) by auto
  define es where "es = drop (length (m_trace st)) (m_trace st')"
  have es: "m_trace st' = m_trace st @ es" "output_events frame ok es"
    using o'(2,3) unfolding es_def output_events_def by (elim disjE conjE; force)+
  have "eth_output E frame release st = Some (ok, if release then release_buffer E st' else st')"
    using s1 o'(1) by (simp add: eth_output_def)
  with es show ?thesis by (cases release) (auto simp: release_buffer_def log_event_def)
qed

theorem output_ends_witness:
  "\<exists>ok st' es. eth_output quiet_net [1, 2, 3] True (network_vars 0 []) = Some (ok, st') \<and> output_events [1, 2, 3] ok es \<and>
    m_trace st' = es @ [Call ''vReleaseNetworkBufferAndDescriptor'']"
proof -
  have "output_clock quiet_net (\<lambda>d. d)" by (simp add: output_clock_def quiet_net_def)
  from output_ends [OF this, of "[1, 2, 3]" True "network_vars 0 []"] show ?thesis by (simp add: network_vars_def)
qed

end
