(* ===== verification/Port_Hooks.thy ===== *)
theory Port_Hooks
  imports Dashboard
begin

text \<open>
  \<open>application/port_hooks.c\<close>: the tick timer and the fatal-error hooks of the port. The vendor's timer and interrupt functions are
  parameters; the trace records the calls, and \<open>ph_halted\<close> that a hook has entered its endless loop.
\<close>

section \<open>The code\<close>

record 'd port = "'d machine" +
  ph_halted :: bool

record 'd port_env = "'d rtos" +
  XPAR_CPU_CORE_CLOCK_FREQ_HZ :: u32
  pe_tcsr :: u32
  XTC_CSR_INT_OCCURED_MASK :: u32
  pe_timer_initialize :: "'d \<Rightarrow> bool \<times> 'd"
  pe_set_reset_value :: "u32 \<Rightarrow> 'd \<Rightarrow> 'd"
  pe_set_options :: "'d \<Rightarrow> 'd"
  pe_install_handler :: "'d \<Rightarrow> bool \<times> 'd"
  pe_start_intc :: "'d \<Rightarrow> bool \<times> 'd"
  pe_enable_interrupt :: "'d \<Rightarrow> 'd"
  pe_timer_start :: "'d \<Rightarrow> 'd"
  pe_disable_interrupts :: "'d \<Rightarrow> 'd"

definition port_do :: "string \<Rightarrow> ('d \<Rightarrow> 'd) \<Rightarrow> 'd port \<Rightarrow> 'd port" where
  "port_do name f st = log_event (Call name) (st\<lparr>m_dev := f (m_dev st)\<rparr>)"

definition port_try :: "string \<Rightarrow> ('d \<Rightarrow> bool \<times> 'd) \<Rightarrow> 'd port \<Rightarrow> bool \<times> 'd port" where
  "port_try name f st = (let (ok, d) = f (m_dev st) in (ok, log_event (Call name) (st\<lparr>m_dev := d\<rparr>)))"

text \<open>The hooks print, disable the interrupts and never return.\<close>

definition port_halt :: "'d port_env \<Rightarrow> string \<Rightarrow> u32 list \<Rightarrow> 'd port \<Rightarrow> 'd port" where
  "port_halt E text args st =
     (port_do ''taskDISABLE_INTERRUPTS'' (pe_disable_interrupts E) (xil_printf E text args st))\<lparr>ph_halted := True\<rparr>"

definition vApplicationMallocFailedHook :: "'d port_env \<Rightarrow> 'd port \<Rightarrow> 'd port" where
  "vApplicationMallocFailedHook E st = port_halt E ''FreeRTOS malloc failed'' [] st"

definition vApplicationStackOverflowHook :: "'d port_env \<Rightarrow> string option \<Rightarrow> 'd port \<Rightarrow> 'd port" where
  "vApplicationStackOverflowHook E pcTaskName st =
     port_halt E (''FreeRTOS stack overflow in task '' @ (case pcTaskName of Some n \<Rightarrow> n | None \<Rightarrow> ''<unknown>'')) [] st"

definition vAssertCalled :: "'d port_env \<Rightarrow> string \<Rightarrow> u32 \<Rightarrow> 'd port \<Rightarrow> 'd port" where
  "vAssertCalled E pcFileName ulLine st = port_halt E (''FreeRTOS assert: '' @ pcFileName @ '':%lu'') [ulLine] st"

definition application_task_return :: "'d port_env \<Rightarrow> 'd port \<Rightarrow> 'd port" where
  "application_task_return E st = vAssertCalled E ''task returned'' 0 st"

text \<open>A failed \<open>configASSERT\<close> calls \<open>vAssertCalled\<close> and does not come back; the rest of the function is not run.\<close>

definition vApplicationSetupTimerInterrupt :: "'d port_env \<Rightarrow> 'd port \<Rightarrow> 'd port" where
  "vApplicationSetupTimerInterrupt E st =
     (let fail = (\<lambda>ln st. vAssertCalled E ''port_hooks.c'' ln st);
          ulCyclesPerTick = XPAR_CPU_CORE_CLOCK_FREQ_HZ E div configTICK_RATE_HZ
      in if \<not> 0 < ulCyclesPerTick then fail 28 st
      else let (ok, st) = port_try ''XTmrCtr_Initialize'' (pe_timer_initialize E) st
      in if \<not> ok then fail 31 st
      else let st = port_do ''XTmrCtr_SetResetValue'' (pe_set_reset_value E (ulCyclesPerTick - 1)) st;
               st = port_do ''XTmrCtr_SetOptions'' (pe_set_options E) st;
               (ok, st) = port_try ''xPortInstallInterruptHandler'' (pe_install_handler E) st
      in if \<not> ok then fail 43 st
      else let (ok, st) = port_try ''XStartInterruptCntrl'' (pe_start_intc E) st
      in if \<not> ok then fail 49 st
      else port_do ''XTmrCtr_Start'' (pe_timer_start E) (port_do ''vPortEnableInterrupt'' (pe_enable_interrupt E) st))"

definition vApplicationClearTimerInterrupt :: "'d port_env \<Rightarrow> 'd port \<Rightarrow> 'd port" where
  "vApplicationClearTimerInterrupt E st =
     (let (ulTcsr, st) = Xil_In32 E (pe_tcsr E) st in Xil_Out32 E (pe_tcsr E) (ulTcsr OR XTC_CSR_INT_OCCURED_MASK E) st)"

section \<open>Order of the setup\<close>

text \<open>
  The timer is started last, after its period was loaded, its handler installed and the interrupt controller started; otherwise
  the system has halted in \<open>vAssertCalled\<close> and the timer does not run.
\<close>

definition setup_calls :: "string list" where
  "setup_calls = [''XTmrCtr_Initialize'', ''XTmrCtr_SetResetValue'', ''XTmrCtr_SetOptions'', ''xPortInstallInterruptHandler'',
     ''XStartInterruptCntrl'', ''vPortEnableInterrupt'', ''XTmrCtr_Start'']"

lemma port_trace [simp]:
  "m_trace (port_do n f st) = m_trace st @ [Call n]" "m_trace (snd (port_try n g st)) = m_trace st @ [Call n]"
  "ph_halted (port_do n f st) = ph_halted st" "ph_halted (snd (port_try n g st)) = ph_halted st"
  by (simp_all add: port_do_def port_try_def log_event_def split_def Let_def)

lemma assert_halts [simp]: "ph_halted (vAssertCalled E f n st)"
  by (simp add: vAssertCalled_def port_halt_def)

lemma assert_trace: "\<exists>fm. m_trace (vAssertCalled E f n st) = m_trace st @ [Printf fm [n], Call ''taskDISABLE_INTERRUPTS'']"
  by (simp add: vAssertCalled_def port_halt_def xil_printf_def log_event_def port_do_def)

lemma timer_setup_order:
  assumes "\<not> ph_halted st" "vApplicationSetupTimerInterrupt E st = st'" "\<not> ph_halted st'"
  shows "m_trace st' = m_trace st @ map Call setup_calls"
  using assms by (auto simp: vApplicationSetupTimerInterrupt_def setup_calls_def split_def Let_def split: if_splits)

end
