(* ===== verification/Spec2Isabelle.thy ===== *)
theory Spec2Isabelle
  imports Sha256 Target Bitcoin Settings Srec Bootloader Miner_System Config_Durable Power_Monitor App_Main Network_Interface Port_Hooks
begin

text \<open>
  Verification development of the firmware of the SCU35 Bitcoin lottery miner, the C code under
  \<open>src/software\<close>: a bootloader, and a FreeRTOS application that mines for a Stratum pool on FPGA hashing engines.

  \<^bold>\<open>The program.\<close> \<open>bootloader/main.c\<close> calibrates the HyperRAM, reads S-records from flash (\<open>common/srec.c\<close>),
  stores and verifies them in RAM and jumps. \<open>application/main.c\<close> loads the settings from the EEPROM
  (\<open>common/settings.c\<close> over \<open>application/eeprom.c\<close>) and starts the tasks: \<open>application/stratum.c\<close> speaks Stratum with the
  pool, builds block headers (\<open>common/bitcoin.c\<close>, \<open>common/sha256_sw.c\<close>) and owns the mining registers;
  \<open>application/power.c\<close> samples the INA700 monitors (\<open>common/ina700.c\<close>); \<open>application/dashboard.c\<close> collects statistics and
  events, sends telemetry datagrams and serves the configuration port, with the texts of
  \<open>common/miner_protocol.c\<close> and the field access of \<open>common/json_helpers.h\<close>; \<open>application/NetworkInterface.c\<close> is the
  Ethernet driver below the IP stack and \<open>application/port_hooks.c\<close> the tick timer. \<open>common/console.c\<close> is shared.

  \<^bold>\<open>Conventions.\<close> A C integer of width \<open>w\<close> is a \<open>w word\<close>, with its wrap-around; signed integers are \<open>int\<close> and
  shown to stay in range. Arrays are lists; a string argument is the part before the first NUL (\<open>cstr\<close>). The
  static variables of a file are a record that extends \<open>machine\<close> (theory \<open>Mmio\<close>): the state of everything
  outside the program, of an arbitrary type, and the trace of register accesses, sends and calls in
  program order. Board support, FreeRTOS, the IP stack, the vendor drivers and the JSON library are not part of
  the repository: they are the fields of environment records, the theorems hold for all of them, and what is
  assumed of them (that a clock advances, that a queue is a FIFO, that storage keeps what was written) is a named
  hypothesis with a concrete instance. Digit values, record formats, printable characters and byte order have reference definitions of
  their own, independent of the helpers of the code. An early return or a failed assertion is a branch of the
  model; an output buffer of a failing function keeps what was written to it. A function of a task loop is one
  iteration of it. The line ends of console messages are left out of their texts.

  \<^bold>\<open>Theories.\<close>
  \<^item> \<open>Prelude\<close>, \<open>Mmio\<close>, \<open>Cformat\<close>: machine types, arrays, byte order; registers, trace and the preorder \<open>emits\<close>;
    \<open>snprintf\<close>, \<open>strcpy\<close> and number formatting.
  \<^item> \<open>Sha256\<close> (\<open>sha256_sw.c\<close>): streaming hash, compression, header midstate, against the recursive FIPS 180-4
    definition; the locale \<open>stream_hash\<close> states the streaming contract and is interpreted on the code (C1--C3).
  \<^item> \<open>Big_Arith\<close>, \<open>Target\<close> (\<open>bitcoin_target\<close>): limb arithmetic and decimal parsing; the target is the exact quotient (C4).
  \<^item> \<open>Bitcoin\<close>: hexadecimal text, double hash, Merkle root and block header (C5, C6).
  \<^item> \<open>Settings\<close> (\<open>settings.c\<close>): the locales \<open>storage\<close>, \<open>failstop_storage\<close> and \<open>reliable_storage\<close> are the contract of the
    driver's function pointers, interpreted on the memory of the power-failure test; saving is atomic under power
    failure, a save that works is what the next load returns, one corrupted byte is detected, loads deliver valid settings (C9--C11, C13).
  \<^item> \<open>Srec\<close>, \<open>Bootloader\<close>, \<open>Console\<close>: exact parser with round trips and error detection; the boot ends and writes only
    inside RAM until everything is verified; console output is bounded (C14--C16, C18, C19).
  \<^item> \<open>Json_Helpers\<close>, \<open>Miner_Protocol\<close>: field access, configuration command, readback and telemetry texts with their sizes
    (C20, C21, C32, C36).
  \<^item> \<open>Stratum\<close> is all of \<open>stratum.c\<close>, the task as a step function over its control points; \<open>Stratum_Work\<close> shows what is
    written to the miner and which shares are offered (C22, C23), \<open>Stratum_Session\<close> the invariant of every reachable state of the
    session and the consistency of submitted work (C24, C25), \<open>Stratum_Notify\<close> that a job message becomes exactly the header that is mined
    (C7), \<open>Stratum_Fresh\<close> and \<open>Stratum_Pool\<close> that no work is repeated within an extranonce space of a connection, with a run against a
    scripted pool (C12).
  \<^item> \<open>Ina700\<close>, \<open>Power_Monitor\<close>, \<open>Eeprom\<close>: exact samples; every bus transaction ends and stays on its own bus; page
    programming and bursts (C26--C30). \<open>Eeprom_Chip\<close> is a concrete memory behind its IIC controller, with FIFOs and page
    wrap-around; the driver on it is shown to be a \<open>reliable_storage\<close>.
  \<^item> \<open>Dashboard\<close> is all of \<open>dashboard.c\<close>; \<open>Telemetry_Task\<close> and \<open>Config_Server\<close> hold the lemmas on its two tasks and
    \<open>Dashboard_Reach\<close> the reachable states under interleaving, the invariant of the shared variables, what is sent to whom, that
    configuration is all or nothing and that the server never hangs (C37--C40). \<open>Config_Durable\<close> composes the server with the
    settings, the EEPROM driver and the device: an accepted configuration survives and reads back (C34). \<open>Telemetry_Atomic\<close> splits the
    telemetry calls into their atomic actions: under preemption no event is lost uncounted (C31).
  \<^item> \<open>Miner_System\<close>: the Stratum task over the dashboard, whose functions are its telemetry calls and whose settings are its own: the
    status that is reported is that of the session (C17).
  \<^item> \<open>App_Main\<close> (\<open>main.c\<close>): the start establishes the invariant of the dashboard (C33); the random numbers.
  \<^item> \<open>Network_Interface\<close>, \<open>Port_Hooks\<close>: bounded receive, of frames whose own header was checked, without buffer leaks, output with a deadline (C8, C35); the tick timer.

  \<^bold>\<open>Loops and bounds.\<close> Loops that count down in the code recurse on that counter: the 100000 polls of the EEPROM driver, the
  1000000 polls of \<open>outbyte\<close>, the guards of the SPI transfer. Loops that wait for a peer or the clock are
  \<open>partial_function (option)\<close>, and that they return is proved from a clock that advances while a call waits and in which
  no single call takes more than \<open>2 ^ 29\<close> ticks (so that a deadline is never missed by a whole turn of the
  32-bit counter): the IIC waits of \<open>power.c\<close>, the request of the configuration server, the transmit wait. The
  receive loop of the Ethernet driver runs as long as frames arrive; its theorem is about every pass.

  \<^bold>\<open>Interleaving.\<close> The dashboard is shared by all tasks; its functions change the shared variables in critical
  sections or under the settings lock, and a step of \<open>dash_reach\<close> is one call or one iteration of a task. \<open>tele_run\<close>
  is finer: a step is one critical section or queue operation, and any number of calls are in progress at once. The invariant of the
  shared variables and the contents of the datagrams (C37, C38) are shown for the coarser steps. \<open>system_reach\<close>
  interleaves them with the steps of the Stratum task from one control point to the next.

  \<^bold>\<open>Not modelled.\<close> The hashing engines (SystemVerilog), the desktop client (Python), build scripts, constraints and test
  benches are other languages. FreeRTOS and its IP stack, coreJSON and the vendor libraries are not in the repository. Of
  \<open>FreeRTOSConfig.h\<close> and \<open>FreeRTOSIPConfig.h\<close> only the constants that the code depends on appear. The order in
  which a C compiler evaluates the arguments of \<open>xil_printf\<close> in \<open>main\<close> is taken to be left to right.
\<close>

end
